(* ===== verification/VX_Prelude.thy ===== *)
theory VX_Prelude
  imports Main "HOL-Library.Word" "HOL-Library.Monad_Syntax"
begin

text \<open>
  Shared vocabulary of the development: the machine types of the Rust sources, byte slices,
  little-endian and big-endian readings of byte strings, the checked arithmetic of the host
  code (an overflow, an out-of-range index and a failed \<open>unwrap\<close> or \<open>assert_eq\<close> are
  values), and the lemma collections the component theories use.
\<close>

section \<open>Lemma collections\<close>

named_theorems byte_simps \<open>lengths and values of byte strings\<close>
named_theorems result_simps \<open>unfolding of the result type\<close>

section \<open>Machine types\<close>

type_synonym byte = "8 word"
type_synonym u32 = "32 word"
type_synonym u64 = "64 word"

text \<open>A 32-byte digest (\<open>Bytes32Variable\<close>, \<open>H256\<close>) is a byte string of length 32.\<close>

type_synonym bytes = "byte list"

abbreviation zero32 :: bytes where
  "zero32 \<equiv> replicate 32 0"

section \<open>Slices\<close>

text \<open>\<open>xs[a..b]\<close> for constant bounds inside the array, as the circuit code has them.\<close>

definition subarray :: "nat \<Rightarrow> nat \<Rightarrow> 'a list \<Rightarrow> 'a list" where
  "subarray a b xs = take (b - a) (drop a xs)"

lemma length_subarray [byte_simps]: "length (subarray a b xs) = min (b - a) (length xs - a)"
  by (simp add: subarray_def)

lemma length_subarray_within: "a \<le> b \<Longrightarrow> b \<le> length xs \<Longrightarrow> length (subarray a b xs) = b - a"
  by (simp add: subarray_def)

lemma nth_subarray: "i < b - a \<Longrightarrow> a + i < length xs \<Longrightarrow> subarray a b xs ! i = xs ! (a + i)"
  by (simp add: subarray_def)

lemma subarray_append_right:
  "length xs \<le> a \<Longrightarrow> subarray a b (xs @ ys) = subarray (a - length xs) (b - length xs) ys"
  by (cases "b \<le> length xs") (simp_all add: subarray_def)

lemma subarray_append_left: "b \<le> length xs \<Longrightarrow> subarray a b (xs @ ys) = subarray a b xs"
  by (cases "a \<le> b") (simp_all add: subarray_def take_append)

lemma subarray_behind: "length xs = a \<Longrightarrow> subarray a (a + k) (xs @ ys) = take k ys"
  by (simp add: subarray_def)

lemma subarray_subarray:
  "d \<le> b - a \<Longrightarrow> subarray c d (subarray a b xs) = subarray (a + c) (a + d) xs"
  by (simp add: subarray_def drop_take min_def add.commute)

lemma subarray_take: "b \<le> m \<Longrightarrow> subarray a b (take m xs) = subarray a b xs"
  by (cases "a \<le> b") (simp_all add: subarray_def drop_take min_absorb1)

lemma subarray_full [simp]: "length xs = n \<Longrightarrow> subarray 0 n xs = xs"
  by (simp add: subarray_def)

lemma subarray_join: "a \<le> b \<Longrightarrow> b \<le> c \<Longrightarrow> subarray a b xs @ subarray b c xs = subarray a c xs"
proof -
  assume "a \<le> b" "b \<le> c"
  then have "drop b xs = drop (b - a) (drop a xs)" and "c - a = (b - a) + (c - b)"
    by simp_all
  then show ?thesis
    by (simp only: subarray_def take_add)
qed

lemma subarray_Cons: "0 < a \<Longrightarrow> subarray a b (x # xs) = subarray (a - 1) (b - 1) xs"
  by (cases b) (simp_all add: subarray_def drop_Cons')

lemma subarray_padded:
  "b \<le> length xs \<Longrightarrow> subarray a b (xs @ replicate k z) = subarray a b xs"
  by (rule subarray_append_left)

lemma upt_join: "a \<le> b \<Longrightarrow> b \<le> c \<Longrightarrow> [a..<b] @ [b..<c] = [a..<c]"
  using upt_add_eq_append [of a b "c - b"] by simp

section \<open>Ranges of the machine types\<close>

lemma unat_byte_less: "unat (b :: byte) < 256"
  using unsigned_less [of b] by simp

lemma unat_u32_less: "unat (x :: u32) < 4294967296"
  using unsigned_less [of x] by simp

lemma unat_u64_less: "unat (x :: u64) < 18446744073709551616"
  using unsigned_less [of x] by simp

lemma unat_eq_one_iff: "unat (w :: 'a::len word) = Suc 0 \<longleftrightarrow> w = 1"
  by (metis One_nat_def unat_1 unsigned_word_eqI)

lemma unat_of_nat_small: "n < 2 ^ LENGTH('a) \<Longrightarrow> unat (of_nat n :: 'a::len word) = n"
  by (simp add: unat_of_nat)

lemma unat_eq_imp_of_nat: "unat (w :: 'a::len word) = n \<Longrightarrow> w = of_nat n"
  by auto

lemma unat_pred: "w \<noteq> 0 \<Longrightarrow> unat (w - 1) + 1 = unat (w :: 'a::len word)"
  by (simp add: unat_minus_one unat_gt_0 [symmetric] del: unat_gt_0)

lemma quot_rem:
  assumes "x = d * q + r" and "r < (d :: nat)"
  shows "x div d = q" and "x mod d = r"
  using assms by simp_all

section \<open>Byte strings as numbers\<close>

definition le_nat :: "bytes \<Rightarrow> nat" where
  "le_nat bs = horner_sum unat 256 bs"

definition be_nat :: "bytes \<Rightarrow> nat" where
  "be_nat bs = le_nat (rev bs)"

text \<open>The \<open>k\<close> low bytes of a number, least significant byte first (\<open>to_le_bytes\<close>).\<close>

fun le_bytes :: "nat \<Rightarrow> nat \<Rightarrow> bytes" where
  "le_bytes 0 n = []"
| "le_bytes (Suc k) n = of_nat n # le_bytes k (n div 256)"

lemma le_nat_Nil [simp]: "le_nat [] = 0"
  by (simp add: le_nat_def)

lemma le_nat_Cons [simp]: "le_nat (b # bs) = unat b + 256 * le_nat bs"
  by (simp add: le_nat_def)

lemma le_nat_zeros [simp]: "le_nat (replicate n 0) = 0"
  by (induction n) simp_all

lemma le_nat_append: "le_nat (xs @ ys) = le_nat xs + 256 ^ length xs * le_nat ys"
  by (induction xs) (simp_all add: algebra_simps)

lemma le_nat_bound: "le_nat bs < 256 ^ length bs"
proof (induction bs)
  case Nil
  then show ?case by simp
next
  case (Cons b bs)
  with unat_byte_less [of b] show ?case by simp
qed

lemma length_le_bytes [simp, byte_simps]: "length (le_bytes k n) = k"
  by (induction k arbitrary: n) simp_all

lemma unat_of_nat_byte: "unat (of_nat n :: byte) = n mod 256"
  by (simp add: unat_of_nat)

lemma le_nat_le_bytes: "le_nat (le_bytes k n) = n mod 256 ^ k"
proof (induction k arbitrary: n)
  case 0
  then show ?case by simp
next
  case (Suc k)
  then show ?case by (simp add: unat_of_nat_byte mod_mult2_eq algebra_simps)
qed

lemma le_bytes_le_nat: "le_bytes (length bs) (le_nat bs) = bs"
proof (induction bs)
  case Nil
  then show ?case by simp
next
  case (Cons b bs)
  have "(unat b + 256 * le_nat bs) div 256 = le_nat bs"
    using unat_byte_less [of b] by simp
  moreover have "(of_nat (unat b + 256 * le_nat bs) :: byte) = b"
  proof -
    have "(of_nat (256 * le_nat bs) :: byte) = 0"
      by (metis mod_mult_self1_is_0 unat_eq_zero unat_of_nat_byte)
    then show ?thesis by simp
  qed
  ultimately show ?case using Cons by simp
qed

section \<open>Counting marked slots\<close>

lemma count_flags: "length (filter ((!) xs) [0..<length xs]) = length (filter id xs)"
proof -
  have "filter id xs = filter id (map ((!) xs) [0..<length xs])"
    by (simp add: map_nth)
  also have "\<dots> = map ((!) xs) (filter ((!) xs) [0..<length xs])"
    by (simp add: filter_map comp_def)
  finally show ?thesis by simp
qed

section \<open>Results of the host code\<close>

text \<open>
  Host code ends in a value, in a returned \<open>Err\<close> (\<open>anyhow::Error\<close>) or in a panic. A panic
  unwinds through every caller; a returned \<open>Err\<close> is a value the caller can inspect
  (\<open>is_ok\<close>, \<open>match\<close>). Integer overflow panics, as it does in the profile the services are
  started with.
\<close>

datatype fault = Panic string | Failure string

type_synonym 'a result = "fault + 'a"

definition and_then :: "'a result \<Rightarrow> ('a \<Rightarrow> 'b result) \<Rightarrow> 'b result" where
  "and_then m f = (case m of Inl e \<Rightarrow> Inl e | Inr x \<Rightarrow> f x)"

definition expect :: "'a option \<Rightarrow> string \<Rightarrow> 'a result" where
  "expect v msg = (case v of None \<Rightarrow> Inl (Panic msg) | Some x \<Rightarrow> Inr x)"

definition unwrap_err :: string where
  "unwrap_err = ''called `Result::unwrap()` on an `Err` value''"

definition expect_ok :: "'a result \<Rightarrow> string \<Rightarrow> 'a result" where
  "expect_ok r msg = (case r of Inl (Failure _) \<Rightarrow> Inl (Panic msg) | _ \<Rightarrow> r)"

definition ensure :: "bool \<Rightarrow> string \<Rightarrow> unit result" where
  "ensure b msg = (if b then Inr () else Inl (Panic msg))"

definition checked_add :: "'a::len word \<Rightarrow> 'a word \<Rightarrow> 'a word result" where
  "checked_add a b =
     (if unat a + unat b < 2 ^ LENGTH('a) then Inr (a + b)
      else Inl (Panic ''attempt to add with overflow''))"

definition checked_sub :: "'a::len word \<Rightarrow> 'a word \<Rightarrow> 'a word result" where
  "checked_sub a b =
     (if b \<le> a then Inr (a - b) else Inl (Panic ''attempt to subtract with overflow''))"

definition checked_mul :: "'a::len word \<Rightarrow> 'a word \<Rightarrow> 'a word result" where
  "checked_mul a b =
     (if unat a * unat b < 2 ^ LENGTH('a) then Inr (a * b)
      else Inl (Panic ''attempt to multiply with overflow''))"

definition checked_rem :: "'a::len word \<Rightarrow> 'a word \<Rightarrow> 'a word result" where
  "checked_rem a b =
     (if b \<noteq> 0 then Inr (a mod b)
      else Inl (Panic ''attempt to calculate the remainder with a divisor of zero''))"

definition index :: "'a list \<Rightarrow> nat \<Rightarrow> 'a result" where
  "index xs i = (if i < length xs then Inr (xs ! i) else Inl (Panic ''index out of bounds''))"

definition index_range :: "'a list \<Rightarrow> nat \<Rightarrow> nat \<Rightarrow> 'a list result" where
  "index_range xs a b =
     (if a \<le> b \<and> b \<le> length xs then Inr (subarray a b xs)
      else Inl (Panic ''range end index out of range''))"

fun traverse :: "('a \<Rightarrow> 'b result) \<Rightarrow> 'a list \<Rightarrow> 'b list result" where
  "traverse f [] = Inr []"
| "traverse f (x # xs) =
     and_then (f x) (\<lambda>y. and_then (traverse f xs) (\<lambda>ys. Inr (y # ys)))"

lemma and_then_Inr [simp, result_simps]: "and_then (Inr x) f = f x"
  by (simp add: and_then_def)

lemma and_then_Inl [simp, result_simps]: "and_then (Inl e) f = Inl e"
  by (simp add: and_then_def)

lemma and_then_cong [fundef_cong]:
  "m = m' \<Longrightarrow> (\<And>x. m' = Inr x \<Longrightarrow> f x = g x) \<Longrightarrow> and_then m f = and_then m' g"
  by (cases m') simp_all

lemma and_then_eq_Inr: "and_then m f = Inr y \<longleftrightarrow> (\<exists>x. m = Inr x \<and> f x = Inr y)"
  by (cases m) simp_all

lemma and_then_Inr_E:
  assumes "and_then m f = Inr y"
  obtains x where "m = Inr x" and "f x = Inr y"
  using assms by (auto simp: and_then_eq_Inr)

lemma and_then_assoc: "and_then (and_then m f) g = and_then m (\<lambda>x. and_then (f x) g)"
  by (cases m) simp_all

lemma expect_simps [simp, result_simps]:
  "expect (Some x) msg = Inr x" "expect None msg = Inl (Panic msg)"
  by (simp_all add: expect_def)

lemma expect_ok_Inr [simp, result_simps]: "expect_ok (Inr x) msg = Inr x"
  by (simp add: expect_ok_def)

lemma expect_ok_eq_Inr: "expect_ok r msg = Inr x \<longleftrightarrow> r = Inr x"
  by (auto simp: expect_ok_def split: sum.splits fault.splits)

lemma expect_eq_Inr: "expect v msg = Inr x \<longleftrightarrow> v = Some x"
  by (cases v) simp_all

lemma ensure_simps [simp, result_simps]:
  "b \<Longrightarrow> ensure b msg = Inr ()" "\<not> b \<Longrightarrow> ensure b msg = Inl (Panic msg)"
  by (simp_all add: ensure_def)

lemma ensure_eq_Inr: "ensure b msg = Inr u \<longleftrightarrow> b"
  by (simp add: ensure_def)

lemma checked_add_Inr:
  fixes a b :: "'a::len word"
  assumes "checked_add a b = Inr c"
  shows "unat c = unat a + unat b" and "c = a + b"
  using assms by (auto simp: checked_add_def unat_word_ariths split: if_splits)

lemma checked_add_ok: "unat a + unat b < 2 ^ LENGTH('a) \<Longrightarrow> checked_add a (b :: 'a::len word) = Inr (a + b)"
  by (simp add: checked_add_def)

lemma checked_sub_Inr:
  fixes a b :: "'a::len word"
  assumes "checked_sub a b = Inr c"
  shows "unat c = unat a - unat b" and "b \<le> a" and "c = a - b"
  using assms by (auto simp: checked_sub_def unat_sub split: if_splits)

lemma checked_sub_ok: "b \<le> a \<Longrightarrow> checked_sub a b = Inr (a - b)"
  by (simp add: checked_sub_def)

lemma index_Inr [simp]: "i < length xs \<Longrightarrow> index xs i = Inr (xs ! i)"
  by (simp add: index_def)

lemma traverse_Inr: "(\<And>x. x \<in> set xs \<Longrightarrow> f x = Inr (g x)) \<Longrightarrow> traverse f xs = Inr (map g xs)"
  by (induction xs) simp_all

lemma traverse_append:
  "traverse f (xs @ ys) =
     and_then (traverse f xs) (\<lambda>us. and_then (traverse f ys) (\<lambda>vs. Inr (us @ vs)))"
proof (induction xs)
  case Nil
  then show ?case by (cases "traverse f ys") simp_all
next
  case (Cons x xs)
  then show ?case
    by (cases "f x"; cases "traverse f xs"; cases "traverse f ys") simp_all
qed

lemma traverse_length: "traverse f xs = Inr ys \<Longrightarrow> length ys = length xs"
  by (induction xs arbitrary: ys) (auto elim!: and_then_Inr_E)

lemma traverse_nth: "traverse f xs = Inr ys \<Longrightarrow> i < length xs \<Longrightarrow> f (xs ! i) = Inr (ys ! i)"
proof (induction xs arbitrary: ys i)
  case Nil
  then show ?case by simp
next
  case (Cons x xs)
  then show ?case by (cases i) (auto elim!: and_then_Inr_E)
qed

section \<open>Options\<close>

lemma bind_eq_SomeE:
  assumes "Option.bind m f = Some y"
  obtains x where "m = Some x" and "f x = Some y"
  using assms by (auto simp: bind_eq_Some_conv)

text \<open>A loop whose body can violate a constraint.\<close>

fun fold_option :: "('a \<Rightarrow> 's \<Rightarrow> 's option) \<Rightarrow> 'a list \<Rightarrow> 's \<Rightarrow> 's option" where
  "fold_option f [] s = Some s"
| "fold_option f (x # xs) s = Option.bind (f x s) (fold_option f xs)"

lemma fold_option_append:
  "fold_option f (xs @ ys) s = Option.bind (fold_option f xs s) (fold_option f ys)"
proof (induction xs arbitrary: s)
  case Nil
  then show ?case by simp
next
  case (Cons x xs)
  then show ?case by (cases "f x s") simp_all
qed

lemma fold_option_snoc:
  "fold_option f (xs @ [x]) s = Option.bind (fold_option f xs s) (f x)"
proof -
  have "fold_option f [x] t = f x t" for t
    by (cases "f x t") simp_all
  then have "fold_option f [x] = f x"
    by (rule ext)
  then show ?thesis
    by (simp only: fold_option_append)
qed

end
