(* ===== verification/Gadgets.thy ===== *)
theory Gadgets
  imports VX_Prelude
begin

text \<open>
  The circuit language. A gadget of the sources is a method of plonky2x's \<open>CircuitBuilder\<close>
  that adds constraints over variables. It is read here as the function that evaluates those
  constraints on given values of its inputs and of the values a hint supplied: \<open>None\<close> when a
  constraint is violated, \<open>Some\<close> of the output variables otherwise. A circuit is satisfiable
  on its public inputs when some choice of hint values makes the result \<open>Some\<close>.

  Constants, equality tests, Boolean connectives, \<open>select\<close>, addition of field elements and
  \<open>assert_is_equal\<close> are the words of this language and have their denotation directly. The
  larger operations are code of plonky2x that is not part of the repository: they are the
  fields of the record \<open>plonky2x\<close>, an argument of every gadget that uses them, and the locale
  \<open>plonky2x_gadgets\<close> states what the gadgets rely on. \<open>ref_gadgets\<close> is one implementation
  of the interface, for any hash functions and any signature check.
\<close>

section \<open>Values\<close>

text \<open>A \<open>Variable\<close> holds a field element, represented by its canonical natural number.\<close>

type_synonym variable = nat

record eddsa_signature =
  sig_r :: bytes
  sig_s :: "256 word"

section \<open>Operations of plonky2x\<close>

record plonky2x =
  field_order :: nat
  u32_add :: "u32 \<Rightarrow> u32 \<Rightarrow> u32"
  u32_sub :: "u32 \<Rightarrow> u32 \<Rightarrow> u32"
  u32_mul :: "u32 \<Rightarrow> u32 \<Rightarrow> u32"
  select_variable :: "variable list \<Rightarrow> variable \<Rightarrow> variable option"
  select_byte :: "byte list \<Rightarrow> variable \<Rightarrow> byte option"
  select_bytes32 :: "bytes list \<Rightarrow> variable \<Rightarrow> bytes option"
  get_fixed_subarray :: "nat \<Rightarrow> bytes \<Rightarrow> variable \<Rightarrow> bytes \<Rightarrow> bytes option"
  u32_from_variables :: "variable \<Rightarrow> u32 option"
  u32_decode :: "bytes \<Rightarrow> u32"
  u64_decode :: "bytes \<Rightarrow> u64"
  curta_sha256 :: "bytes \<Rightarrow> bytes"
  builder_sha256 :: "bytes \<Rightarrow> bytes"
  curta_blake2b_variable :: "bytes \<Rightarrow> u32 \<Rightarrow> bytes"
  curta_eddsa_verify_sigs_conditional ::
    "bool list \<Rightarrow> u32 list \<Rightarrow> bytes list \<Rightarrow> eddsa_signature list \<Rightarrow> bytes list \<Rightarrow> bool"
  get_root_from_hashed_leaves :: "bytes list \<Rightarrow> variable \<Rightarrow> bytes"

section \<open>Words of the circuit language\<close>

definition assert_is_equal :: "'a \<Rightarrow> 'a \<Rightarrow> unit option" where
  "assert_is_equal a b = (if a = b then Some () else None)"

definition f_add :: "plonky2x \<Rightarrow> variable \<Rightarrow> variable \<Rightarrow> variable" where
  "f_add B a b = (a + b) mod field_order B"

definition le_sum :: "bool list \<Rightarrow> variable" where
  "le_sum bs = horner_sum of_bool 2 bs"

text \<open>The bits of a byte, most significant first.\<close>

definition as_bool_targets :: "byte \<Rightarrow> bool list" where
  "as_bool_targets b = map (bit b) (rev [0..<8])"

lemma assert_is_equal_Some [simp]: "assert_is_equal a b = Some u \<longleftrightarrow> a = b"
  by (simp add: assert_is_equal_def)

lemma assert_is_equal_refl [simp]: "assert_is_equal a a = Some ()"
  by (simp add: assert_is_equal_def)

lemma assert_is_equal_neq [simp]: "a \<noteq> b \<Longrightarrow> assert_is_equal a b = None"
  by (simp add: assert_is_equal_def)

subsection \<open>Bits of bytes\<close>

lemma le_sum_append: "le_sum (xs @ ys) = le_sum xs + 2 ^ length xs * le_sum ys"
  by (simp add: le_sum_def horner_sum_append)

lemma le_sum_bound: "le_sum bs < 2 ^ length bs"
  by (induction bs) (auto simp: le_sum_def)

lemma le_sum_take: "le_sum (take n bs) = le_sum bs mod 2 ^ n"
proof (cases "n \<le> length bs")
  case True
  have "le_sum bs = le_sum (take n bs) + 2 ^ n * le_sum (drop n bs)"
    using le_sum_append [of "take n bs" "drop n bs"] True by simp
  moreover have "le_sum (take n bs) < 2 ^ n"
    using le_sum_bound [of "take n bs"] True by simp
  ultimately show ?thesis by simp
next
  case False
  then have "le_sum bs < 2 ^ n"
    using le_sum_bound [of bs] power_increasing [of "length bs" n "2 :: nat"] by linarith
  with False show ?thesis by simp
qed

lemma le_sum_drop: "le_sum (drop n bs) = le_sum bs div 2 ^ n"
proof (cases "n \<le> length bs")
  case True
  have "le_sum bs = le_sum (take n bs) + 2 ^ n * le_sum (drop n bs)"
    using le_sum_append [of "take n bs" "drop n bs"] True by simp
  moreover have "le_sum (take n bs) < 2 ^ n"
    using le_sum_bound [of "take n bs"] True by simp
  ultimately show ?thesis by simp
next
  case False
  then have "le_sum bs < 2 ^ n"
    using le_sum_bound [of bs] power_increasing [of "length bs" n "2 :: nat"] by linarith
  moreover have "le_sum (drop n bs) = 0"
    using False by (simp add: le_sum_def)
  ultimately show ?thesis by simp
qed

lemma le_sum_subarray: "le_sum (subarray a b bs) = le_sum bs div 2 ^ a mod 2 ^ (b - a)"
  by (simp add: subarray_def le_sum_take le_sum_drop)

lemma length_as_bool_targets [simp]: "length (as_bool_targets b) = 8"
  by (simp add: as_bool_targets_def)

lemma le_sum_byte: "le_sum (rev (as_bool_targets b)) = unat b"
proof -
  have "rev (as_bool_targets b) = map (bit (unat b)) [0..<8]"
    by (simp add: as_bool_targets_def rev_map bit_unsigned_iff)
  then show ?thesis
    by (simp add: le_sum_def horner_sum_bit_eq_take_bit take_bit_nat_eq_self unsigned_less [of b, simplified])
qed

text \<open>The bits of a byte string, bytes in order, each least significant bit first.\<close>

definition flat_bits :: "bytes \<Rightarrow> bool list" where
  "flat_bits bs = concat (map (\<lambda>b. rev (as_bool_targets b)) bs)"

lemma length_flat_bits [simp, byte_simps]: "length (flat_bits bs) = 8 * length bs"
  by (induction bs) (simp_all add: flat_bits_def)

lemma le_sum_flat_bits: "le_sum (flat_bits bs) = le_nat bs"
proof (induction bs)
  case Nil
  then show ?case by (simp add: flat_bits_def le_sum_def)
next
  case (Cons b bs)
  have "le_sum (flat_bits (b # bs)) = unat b + 2 ^ 8 * le_sum (flat_bits bs)"
    by (simp add: flat_bits_def le_sum_append le_sum_byte)
  with Cons show ?case by simp
qed

section \<open>Merkle trees\<close>

text \<open>
  The root of the perfect tree of depth \<open>k\<close> over \<open>2 ^ k\<close> leaves that are not hashed
  themselves.
\<close>

fun merkle_tree :: "(bytes \<Rightarrow> bytes) \<Rightarrow> nat \<Rightarrow> bytes list \<Rightarrow> bytes" where
  "merkle_tree h 0 leaves = hd leaves"
| "merkle_tree h (Suc k) leaves =
     h (merkle_tree h k (take (2 ^ k) leaves) @ merkle_tree h k (drop (2 ^ k) leaves))"

text \<open>Leaves from index \<open>n\<close> on count as empty.\<close>

definition enabled_leaves :: "nat \<Rightarrow> bytes list \<Rightarrow> bytes list" where
  "enabled_leaves n leaves = take n leaves @ replicate (length leaves - n) zero32"

lemma length_enabled_leaves [simp, byte_simps]:
  "n \<le> length leaves \<Longrightarrow> length (enabled_leaves n leaves) = length leaves"
  by (simp add: enabled_leaves_def)

lemma merkle_tree_append:
  "length xs = 2 ^ k \<Longrightarrow> length ys = 2 ^ k \<Longrightarrow>
   merkle_tree h (Suc k) (xs @ ys) = h (merkle_tree h k xs @ merkle_tree h k ys)"
  by simp

section \<open>The interface\<close>

locale plonky2x_gadgets =
  fixes B :: plonky2x
    and blake2b_256 :: "bytes \<Rightarrow> bytes"
    and ed25519_verify :: "bytes \<Rightarrow> bytes \<Rightarrow> eddsa_signature \<Rightarrow> bool"
  assumes field_order_large: "2 ^ 33 \<le> field_order B"
    and u32_add_exact: "unat x + unat y < 2 ^ 32 \<Longrightarrow> u32_add B x y = x + y"
    and u32_sub_exact: "y \<le> x \<Longrightarrow> u32_sub B x y = x - y"
    and u32_mul_exact: "unat x * unat y < 2 ^ 32 \<Longrightarrow> u32_mul B x y = x * y"
    and select_variable: "i < length vs \<Longrightarrow> select_variable B vs i = Some (vs ! i)"
    and select_byte: "i < length bs \<Longrightarrow> select_byte B bs i = Some (bs ! i)"
    and select_bytes32: "i < length hs \<Longrightarrow> select_bytes32 B hs i = Some (hs ! i)"
    and get_fixed_subarray:
      "get_fixed_subarray B n xs i seed =
         (if i + n \<le> length xs then Some (subarray i (i + n) xs) else None)"
    and u32_from_variables:
      "u32_from_variables B v = (if v < 2 ^ 32 then Some (of_nat v) else None)"
    and u32_decode: "length bs = 4 \<Longrightarrow> u32_decode B bs = of_nat (be_nat bs)"
    and u64_decode: "length bs = 8 \<Longrightarrow> u64_decode B bs = of_nat (be_nat bs)"
    and length_curta_sha256: "length (curta_sha256 B bs) = 32"
    and builder_sha256: "builder_sha256 B bs = curta_sha256 B bs"
    and length_blake2b: "length (blake2b_256 bs) = 32"
    and curta_blake2b_variable:
      "unat len \<le> length bs \<Longrightarrow>
         curta_blake2b_variable B bs len = blake2b_256 (take (unat len) bs)"
    and curta_eddsa:
      "curta_eddsa_verify_sigs_conditional B active lens msgs sigs pubkeys \<longleftrightarrow>
         (\<forall>i < length active. active ! i \<longrightarrow>
            ed25519_verify (pubkeys ! i) (take (unat (lens ! i)) (msgs ! i)) (sigs ! i))"
    and get_root_from_hashed_leaves:
      "length leaves = 2 ^ k \<Longrightarrow> n \<le> length leaves \<Longrightarrow>
         get_root_from_hashed_leaves B leaves n =
           merkle_tree (curta_sha256 B) k (enabled_leaves n leaves)"
begin

lemma f_add_exact: "a + b < 2 ^ 33 \<Longrightarrow> f_add B a b = a + b"
  using field_order_large by (simp add: f_add_def)

lemma length_builder_sha256 [byte_simps]: "length (builder_sha256 B bs) = 32"
  by (simp add: builder_sha256 length_curta_sha256)

lemma length_merkle_tree:
  "length leaves = 2 ^ k \<Longrightarrow> \<forall>l \<in> set leaves. length l = 32 \<Longrightarrow>
   length (merkle_tree (curta_sha256 B) k leaves) = 32"
  by (cases k; cases leaves) (auto simp: length_curta_sha256)

end

section \<open>An implementation of the interface\<close>

definition pad32 :: "bytes \<Rightarrow> bytes" where
  "pad32 bs = take 32 (bs @ zero32)"

lemma length_pad32 [simp]: "length (pad32 bs) = 32"
  by (simp add: pad32_def)

text \<open>
  The operations computed directly, for a SHA-256 function \<open>h\<close>, a BLAKE2b function \<open>b\<close> and
  a signature check \<open>v\<close>. The field is Goldilocks, the field of the default parameters.
\<close>

definition tree_depth :: "'a list \<Rightarrow> nat" where
  "tree_depth xs = length (takeWhile (\<lambda>k. 2 ^ k < length xs) [0..<length xs])"

lemma tree_depth_power: "length xs = 2 ^ k \<Longrightarrow> tree_depth xs = k"
proof -
  assume len: "length xs = 2 ^ k"
  have k: "k < length xs"
    by (simp add: len)
  have "[0..<length xs] = [0..<k] @ [k..<length xs]"
    using upt_add_eq_append [of 0 k "length xs - k"] k by simp
  moreover have "[k..<length xs] = k # [Suc k..<length xs]"
    by (simp add: k upt_rec)
  ultimately have "takeWhile (\<lambda>j. 2 ^ j < length xs) [0..<length xs] = [0..<k]"
    by (simp add: len takeWhile_append)
  then show ?thesis
    by (simp add: tree_depth_def)
qed

definition ref_gadgets ::
  "(bytes \<Rightarrow> bytes) \<Rightarrow> (bytes \<Rightarrow> bytes) \<Rightarrow> (bytes \<Rightarrow> bytes \<Rightarrow> eddsa_signature \<Rightarrow> bool) \<Rightarrow> plonky2x"
where
  "ref_gadgets h b v =
     \<lparr>field_order = 2 ^ 64 - 2 ^ 32 + 1,
      u32_add = (+),
      u32_sub = (-),
      u32_mul = (*),
      select_variable = (\<lambda>vs i. if i < length vs then Some (vs ! i) else None),
      select_byte = (\<lambda>bs i. if i < length bs then Some (bs ! i) else None),
      select_bytes32 = (\<lambda>hs i. if i < length hs then Some (hs ! i) else None),
      get_fixed_subarray =
        (\<lambda>n xs i seed. if i + n \<le> length xs then Some (subarray i (i + n) xs) else None),
      u32_from_variables = (\<lambda>x. if x < 2 ^ 32 then Some (of_nat x) else None),
      u32_decode = (\<lambda>bs. of_nat (be_nat bs)),
      u64_decode = (\<lambda>bs. of_nat (be_nat bs)),
      curta_sha256 = (\<lambda>bs. pad32 (h bs)),
      builder_sha256 = (\<lambda>bs. pad32 (h bs)),
      curta_blake2b_variable = (\<lambda>bs n. pad32 (b (take (unat n) bs))),
      curta_eddsa_verify_sigs_conditional =
        (\<lambda>active lens msgs sigs pubkeys.
           list_all (\<lambda>i. active ! i \<longrightarrow>
             v (pubkeys ! i) (take (unat (lens ! i)) (msgs ! i)) (sigs ! i)) [0..<length active]),
      get_root_from_hashed_leaves =
        (\<lambda>leaves n. merkle_tree (\<lambda>bs. pad32 (h bs)) (tree_depth leaves) (enabled_leaves n leaves))\<rparr>"

interpretation refg: plonky2x_gadgets "ref_gadgets h b v" "\<lambda>bs. pad32 (b bs)" v for h b v
  by unfold_locales (auto simp: ref_gadgets_def list_all_iff tree_depth_power)

text \<open>
  A concrete instance for examples: hashes are truncations, and a signature is valid when it
  names the key.
\<close>

definition demo_verify :: "bytes \<Rightarrow> bytes \<Rightarrow> eddsa_signature \<Rightarrow> bool" where
  "demo_verify pubkey msg s \<longleftrightarrow> sig_r s = pubkey"

definition demo_gadgets :: plonky2x where
  "demo_gadgets = ref_gadgets (\<lambda>bs. bs) (\<lambda>bs. bs) demo_verify"

lemma demo_gadgets: "plonky2x_gadgets demo_gadgets pad32 demo_verify"
  using refg.plonky2x_gadgets_axioms [of "\<lambda>bs. bs" "\<lambda>bs. bs" demo_verify]
  by (simp add: demo_gadgets_def)

end
