(* ===== verification/Vars.thy ===== *)
theory Vars
  imports Gadgets
begin

text \<open>
  The constants of \<open>circuits/consts.rs\<close> and the circuit structs of \<open>circuits/vars.rs\<close>. An
  array type of the sources fixes its length; the \<open>wf\<close> predicates state those lengths for
  the lists that stand for the arrays.
\<close>

section \<open>Constants\<close>

definition DATA_ROOT_OFFSET_FROM_END :: u32 where
  "DATA_ROOT_OFFSET_FROM_END = 32"

definition HEADERS_PER_MAP :: nat where
  "HEADERS_PER_MAP = 8"

definition MAX_HEADER_CHUNK_SIZE :: nat where
  "MAX_HEADER_CHUNK_SIZE = 280"

definition BLAKE2B_CHUNK_SIZE_BYTES :: nat where
  "BLAKE2B_CHUNK_SIZE_BYTES = 128"

definition MAX_HEADER_SIZE :: nat where
  "MAX_HEADER_SIZE = MAX_HEADER_CHUNK_SIZE * BLAKE2B_CHUNK_SIZE_BYTES"

definition HASH_SIZE :: nat where
  "HASH_SIZE = 32"

definition PUBKEY_LENGTH :: nat where
  "PUBKEY_LENGTH = 32"

definition WEIGHT_LENGTH :: nat where
  "WEIGHT_LENGTH = 8"

definition VALIDATOR_LENGTH :: nat where
  "VALIDATOR_LENGTH = PUBKEY_LENGTH + WEIGHT_LENGTH"

definition DELAY_LENGTH :: nat where
  "DELAY_LENGTH = 4"

definition CONSENSUS_ENGINE_ID_PREFIX_LENGTH :: nat where
  "CONSENSUS_ENGINE_ID_PREFIX_LENGTH = 6"

definition MAX_COMPACT_UINT_BYTES :: nat where
  "MAX_COMPACT_UINT_BYTES = 5"

definition MAX_PREFIX_LENGTH :: nat where
  "MAX_PREFIX_LENGTH =
     CONSENSUS_ENGINE_ID_PREFIX_LENGTH + MAX_COMPACT_UINT_BYTES + 1 + MAX_COMPACT_UINT_BYTES"

definition ENCODED_PRECOMMIT_LENGTH :: nat where
  "ENCODED_PRECOMMIT_LENGTH = 53"

definition MAX_AUTHORITY_SET_SIZE :: nat where
  "MAX_AUTHORITY_SET_SIZE = 300"

definition MAX_SUBARRAY_SIZE :: nat where
  "MAX_SUBARRAY_SIZE = MAX_AUTHORITY_SET_SIZE * VALIDATOR_LENGTH + DELAY_LENGTH"

lemma const_values:
  "VALIDATOR_LENGTH = 40" "MAX_PREFIX_LENGTH = 17" "MAX_HEADER_SIZE = 35840"
  "MAX_SUBARRAY_SIZE = 12004"
  by (simp_all add: VALIDATOR_LENGTH_def PUBKEY_LENGTH_def WEIGHT_LENGTH_def MAX_PREFIX_LENGTH_def
      CONSENSUS_ENGINE_ID_PREFIX_LENGTH_def MAX_COMPACT_UINT_BYTES_def MAX_HEADER_SIZE_def
      MAX_HEADER_CHUNK_SIZE_def BLAKE2B_CHUNK_SIZE_BYTES_def MAX_SUBARRAY_SIZE_def
      MAX_AUTHORITY_SET_SIZE_def DELAY_LENGTH_def)

lemmas const_simps =
  const_values DATA_ROOT_OFFSET_FROM_END_def HEADERS_PER_MAP_def HASH_SIZE_def PUBKEY_LENGTH_def
  WEIGHT_LENGTH_def DELAY_LENGTH_def CONSENSUS_ENGINE_ID_PREFIX_LENGTH_def
  MAX_COMPACT_UINT_BYTES_def ENCODED_PRECOMMIT_LENGTH_def

section \<open>Structs\<close>

record EncodedHeader =
  header_bytes :: bytes
  header_size :: u32

record HeaderVariable =
  hv_block_number :: u32
  hv_parent_hash :: bytes
  hv_state_root :: bytes
  hv_data_root :: bytes

record PrecommitVariable =
  pc_block_hash :: bytes
  pc_block_number :: u32
  pc_justification_round :: u64
  pc_authority_set_id :: u64

record JustificationStruct =
  js_encoded_precommit :: bytes
  js_validator_signed :: "bool list"
  js_signatures :: "eddsa_signature list"
  js_pubkeys :: "bytes list"
  js_num_authorities :: u32

record RotateStruct =
  epoch_end_block_number :: u32
  target_header :: EncodedHeader
  target_header_num_authorities :: variable
  next_authority_set_start_position :: variable
  new_pubkeys :: "bytes list"

record SubchainVerificationStruct =
  target_header_hash :: bytes
  state_root_merkle_root :: bytes
  data_root_merkle_root :: bytes

section \<open>Lengths the types fix\<close>

definition wf_header :: "nat \<Rightarrow> EncodedHeader \<Rightarrow> bool" where
  "wf_header S h \<longleftrightarrow> length (header_bytes h) = S"

definition wf_pubkeys :: "nat \<Rightarrow> bytes list \<Rightarrow> bool" where
  "wf_pubkeys N ks \<longleftrightarrow> length ks = N \<and> list_all (\<lambda>k. length k = 32) ks"

definition wf_justification :: "nat \<Rightarrow> JustificationStruct \<Rightarrow> bool" where
  "wf_justification N j \<longleftrightarrow>
     length (js_encoded_precommit j) = ENCODED_PRECOMMIT_LENGTH \<and>
     length (js_validator_signed j) = N \<and>
     length (js_signatures j) = N \<and>
     wf_pubkeys N (js_pubkeys j)"

lemma wf_pubkeys_nth: "wf_pubkeys N ks \<Longrightarrow> i < N \<Longrightarrow> length (ks ! i) = 32"
  by (simp add: wf_pubkeys_def list_all_length)

end
