(* ===== verification/Decoder.thy ===== *)
theory Decoder
  imports Vars
begin

text \<open>
  \<open>circuits/builder/decoder.rs\<close> and \<open>circuits/builder/header.rs\<close>: SCALE compact integers, the
  fields of an Avail header, the GRANDPA precommit message, the header hash. The lemmas show
  that each decoder inverts the documented encoding (\<open>scale_compact\<close>, \<open>encode_precommit\<close>,
  the header layout), and what a decoder that accepts has established about its input.
\<close>

section \<open>Gadgets\<close>

definition decode_compact_int :: "plonky2x \<Rightarrow> bytes \<Rightarrow> (u32 \<times> variable) option" where
  "decode_compact_int B compact_bytes = do {
     let bool_targets = concat (map (\<lambda>x. rev (as_bool_targets x)) compact_bytes);
     let compress_mode = le_sum (subarray 0 2 bool_targets);
     let zero_mode_value = le_sum (subarray 2 8 bool_targets);
     let one_mode_value = le_sum (subarray 2 16 bool_targets);
     let two_mode_value = le_sum (subarray 2 32 bool_targets);
     let three_mode_value = le_sum (subarray 8 40 bool_targets);
     value \<leftarrow> select_variable B
       [zero_mode_value, one_mode_value, two_mode_value, three_mode_value] compress_mode;
     let value = (of_nat value :: u32);
     let is_mode_three = (compress_mode = 3);
     let encoded_byte_length = le_sum (subarray 2 8 bool_targets);
     let is_encoded_length_zero = (encoded_byte_length = 0);
     let is_valid_encoded_length_check = (is_mode_three \<and> is_encoded_length_zero);
     _ \<leftarrow> assert_is_equal is_mode_three is_valid_encoded_length_check;
     Some (value, compress_mode)
   }"

definition get_compact_int_byte_length :: "plonky2x \<Rightarrow> variable \<Rightarrow> variable option" where
  "get_compact_int_byte_length B compress_mode = select_variable B [1, 2, 4, 5] compress_mode"

definition decode_header :: "plonky2x \<Rightarrow> EncodedHeader \<Rightarrow> bytes \<Rightarrow> HeaderVariable option" where
  "decode_header B header header_hash = do {
     let parent_hash = subarray 0 HASH_SIZE (header_bytes header);
     let block_number_bytes =
       subarray HASH_SIZE (HASH_SIZE + MAX_COMPACT_UINT_BYTES) (header_bytes header);
     (block_number, compress_mode) \<leftarrow> decode_compact_int B block_number_bytes;
     let all_possible_state_roots =
       [subarray 33 (33 + HASH_SIZE) (header_bytes header),
        subarray 34 (34 + HASH_SIZE) (header_bytes header),
        subarray 36 (36 + HASH_SIZE) (header_bytes header),
        subarray 37 (37 + HASH_SIZE) (header_bytes header)];
     state_root \<leftarrow> select_bytes32 B all_possible_state_roots compress_mode;
     let data_root_start = u32_sub B (header_size header) DATA_ROOT_OFFSET_FROM_END;
     let header_is_zero_size = (header_size header = 0);
     let data_root_start = (if header_is_zero_size then 0 else data_root_start);
     data_root \<leftarrow> get_fixed_subarray B HASH_SIZE (header_bytes header) (unat data_root_start)
       header_hash;
     Some \<lparr>hv_block_number = block_number, hv_parent_hash = parent_hash,
           hv_state_root = state_root, hv_data_root = data_root\<rparr>
   }"

definition decode_precommit :: "plonky2x \<Rightarrow> bytes \<Rightarrow> PrecommitVariable option" where
  "decode_precommit B precommit = do {
     let precommit_first_byte = unat (precommit ! 0);
     _ \<leftarrow> assert_is_equal precommit_first_byte 1;
     let block_hash = subarray 1 33 precommit;
     let block_number_bytes = rev (subarray 33 37 precommit);
     let justification_round_bytes = rev (subarray 37 45 precommit);
     let authority_set_id_bytes = rev (subarray 45 53 precommit);
     let block_number = u32_decode B block_number_bytes;
     let justification_round = u64_decode B justification_round_bytes;
     let authority_set_id = u64_decode B authority_set_id_bytes;
     Some \<lparr>pc_block_hash = block_hash, pc_block_number = block_number,
           pc_justification_round = justification_round, pc_authority_set_id = authority_set_id\<rparr>
   }"

definition hash_encoded_header :: "plonky2x \<Rightarrow> EncodedHeader \<Rightarrow> bytes" where
  "hash_encoded_header B header =
     curta_blake2b_variable B (header_bytes header) (header_size header)"

section \<open>The encodings\<close>

text \<open>SCALE's compact encoding of a \<open>u32\<close>, and the mode it uses.\<close>

definition compact_mode :: "u32 \<Rightarrow> nat" where
  "compact_mode n =
     (if unat n < 2 ^ 6 then 0 else if unat n < 2 ^ 14 then 1
      else if unat n < 2 ^ 30 then 2 else 3)"

definition scale_compact :: "u32 \<Rightarrow> bytes" where
  "scale_compact n =
     (if unat n < 2 ^ 6 then le_bytes 1 (4 * unat n)
      else if unat n < 2 ^ 14 then le_bytes 2 (4 * unat n + 1)
      else if unat n < 2 ^ 30 then le_bytes 4 (4 * unat n + 2)
      else 3 # le_bytes 4 (unat n))"

definition compact_length :: "u32 \<Rightarrow> nat" where
  "compact_length n = [1, 2, 4, 5] ! compact_mode n"

text \<open>The message a GRANDPA authority signs: \<open>(PrecommitMessage, round, set id)\<close>.\<close>

definition encode_precommit :: "bytes \<Rightarrow> u32 \<Rightarrow> u64 \<Rightarrow> u64 \<Rightarrow> bytes" where
  "encode_precommit block_hash block_number round set_id =
     1 # block_hash @ le_bytes 4 (unat block_number) @ le_bytes 8 (unat round)
       @ le_bytes 8 (unat set_id)"

lemma compact_mode_less: "compact_mode n < 4"
  by (simp add: compact_mode_def)

lemma length_scale_compact: "length (scale_compact n) = compact_length n"
  by (simp add: scale_compact_def compact_length_def compact_mode_def)

lemma compact_length_bounds: "1 \<le> compact_length n" "compact_length n \<le> 5"
  by (simp_all add: compact_length_def compact_mode_def)

section \<open>Values the compact decoder reads\<close>

text \<open>
  For an accepted input the value is a function of the first bytes: a quotient of their
  little-endian value.
\<close>

definition compact_value :: "bytes \<Rightarrow> nat" where
  "compact_value bs =
     (let m = le_nat bs mod 4 in
      if m = 0 then le_nat bs div 4 mod 2 ^ 6
      else if m = 1 then le_nat bs div 4 mod 2 ^ 14
      else if m = 2 then le_nat bs div 4 mod 2 ^ 30
      else le_nat bs div 256 mod 2 ^ 32)"

text \<open>What the decoder reads from an encoding, whatever bytes \<open>r\<close> follow it.\<close>

lemma le_nat_scale_compact:
  "compact_mode n < 3 \<Longrightarrow>
     le_nat (scale_compact n @ r) = 4 * (unat n + [2 ^ 6, 2 ^ 14, 2 ^ 30] ! compact_mode n * le_nat r) + compact_mode n"
  "compact_mode n = 3 \<Longrightarrow> le_nat (scale_compact n @ r) = 256 * (unat n + 2 ^ 32 * le_nat r) + 3"
  "compact_mode n = 3 \<Longrightarrow> le_nat (scale_compact n @ r) = 4 * (64 * (unat n + 2 ^ 32 * le_nat r)) + 3"
  using unat_u32_less [of n]
  by (auto simp: compact_mode_def scale_compact_def le_nat_append le_nat_le_bytes simp del: le_bytes.simps
      split: if_splits)

lemma scale_compact_value:
  shows "le_nat (scale_compact n @ r) mod 4 = compact_mode n"
    and "compact_mode n = 3 \<Longrightarrow> le_nat (scale_compact n @ r) div 4 mod 64 = 0"
    and "compact_value (scale_compact n @ r) = unat n"
proof -
  have "compact_mode n = 0 \<and> unat n < 2 ^ 6 \<or> compact_mode n = 1 \<and> unat n < 2 ^ 14 \<or>
      compact_mode n = 2 \<and> unat n < 2 ^ 30 \<or> compact_mode n = 3 \<and> unat n < 2 ^ 32"
    using unat_u32_less [of n] by (simp add: compact_mode_def)
  then have all: "le_nat (scale_compact n @ r) mod 4 = compact_mode n \<and>
      (compact_mode n = 3 \<longrightarrow> le_nat (scale_compact n @ r) div 4 mod 64 = 0) \<and>
      compact_value (scale_compact n @ r) = unat n"
    using quot_rem [OF le_nat_scale_compact(1) [of n r]] quot_rem [OF le_nat_scale_compact(2) [of n r]]
      quot_rem [of _ 4 "64 * (unat n + 2 ^ 32 * le_nat r)" 3, OF le_nat_scale_compact(3) [of n r]]
    by (elim disjE conjE) (simp_all add: compact_value_def Let_def)
  then show "le_nat (scale_compact n @ r) mod 4 = compact_mode n"
    and "compact_mode n = 3 \<Longrightarrow> le_nat (scale_compact n @ r) div 4 mod 64 = 0"
    and "compact_value (scale_compact n @ r) = unat n"
    by simp_all
qed

context plonky2x_gadgets
begin

lemma decode_compact_int_eq:
  assumes "length bs = 5"
  shows "decode_compact_int B bs =
    (if le_nat bs mod 4 = 3 \<and> le_nat bs div 4 mod 2 ^ 6 \<noteq> 0 then None
     else Some (of_nat (compact_value bs), le_nat bs mod 4))"
proof -
  let ?m = "le_nat bs mod 4"
  have slices: "le_sum (subarray a b (flat_bits bs)) = le_nat bs div 2 ^ a mod 2 ^ (b - a)" for a b
    by (simp add: le_sum_subarray le_sum_flat_bits)
  have "?m < 4" by simp
  then have "?m = 0 \<or> ?m = 1 \<or> ?m = 2 \<or> ?m = 3" by linarith
  then show ?thesis
    unfolding decode_compact_int_def flat_bits_def [symmetric] slices Let_def
    by (elim disjE) (simp_all add: select_variable compact_value_def Let_def)
qed

lemma get_compact_int_byte_length_eq:
  "m < 4 \<Longrightarrow> get_compact_int_byte_length B m = Some ([1, 2, 4, 5] ! m)"
  by (simp add: get_compact_int_byte_length_def select_variable)

text \<open>The decoder inverts SCALE's encoding, whatever bytes follow it.\<close>

lemma decode_scale_compact:
  assumes "5 \<le> compact_length n + length rest"
  shows "decode_compact_int B (take 5 (scale_compact n @ rest)) = Some (n, compact_mode n)"
proof -
  define r where "r = take (5 - compact_length n) rest"
  have bs: "take 5 (scale_compact n @ rest) = scale_compact n @ r"
    using compact_length_bounds [of n] by (simp add: r_def length_scale_compact)
  have "length (scale_compact n @ r) = 5"
    using assms compact_length_bounds [of n] by (simp add: r_def length_scale_compact)
  then show ?thesis
    unfolding bs by (simp add: decode_compact_int_eq scale_compact_value)
qed

text \<open>An accepted precommit is exactly the encoding of the fields that were read.\<close>

lemma u32_of_le: "length bs = 4 \<Longrightarrow> le_bytes 4 (unat (u32_decode B (rev bs))) = bs"
proof -
  assume "length bs = 4"
  moreover from this have "le_nat bs < 2 ^ 32"
    using le_nat_bound [of bs] by simp
  ultimately show ?thesis
    using le_bytes_le_nat [of bs] by (simp add: u32_decode be_nat_def unat_of_nat)
qed

lemma u64_of_le: "length bs = 8 \<Longrightarrow> le_bytes 8 (unat (u64_decode B (rev bs))) = bs"
proof -
  assume "length bs = 8"
  moreover from this have "le_nat bs < 2 ^ 64"
    using le_nat_bound [of bs] by simp
  ultimately show ?thesis
    using le_bytes_le_nat [of bs] by (simp add: u64_decode be_nat_def unat_of_nat)
qed

lemma u32_le_decode: "u32_decode B (rev (le_bytes 4 (unat x))) = x"
  using unat_u32_less [of x]
  by (simp add: u32_decode be_nat_def le_nat_le_bytes del: le_bytes.simps)

lemma u64_le_decode: "u64_decode B (rev (le_bytes 8 (unat x))) = x"
  using unat_u64_less [of x]
  by (simp add: u64_decode be_nat_def le_nat_le_bytes del: le_bytes.simps)

lemma decode_encode_precommit:
  assumes "length block_hash = 32"
  shows "decode_precommit B (encode_precommit block_hash block_number round set_id) =
    Some \<lparr>pc_block_hash = block_hash, pc_block_number = block_number,
          pc_justification_round = round, pc_authority_set_id = set_id\<rparr>"
  using assms u32_le_decode [of block_number] u64_le_decode [of round] u64_le_decode [of set_id]
  by (simp add: decode_precommit_def encode_precommit_def subarray_def take_Cons' drop_Cons'
      del: le_bytes.simps)

lemma encode_decode_precommit:
  assumes len: "length bs = ENCODED_PRECOMMIT_LENGTH" and acc: "decode_precommit B bs = Some p"
  shows "bs = encode_precommit (pc_block_hash p) (pc_block_number p)
                (pc_justification_round p) (pc_authority_set_id p) \<and>
         length (pc_block_hash p) = 32"
proof -
  have n: "length bs = 53"
    using len by (simp add: ENCODED_PRECOMMIT_LENGTH_def)
  then obtain b rest where bs: "bs = b # rest" and r: "length rest = 52"
    by (cases bs) auto
  from acc have b: "b = 1"
    by (simp add: decode_precommit_def bs unat_eq_one_iff bind_eq_Some_conv)
  have split4: "rest = subarray 0 32 rest @ subarray 32 36 rest @ subarray 36 44 rest @ subarray 44 52 rest"
    using r by (simp add: subarray_join)
  have p: "p = \<lparr>pc_block_hash = subarray 0 32 rest, pc_block_number = u32_decode B (rev (subarray 32 36 rest)),
      pc_justification_round = u64_decode B (rev (subarray 36 44 rest)),
      pc_authority_set_id = u64_decode B (rev (subarray 44 52 rest))\<rparr>"
    using acc by (simp add: decode_precommit_def bs b subarray_Cons)
  show ?thesis
    using r split4 by (simp add: bs b p encode_precommit_def u32_of_le u64_of_le
        length_subarray_within del: le_bytes.simps)
qed

text \<open>
  The header decoder returns the fields of an encoded header: 32 bytes of parent hash, the
  compact block number, 32 bytes of state root, further fields, and 32 bytes of data root at
  the end; the array is longer than the header.
\<close>

lemma compact_offset: "[33, 34, 36, 37] ! compact_mode n = 32 + compact_length n"
  by (simp add: compact_length_def compact_mode_def)

lemma decode_header_layout:
  assumes hb: "header_bytes h = parent @ scale_compact n @ state @ mid @ data @ padding"
    and len: "length parent = 32" "length state = 32" "length data = 32"
    and size: "unat (header_size h) = 32 + compact_length n + 32 + length mid + 32"
  shows "decode_header B h hash = Some \<lparr>hv_block_number = n, hv_parent_hash = parent,
    hv_state_root = state, hv_data_root = data\<rparr>"
proof -
  let ?hb = "header_bytes h"
  have pre: "subarray 0 HASH_SIZE ?hb = parent"
    using len by (simp add: hb subarray_def HASH_SIZE_def)
  have num: "decode_compact_int B (subarray HASH_SIZE (HASH_SIZE + MAX_COMPACT_UINT_BYTES) ?hb) =
      Some (n, compact_mode n)"
    using decode_scale_compact [of n "state @ mid @ data @ padding"] len
    by (simp add: hb subarray_def HASH_SIZE_def MAX_COMPACT_UINT_BYTES_def)
  have state: "subarray (32 + compact_length n) (32 + compact_length n + HASH_SIZE) ?hb = state"
    using len by (simp add: HASH_SIZE_def hb subarray_def length_scale_compact)
  have roots: "map (\<lambda>k. subarray k (k + HASH_SIZE) ?hb) [33, 34, 36, 37] ! compact_mode n = state"
  proof -
    have "compact_mode n < length [33, 34, 36, 37 :: nat]"
      using compact_mode_less [of n] by simp
    then show ?thesis
      by (simp only: nth_map compact_offset state)
  qed
  have start: "unat (u32_sub B (header_size h) DATA_ROOT_OFFSET_FROM_END) =
      32 + compact_length n + 32 + length mid"
  proof -
    have "(32 :: u32) \<le> header_size h"
      using size by (simp add: word_le_nat_alt)
    then show ?thesis
      using size by (simp add: u32_sub_exact DATA_ROOT_OFFSET_FROM_END_def unat_sub)
  qed
  have nz: "header_size h \<noteq> 0"
    using size by auto
  have dat: "get_fixed_subarray B HASH_SIZE ?hb (32 + compact_length n + 32 + length mid) hash =
      Some data"
    using len by (simp add: get_fixed_subarray HASH_SIZE_def hb subarray_def length_scale_compact)
  show ?thesis
    using select_bytes32 [of "compact_mode n" "map (\<lambda>k. subarray k (k + HASH_SIZE) ?hb) [33, 34, 36, 37]"]
      compact_mode_less [of n] roots start dat
    by (simp add: decode_header_def Let_def pre num nz)
qed

text \<open>The hash of a padded header is the BLAKE2b hash of its encoding.\<close>

lemma hash_encoded_header_padded:
  "header_bytes h = enc @ padding \<Longrightarrow> unat (header_size h) = length enc \<Longrightarrow>
   hash_encoded_header B h = blake2b_256 enc"
  by (simp add: hash_encoded_header_def curta_blake2b_variable)

end

section \<open>Properties\<close>

text \<open>
  C33: the compact integer decoder inverts SCALE's compact encoding of every \<open>u32\<close>, whatever
  bytes follow it, and reports the mode from which the byte length of the encoding is read
  off.
\<close>

theorem compact_int_roundtrip:
  assumes "plonky2x_gadgets B blake2b_256 ed25519_verify"
    and "5 \<le> length (scale_compact n) + length rest"
  shows "decode_compact_int B (take 5 (scale_compact n @ rest)) = Some (n, compact_mode n) \<and>
    get_compact_int_byte_length B (compact_mode n) = Some (length (scale_compact n))"
  using plonky2x_gadgets.decode_scale_compact [OF assms(1)] assms(2)
    plonky2x_gadgets.get_compact_int_byte_length_eq [OF assms(1) compact_mode_less [of n]]
  by (simp add: length_scale_compact compact_length_def)

theorem compact_int_roundtrip_witness:
  "decode_compact_int demo_gadgets (take 5 (scale_compact 16384 @ [255, 255])) = Some (16384, 2) \<and>
   get_compact_int_byte_length demo_gadgets 2 = Some 4"
  using compact_int_roundtrip [OF demo_gadgets, of 16384 "[255, 255]"]
  by (simp add: length_scale_compact compact_length_def compact_mode_def)

text \<open>
  C34: what the compact decoder returns on every five bytes. The two low bits of the first byte are
  the mode, which is returned with the number. In the modes 0, 1 and 2 the number is the first one,
  two or four bytes, little endian, without these two bits. In mode 3 it is the four bytes behind the
  first one, and the decoder fails if the first byte declares more than four of them.
\<close>

theorem compact_int_domain:
  assumes "plonky2x_gadgets B blake2b_256 ed25519_verify"
  shows "map_option (\<lambda>(v, m). (unat v, m)) (decode_compact_int B [b0, b1, b2, b3, b4]) =
    (if unat b0 mod 4 = 0 then Some (unat b0 div 4, 0)
     else if unat b0 mod 4 = 1 then Some ((unat b0 + 256 * unat b1) div 4, 1)
     else if unat b0 mod 4 = 2
     then Some ((unat b0 + 256 * unat b1 + 65536 * unat b2 + 16777216 * unat b3) div 4, 2)
     else if unat b0 = 3
     then Some (unat b1 + 256 * unat b2 + 65536 * unat b3 + 16777216 * unat b4, 3)
     else None)"
proof -
  let ?x = "le_nat [b0, b1, b2, b3, b4]"
  note small = unat_byte_less [of b0] unat_byte_less [of b1] unat_byte_less [of b2]
    unat_byte_less [of b3] unat_byte_less [of b4]
  have x: "?x = unat b0 + 256 * unat b1 + 65536 * unat b2 + 16777216 * unat b3 + 4294967296 * unat b4"
    by (simp add: le_nat_def)
  have low: "(a + 4 * k * r) div 4 mod k = a div 4" if "a < 4 * k" for a k r :: nat
  proof -
    have "(a + 4 * (k * r)) div 4 = a div 4 + k * r"
      by (simp only: div_mult_self2)
    then show ?thesis
      using that by (simp add: mult.assoc)
  qed
  have "?x mod 4 = (unat b0 + 4 * (64 * unat b1 + 16384 * unat b2 + 4194304 * unat b3 + 1073741824 * unat b4)) mod 4"
    unfolding x by (simp add: distrib_left add.assoc)
  then have mode: "?x mod 4 = unat b0 mod 4"
    by (simp only: mod_mult_self2)
  have zero: "?x div 4 mod 64 = unat b0 div 4"
    using low [of "unat b0" 64 "unat b1 + 256 * unat b2 + 65536 * unat b3 + 16777216 * unat b4"] small
    by (simp add: x add.assoc)
  have one: "?x div 4 mod 16384 = (unat b0 + 256 * unat b1) div 4"
    using low [of "unat b0 + 256 * unat b1" 16384 "unat b2 + 256 * unat b3 + 65536 * unat b4"] small
    by (simp add: x add.assoc)
  have two: "?x div 4 mod 1073741824 =
      (unat b0 + 256 * unat b1 + 65536 * unat b2 + 16777216 * unat b3) div 4"
    using low [of "unat b0 + 256 * unat b1 + 65536 * unat b2 + 16777216 * unat b3" 1073741824 "unat b4"] small
    by (simp add: x add.assoc)
  have three: "?x div 256 mod 4294967296 = unat b1 + 256 * unat b2 + 65536 * unat b3 + 16777216 * unat b4"
  proof -
    have "?x = unat b0 + 256 * (unat b1 + 256 * unat b2 + 65536 * unat b3 + 16777216 * unat b4)"
      by (simp add: x distrib_left add.assoc)
    then have "?x div 256 = unat b1 + 256 * unat b2 + 65536 * unat b3 + 16777216 * unat b4"
      using small(1) by simp
    then show ?thesis
      using small by simp
  qed
  have of_nat_small: "unat (of_nat n :: u32) = n" if "n < 4294967296" for n
    using that by (simp add: unat_of_nat)
  have b0: "unat b0 div 4 = 0 \<longleftrightarrow> unat b0 = 3" if "unat b0 mod 4 = 3"
    using that mult_div_mod_eq [of 4 "unat b0"] by linarith
  have "compact_value [b0, b1, b2, b3, b4] =
     (if unat b0 mod 4 = 0 then unat b0 div 4
      else if unat b0 mod 4 = 1 then (unat b0 + 256 * unat b1) div 4
      else if unat b0 mod 4 = 2
      then (unat b0 + 256 * unat b1 + 65536 * unat b2 + 16777216 * unat b3) div 4
      else unat b1 + 256 * unat b2 + 65536 * unat b3 + 16777216 * unat b4)" (is "_ = ?v")
    unfolding compact_value_def Let_def mode using zero one two three by simp
  moreover have "?v < 4294967296"
    using small by (simp only: split: if_split) linarith
  moreover have "map_option (\<lambda>(v, m). (unat v, m)) (decode_compact_int B [b0, b1, b2, b3, b4]) =
      (if unat b0 mod 4 = 3 \<and> unat b0 div 4 \<noteq> 0 then None
       else Some (unat (of_nat (compact_value [b0, b1, b2, b3, b4]) :: u32), unat b0 mod 4))"
    using plonky2x_gadgets.decode_compact_int_eq [OF assms, of "[b0, b1, b2, b3, b4]"]
    unfolding mode using zero by simp
  ultimately have eq: "map_option (\<lambda>(v, m). (unat v, m)) (decode_compact_int B [b0, b1, b2, b3, b4]) =
      (if unat b0 mod 4 = 3 \<and> unat b0 div 4 \<noteq> 0 then None else Some (?v, unat b0 mod 4))"
    by (simp only: of_nat_small)
  have "unat b0 mod 4 = 0 \<or> unat b0 mod 4 = 1 \<or> unat b0 mod 4 = 2 \<or> unat b0 mod 4 = 3"
    by linarith
  then show ?thesis
    unfolding eq using b0 by (elim disjE) simp_all
qed

theorem compact_int_domain_witness:
  "decode_compact_int demo_gadgets [7, 0, 0, 0, 0] = None \<and>
   decode_compact_int demo_gadgets [21, 1, 9, 9, 9] = Some (69, 1)"
proof -
  have "map_option (\<lambda>(v, m). (unat v, m)) (decode_compact_int demo_gadgets [7, 0, 0, 0, 0]) = None"
    and "map_option (\<lambda>(v, m). (unat v, m)) (decode_compact_int demo_gadgets [21, 1, 9, 9, 9]) = Some (69, 1)"
    by (simp_all add: compact_int_domain [OF demo_gadgets])
  then show ?thesis
    by (auto simp: word_unat_eq_iff)
qed

text \<open>
  C32: the precommit decoder accepts exactly the encodings of a precommit message, and returns
  the block hash, block number, round and authority set id that were encoded.
\<close>

theorem precommit_decoder_exact:
  assumes "plonky2x_gadgets B blake2b_256 ed25519_verify"
    and "length bs = ENCODED_PRECOMMIT_LENGTH" and "length block_hash = 32"
  shows "decode_precommit B bs =
      Some \<lparr>pc_block_hash = block_hash, pc_block_number = block_number,
            pc_justification_round = round, pc_authority_set_id = set_id\<rparr> \<longleftrightarrow>
    bs = encode_precommit block_hash block_number round set_id"
  using plonky2x_gadgets.decode_encode_precommit [OF assms(1,3)]
    plonky2x_gadgets.encode_decode_precommit [OF assms(1,2)]
  by fastforce

theorem precommit_decoder_exact_witness:
  "decode_precommit demo_gadgets (encode_precommit zero32 317857 14923 298) =
     Some \<lparr>pc_block_hash = zero32, pc_block_number = 317857,
           pc_justification_round = 14923, pc_authority_set_id = 298\<rparr>"
  by (subst precommit_decoder_exact [OF demo_gadgets])
    (simp_all add: encode_precommit_def ENCODED_PRECOMMIT_LENGTH_def)

text \<open>
  C35: on the padded encoding of a header the header decoder returns the header's block number,
  parent hash, state root and data root, and the header hash is the BLAKE2b hash of the
  encoding without the padding.
\<close>

theorem header_decoder_fields:
  assumes "plonky2x_gadgets B blake2b_256 ed25519_verify"
    and "enc = parent @ scale_compact n @ state @ mid @ data"
    and "length parent = 32" "length state = 32" "length data = 32"
    and "header_bytes h = enc @ padding" and "unat (header_size h) = length enc"
  shows "decode_header B h (hash_encoded_header B h) =
      Some \<lparr>hv_block_number = n, hv_parent_hash = parent, hv_state_root = state,
            hv_data_root = data\<rparr> \<and>
    hash_encoded_header B h = blake2b_256 enc"
  using plonky2x_gadgets.decode_header_layout [OF assms(1), of h parent n state mid data padding]
    plonky2x_gadgets.hash_encoded_header_padded [OF assms(1,6,7)] assms
  by (simp add: length_scale_compact)

theorem header_decoder_fields_witness:
  "decode_header demo_gadgets
     \<lparr>header_bytes = (zero32 @ scale_compact 64 @ replicate 32 1 @ [9] @ replicate 32 2) @ [0, 0],
      header_size = 99\<rparr>
     (hash_encoded_header demo_gadgets
       \<lparr>header_bytes = (zero32 @ scale_compact 64 @ replicate 32 1 @ [9] @ replicate 32 2) @ [0, 0],
        header_size = 99\<rparr>) =
     Some \<lparr>hv_block_number = 64, hv_parent_hash = zero32, hv_state_root = replicate 32 1,
           hv_data_root = replicate 32 2\<rparr>"
  by (rule header_decoder_fields [OF demo_gadgets refl, where mid = "[9]" and padding = "[0, 0]",
        THEN conjunct1])
    (simp_all add: length_scale_compact compact_length_def compact_mode_def)

end
