(* ===== verification/Subchain.thy ===== *)
theory Subchain
  imports Decoder
begin

text \<open>
  \<open>circuits/builder/subchain_verification.rs\<close>: a chain of headers is checked by a map stage on
  batches of eight headers and a reduce stage that joins neighbouring subchains. The headers
  come from a hint, so they are an argument of the map stage. The recursion over the batches is
  plonky2x's \<open>mapreduce\<close>, an argument of \<open>verify_subchain\<close> with its contract as a locale.
  The lemmas show that an accepted run has seen exactly the headers of the blocks after the
  trusted one up to the target, linked by parent hashes and consecutive numbers, and that the
  two roots are the roots of the padded trees over their state and data roots; conversely every
  such chain is accepted.
\<close>

section \<open>Structs\<close>

record SubchainVerificationCtx =
  global_start_block :: u32
  global_end_block :: u32

record MapReduceSubchain =
  num_blocks :: variable
  start_block :: u32
  start_header_hash :: bytes
  start_parent :: bytes
  end_block :: u32
  end_header_hash :: bytes
  state_merkle_root :: bytes
  data_merkle_root :: bytes

text \<open>The mutable variables of the loop over the headers of a batch.\<close>

record MapLoop =
  block_nums :: "u32 list"
  block_hashes :: "bytes list"
  block_parent_hashes :: "bytes list"
  block_state_roots :: "bytes list"
  block_data_roots :: "bytes list"
  loop_end_block_num :: u32
  loop_end_header_hash :: bytes
  num_headers :: variable
  curr_block_noop :: bool
  nb_enabled_leaves :: variable

section \<open>The map stage\<close>

definition map_header ::
  "plonky2x \<Rightarrow> SubchainVerificationCtx \<Rightarrow> EncodedHeader list \<Rightarrow> nat \<Rightarrow> MapLoop \<Rightarrow> MapLoop option"
where
  "map_header B map_ctx headers i st = do {
     let hash = hash_encoded_header B (headers ! i);
     let hashes = block_hashes st @ [hash];
     header_variable \<leftarrow> decode_header B (headers ! i) hash;
     let nums = block_nums st @ [hv_block_number header_variable];
     let parents = block_parent_hashes st @ [hv_parent_hash header_variable];
     let state_roots = block_state_roots st @ [hv_state_root header_variable];
     let data_roots = block_data_roots st @ [hv_data_root header_variable];
     let noop = curr_block_noop st;
     _ \<leftarrow> (if 0 < i then do {
         let hashes_linked = (parents ! i = hashes ! (i - 1));
         let expected_block_num = u32_add B (nums ! (i - 1)) 1;
         let nums_sequential = (nums ! i = expected_block_num);
         let header_correctly_linked = (hashes_linked \<and> nums_sequential);
         let link_check = (noop \<or> header_correctly_linked);
         assert_is_equal link_check True
       } else Some ());
     let end_num = (if noop then loop_end_block_num st else hv_block_number header_variable);
     let end_hash = (if noop then loop_end_header_hash st else hash);
     let num_headers_increment = (if noop then 0 else 1);
     let num = f_add B (num_headers st) num_headers_increment;
     let val = (if noop then 0 else 1);
     let enabled = f_add B (nb_enabled_leaves st) val;
     let is_final_block = (hv_block_number header_variable = global_end_block map_ctx);
     Some \<lparr>block_nums = nums, block_hashes = hashes, block_parent_hashes = parents,
           block_state_roots = state_roots, block_data_roots = data_roots,
           loop_end_block_num = end_num, loop_end_header_hash = end_hash,
           num_headers = num, curr_block_noop = (noop \<or> is_final_block),
           nb_enabled_leaves = enabled\<rparr>
   }"

definition map_stage ::
  "plonky2x \<Rightarrow> SubchainVerificationCtx \<Rightarrow> u32 list \<Rightarrow> EncodedHeader list \<Rightarrow> MapReduceSubchain option"
where
  "map_stage B map_ctx map_relative_block_nums headers = do {
     let batch_start_block = u32_add B (global_start_block map_ctx) (map_relative_block_nums ! 0);
     let batch_end_block = u32_add B (global_start_block map_ctx)
       (map_relative_block_nums ! (HEADERS_PER_MAP - 1));
     let is_batch_disabled = (global_end_block map_ctx < batch_start_block);
     st \<leftarrow> fold_option (map_header B map_ctx headers) [0..<HEADERS_PER_MAP]
       \<lparr>block_nums = [], block_hashes = [], block_parent_hashes = [], block_state_roots = [],
        block_data_roots = [], loop_end_block_num = 0, loop_end_header_hash = zero32,
        num_headers = 0, curr_block_noop = is_batch_disabled, nb_enabled_leaves = 0\<rparr>;
     let first_block_nb_check = (block_nums st ! 0 = batch_start_block);
     let first_block_nb_check = (first_block_nb_check \<or> is_batch_disabled);
     _ \<leftarrow> assert_is_equal first_block_nb_check True;
     let last_block_nb_check = (loop_end_block_num st = batch_end_block);
     let last_block_nb_check = (last_block_nb_check \<or> curr_block_noop st);
     _ \<leftarrow> assert_is_equal last_block_nb_check True;
     let state_root = get_root_from_hashed_leaves B (block_state_roots st) (nb_enabled_leaves st);
     let data_root = get_root_from_hashed_leaves B (block_data_roots st) (nb_enabled_leaves st);
     Some \<lparr>num_blocks = num_headers st, start_block = block_nums st ! 0,
           start_header_hash = block_hashes st ! 0, start_parent = block_parent_hashes st ! 0,
           end_block = loop_end_block_num st, end_header_hash = loop_end_header_hash st,
           state_merkle_root = state_root, data_merkle_root = data_root\<rparr>
   }"

section \<open>The reduce stage\<close>

definition reduce_stage ::
  "plonky2x \<Rightarrow> MapReduceSubchain \<Rightarrow> MapReduceSubchain \<Rightarrow> MapReduceSubchain option"
where
  "reduce_stage B left right = do {
     let are_subchains_linked = (end_header_hash left = start_parent right);
     let expected_left_end_block_number = u32_sub B (start_block right) 1;
     let are_subchains_sequential = (end_block left = expected_left_end_block_number);
     let are_subchains_linked = (are_subchains_linked \<and> are_subchains_sequential);
     let is_right_subchain_inactive = (num_blocks right = 0);
     let is_subchain_link_valid = (is_right_subchain_inactive \<or> are_subchains_linked);
     _ \<leftarrow> assert_is_equal is_subchain_link_valid True;
     let end_block_nb = (if is_right_subchain_inactive then end_block left else end_block right);
     let end_hash =
       (if is_right_subchain_inactive then end_header_hash left else end_header_hash right);
     let state_root = builder_sha256 B (state_merkle_root left @ state_merkle_root right);
     let data_root = builder_sha256 B (data_merkle_root left @ data_merkle_root right);
     let combined_num_blocks = f_add B (num_blocks left) (num_blocks right);
     Some \<lparr>num_blocks = combined_num_blocks, start_block = start_block left,
           start_header_hash = start_header_hash left, start_parent = start_parent left,
           end_block = end_block_nb, end_header_hash = end_hash,
           state_merkle_root = state_root, data_merkle_root = data_root\<rparr>
   }"

section \<open>The whole range\<close>

text \<open>\<open>usize::next_power_of_two\<close>.\<close>

definition next_power_of_two :: "nat \<Rightarrow> nat" where
  "next_power_of_two n = hd (filter (\<lambda>p. n \<le> p) (map (\<lambda>k. 2 ^ k) [0..<Suc n]))"

type_synonym subchain_mapreduce =
  "SubchainVerificationCtx \<Rightarrow> u32 list \<Rightarrow>
   (SubchainVerificationCtx \<Rightarrow> u32 list \<Rightarrow> MapReduceSubchain option) \<Rightarrow>
   (SubchainVerificationCtx \<Rightarrow> MapReduceSubchain \<Rightarrow> MapReduceSubchain \<Rightarrow> MapReduceSubchain option) \<Rightarrow>
   MapReduceSubchain option"

text \<open>
  \<open>headers_hint\<close> is what the hint of the map job on the given relative block numbers supplies.
\<close>

definition verify_subchain ::
  "plonky2x \<Rightarrow> subchain_mapreduce \<Rightarrow> (u32 list \<Rightarrow> EncodedHeader list) \<Rightarrow> nat \<Rightarrow>
   u32 \<Rightarrow> bytes \<Rightarrow> u32 \<Rightarrow> SubchainVerificationStruct option"
where
  "verify_subchain B mapreduce headers_hint max_num_headers trusted_block trusted_header_hash
     target_block = do {
     let ctx = \<lparr>global_start_block = trusted_block, global_end_block = target_block\<rparr>;
     let num_map_jobs = next_power_of_two (max_num_headers div HEADERS_PER_MAP);
     let relative_block_nums = map of_nat [1..<num_map_jobs * HEADERS_PER_MAP + 1];
     output \<leftarrow> mapreduce ctx relative_block_nums
       (\<lambda>map_ctx nums. map_stage B map_ctx nums (headers_hint nums))
       (\<lambda>_. reduce_stage B);
     _ \<leftarrow> assert_is_equal trusted_header_hash (start_parent output);
     _ \<leftarrow> assert_is_equal target_block (end_block output);
     Some \<lparr>target_header_hash = end_header_hash output,
           state_root_merkle_root = state_merkle_root output,
           data_root_merkle_root = data_merkle_root output\<rparr>
   }"

section \<open>The contract of \<open>mapreduce\<close>\<close>

text \<open>
  On \<open>2 ^ k\<close> batches of \<open>n\<close> inputs: the map function on every batch, then the reduce
  function on neighbours, level by level.
\<close>

fun batch_tree ::
  "nat \<Rightarrow> ('i list \<Rightarrow> 'o option) \<Rightarrow> ('o \<Rightarrow> 'o \<Rightarrow> 'o option) \<Rightarrow> nat \<Rightarrow> 'i list \<Rightarrow> 'o option"
where
  "batch_tree n f g 0 xs = f xs"
| "batch_tree n f g (Suc k) xs = do {
     l \<leftarrow> batch_tree n f g k (take (n * 2 ^ k) xs);
     r \<leftarrow> batch_tree n f g k (drop (n * 2 ^ k) xs);
     g l r
   }"

locale plonky2x_mapreduce =
  fixes mapreduce :: subchain_mapreduce
  assumes mapreduce_tree:
    "length xs = HEADERS_PER_MAP * 2 ^ k \<Longrightarrow>
     mapreduce ctx xs f g = batch_tree HEADERS_PER_MAP (f ctx) (g ctx) k xs"

definition ref_mapreduce :: subchain_mapreduce where
  "ref_mapreduce ctx xs f g =
     batch_tree HEADERS_PER_MAP (f ctx) (g ctx)
       (tree_depth (replicate (length xs div HEADERS_PER_MAP) ())) xs"

interpretation refmr: plonky2x_mapreduce ref_mapreduce
  by unfold_locales (simp add: ref_mapreduce_def HEADERS_PER_MAP_def tree_depth_power)

section \<open>Chains of headers\<close>

definition header_of :: "plonky2x \<Rightarrow> EncodedHeader \<Rightarrow> HeaderVariable option" where
  "header_of B h = decode_header B h (hash_encoded_header B h)"

text \<open>The headers are those of consecutive blocks from \<open>n\<close> on, the first one a child of \<open>parent\<close>.\<close>

fun linked :: "plonky2x \<Rightarrow> bytes \<Rightarrow> nat \<Rightarrow> EncodedHeader list \<Rightarrow> bool" where
  "linked B parent n [] \<longleftrightarrow> True"
| "linked B parent n (h # hs) \<longleftrightarrow>
     (case header_of B h of None \<Rightarrow> False
      | Some v \<Rightarrow> hv_parent_hash v = parent \<and> unat (hv_block_number v) = n \<and>
          linked B (hash_encoded_header B h) (Suc n) hs)"

definition state_root_of :: "plonky2x \<Rightarrow> EncodedHeader \<Rightarrow> bytes" where
  "state_root_of B h = hv_state_root (the (header_of B h))"

definition data_root_of :: "plonky2x \<Rightarrow> EncodedHeader \<Rightarrow> bytes" where
  "data_root_of B h = hv_data_root (the (header_of B h))"

text \<open>The root of the tree with \<open>2 ^ k\<close> leaves, the missing ones empty.\<close>

definition padded_root :: "plonky2x \<Rightarrow> nat \<Rightarrow> bytes list \<Rightarrow> bytes" where
  "padded_root B k leaves =
     merkle_tree (curta_sha256 B) k (leaves @ replicate (2 ^ k - length leaves) zero32)"

lemma linked_append:
  "linked B parent n (xs @ ys) \<longleftrightarrow> linked B parent n xs \<and>
     linked B (if xs = [] then parent else hash_encoded_header B (last xs)) (n + length xs) ys"
  by (induction xs arbitrary: parent n) (auto split: option.splits)

lemma linked_iff_nth:
  "linked B parent n hs \<longleftrightarrow>
     (\<forall>i < length hs. \<exists>v. header_of B (hs ! i) = Some v \<and> unat (hv_block_number v) = n + i \<and>
        hv_parent_hash v = (if i = 0 then parent else hash_encoded_header B (hs ! (i - 1))))"
proof (induction hs arbitrary: parent n)
  case Nil
  then show ?case by simp
next
  case (Cons h hs)
  have split: "(\<forall>i < length (h # hs). P i) \<longleftrightarrow> P 0 \<and> (\<forall>i < length hs. P (Suc i))" for P
    by (simp add: All_less_Suc2)
  show ?case
    unfolding split linked.simps Cons
    by (cases "header_of B h") (auto simp: nth_Cons' cong: conj_cong)
qed

lemma next_power_of_two: "\<exists>k. next_power_of_two n = 2 ^ k \<and> n \<le> 2 ^ k"
proof -
  let ?ps = "filter (\<lambda>p. n \<le> p) (map (\<lambda>k. 2 ^ k :: nat) [0..<Suc n])"
  have "(2 :: nat) ^ n \<in> set ?ps"
    using less_exp [of n] by (simp add: less_imp_le)
  then have "hd ?ps \<in> set ?ps"
    by (metis empty_iff empty_set hd_in_set)
  then show ?thesis
    by (auto simp: next_power_of_two_def)
qed

definition parent_of :: "plonky2x \<Rightarrow> bytes \<Rightarrow> (nat \<Rightarrow> EncodedHeader) \<Rightarrow> nat \<Rightarrow> nat \<Rightarrow> bytes" where
  "parent_of B parent H g b = (if b = g + 1 then parent else hash_encoded_header B (H (b - 1)))"

lemma linked_chain_at:
  assumes "linked B parent (g + 1) (map H [g + 1..<T + 1])" and "g < b" "b \<le> T"
  shows "\<exists>v. header_of B (H b) = Some v \<and> unat (hv_block_number v) = b \<and>
    hv_parent_hash v = parent_of B parent H g b"
proof -
  have nth: "map H [g + 1..<T + 1] ! i = H (g + 1 + i)" if "i < T - g" for i
    using that by (subst nth_map) (auto simp del: upt_Suc)
  obtain d where b: "b = g + 1 + d"
    using assms(2) by (auto simp: less_iff_Suc_add)
  then have "d < length (map H [g + 1..<T + 1])"
    using assms(3) by (simp del: upt_Suc)
  then show ?thesis
    using assms(1) [unfolded linked_iff_nth, rule_format, of d] assms(3) nth [of d] nth [of "d - 1"]
    by (cases d) (simp_all add: parent_of_def b del: upt_Suc)
qed

text \<open>The header a hint supplies for a block that is not in the range.\<close>

definition empty_header :: "nat \<Rightarrow> EncodedHeader" where
  "empty_header S = \<lparr>header_bytes = replicate S 0, header_size = 0\<rparr>"

text \<open>
  What an honest hint supplies: the headers \<open>H\<close> of the blocks \<open>g + nums\<close> up to \<open>T\<close>, then
  empty ones.
\<close>

definition honest_headers ::
  "nat \<Rightarrow> (nat \<Rightarrow> EncodedHeader) \<Rightarrow> nat \<Rightarrow> nat \<Rightarrow> u32 list \<Rightarrow> EncodedHeader list"
where
  "honest_headers S H g T nums =
     map (\<lambda>n. if g + unat n \<le> T then H (g + unat n) else empty_header S) nums"

text \<open>The relative numbers of the \<open>8 * 2 ^ k\<close> blocks behind the first \<open>r\<close> ones.\<close>

definition relative_nums :: "nat \<Rightarrow> nat \<Rightarrow> u32 list" where
  "relative_nums r k = map of_nat [r + 1..<r + 1 + 8 * 2 ^ k]"

lemma relative_nums_Suc:
  "take (8 * 2 ^ k) (relative_nums r (Suc k)) = relative_nums r k"
  "drop (8 * 2 ^ k) (relative_nums r (Suc k)) = relative_nums (r + 8 * 2 ^ k) k"
  by (simp_all add: relative_nums_def take_map drop_map take_upt drop_upt add.commute del: upt_Suc)

text \<open>The headers the hints of the batches of a tree supply, in order.\<close>

fun hinted :: "(u32 list \<Rightarrow> EncodedHeader list) \<Rightarrow> nat \<Rightarrow> nat \<Rightarrow> EncodedHeader list" where
  "hinted hint r 0 = hint (relative_nums r 0)"
| "hinted hint r (Suc k) = hinted hint r k @ hinted hint (r + 8 * 2 ^ k) k"

lemma length_relative_nums [simp]: "length (relative_nums r k) = 8 * 2 ^ k"
  by (simp add: relative_nums_def del: upt_Suc)

lemma length_hinted:
  "(\<And>nums. length nums = 8 \<Longrightarrow> length (hint nums) = 8) \<Longrightarrow> length (hinted hint r k) = 8 * 2 ^ k"
  by (induction k arbitrary: r) simp_all

section \<open>The map stage on decoded headers\<close>

context plonky2x_gadgets
begin

text \<open>
  The state after \<open>j\<close> headers, of which the first \<open>c\<close> are not behind the target block.
\<close>

definition loop_state :: "EncodedHeader list \<Rightarrow> HeaderVariable list \<Rightarrow> nat \<Rightarrow> nat \<Rightarrow> MapLoop" where
  "loop_state hs vs c j =
     \<lparr>block_nums = map hv_block_number (take j vs),
      block_hashes = map (hash_encoded_header B) (take j hs),
      block_parent_hashes = map hv_parent_hash (take j vs),
      block_state_roots = map hv_state_root (take j vs),
      block_data_roots = map hv_data_root (take j vs),
      loop_end_block_num = (if min j c = 0 then 0 else hv_block_number (vs ! (min j c - 1))),
      loop_end_header_hash =
        (if min j c = 0 then zero32 else hash_encoded_header B (hs ! (min j c - 1))),
      num_headers = min j c,
      curr_block_noop = (c \<le> j),
      nb_enabled_leaves = min j c\<rparr>"

definition links :: "EncodedHeader list \<Rightarrow> HeaderVariable list \<Rightarrow> nat \<Rightarrow> bool" where
  "links hs vs m \<longleftrightarrow> (\<forall>i < m. 0 < i \<longrightarrow>
     hv_parent_hash (vs ! i) = hash_encoded_header B (hs ! (i - 1)) \<and>
     hv_block_number (vs ! i) = u32_add B (hv_block_number (vs ! (i - 1))) 1)"

lemma links_numbers:
  assumes "links hs vs m" and "unat (hv_block_number (vs ! 0)) = s" and "s + m < 2 ^ 32" and "i < m"
  shows "unat (hv_block_number (vs ! i)) = s + i"
  using assms(4)
proof (induction i)
  case 0
  with assms(2) show ?case by simp
next
  case (Suc i)
  have "unat (hv_block_number (vs ! i)) + unat (1 :: u32) < 2 ^ 32"
    using Suc assms(3) by simp
  then have "unat (u32_add B (hv_block_number (vs ! i)) 1) = s + Suc i"
    using Suc assms(3) by (simp add: u32_add_exact unat_word_ariths)
  with assms(1) Suc.prems show ?case
    by (force simp: links_def)
qed

lemma map_header_noop:
  assumes "decode_header B (hs ! j) (hash_encoded_header B (hs ! j)) = Some (vs ! j)"
    and "j < length hs" "j < length vs" and "c \<le> j" and "c < 2 ^ 32"
  shows "map_header B ctx hs j (loop_state hs vs c j) = Some (loop_state hs vs c (Suc j))"
  using assms
  by (simp add: map_header_def loop_state_def Let_def take_Suc_conv_app_nth f_add_exact min_absorb2)

lemma map_header_active:
  assumes "decode_header B (hs ! j) (hash_encoded_header B (hs ! j)) = Some (vs ! j)"
    and "j < length hs" "j < length vs" and "j < c" and "j < 2 ^ 32"
    and "links hs vs (Suc j) \<Longrightarrow> hv_block_number (vs ! j) = global_end_block ctx \<longleftrightarrow> c = Suc j"
    and "links hs vs j"
  shows "map_header B ctx hs j (loop_state hs vs c j) =
    (if links hs vs (Suc j) then Some (loop_state hs vs c (Suc j)) else None)"
proof -
  have step: "links hs vs (Suc j) \<longleftrightarrow> (0 < j \<longrightarrow>
      hv_parent_hash (vs ! j) = hash_encoded_header B (hs ! (j - 1)) \<and>
      hv_block_number (vs ! j) = u32_add B (hv_block_number (vs ! (j - 1))) 1)"
    using assms(7) by (auto simp: links_def less_Suc_eq)
  have f: "f_add B j 1 = Suc j"
    using assms(5) by (simp add: f_add_exact)
  show ?thesis
    using assms(1-6) step f
    by (cases j) (auto simp: map_header_def loop_state_def Let_def take_Suc_conv_app_nth min_absorb1
        nth_append not_le Suc_le_eq)
qed

lemma map_loop_eq:
  assumes dec: "\<And>i. i < n \<Longrightarrow>
      decode_header B (hs ! i) (hash_encoded_header B (hs ! i)) = Some (vs ! i)"
    and len: "length hs = n" "length vs = n"
    and c: "c = unat (global_end_block ctx) + 1 - s"
    and first: "0 < c \<Longrightarrow> unat (hv_block_number (vs ! 0)) = s"
    and s: "s + n < 2 ^ 32" and "j \<le> n"
  shows "fold_option (map_header B ctx hs) [0..<j] (loop_state hs vs c 0) =
    (if links hs vs (min j c) then Some (loop_state hs vs c j) else None)"
  using \<open>j \<le> n\<close>
proof (induction j)
  case 0
  then show ?case by (simp add: links_def)
next
  case (Suc j)
  have IH: "fold_option (map_header B ctx hs) [0..<Suc j] (loop_state hs vs c 0) =
      (if links hs vs (min j c) then map_header B ctx hs j (loop_state hs vs c j) else None)"
    using Suc by (simp add: fold_option_snoc)
  show ?case
  proof (cases "c \<le> j")
    case True
    then have "map_header B ctx hs j (loop_state hs vs c j) = Some (loop_state hs vs c (Suc j))"
      using Suc.prems len s dec by (intro map_header_noop) auto
    with True show ?thesis
      unfolding IH by (simp add: min_absorb2)
  next
    case False
    then have j: "min j c = j" "min (Suc j) c = Suc j"
      by auto
    have final: "hv_block_number (vs ! j) = global_end_block ctx \<longleftrightarrow> c = Suc j"
      if "links hs vs (Suc j)"
    proof -
      have "unat (hv_block_number (vs ! j)) = s + j"
        using False Suc.prems s first by (intro links_numbers [OF that]) auto
      then show ?thesis
        using False c by (auto simp: word_unat_eq_iff)
    qed
    have "links hs vs (Suc j) \<Longrightarrow> links hs vs j"
      by (auto simp: links_def)
    moreover have "map_header B ctx hs j (loop_state hs vs c j) =
        (if links hs vs (Suc j) then Some (loop_state hs vs c (Suc j)) else None)" if "links hs vs j"
      using False Suc.prems len s that final dec by (intro map_header_active) auto
    ultimately show ?thesis
      unfolding IH j by auto
  qed
qed

lemma map_loop_decodes:
  "fold_option (map_header B ctx hs) [0..<j] st = Some st' \<Longrightarrow>
   \<exists>vs. length vs = j \<and> (\<forall>i < j. header_of B (hs ! i) = Some (vs ! i)) \<and>
     block_nums st' = block_nums st @ map hv_block_number vs"
proof (induction j arbitrary: st')
  case 0
  then show ?case by simp
next
  case (Suc j)
  then obtain st1 vs where "map_header B ctx hs j st1 = Some st'" and vs: "length vs = j"
      "\<forall>i < j. header_of B (hs ! i) = Some (vs ! i)"
      "block_nums st1 = block_nums st @ map hv_block_number vs"
    by (auto simp: fold_option_snoc elim!: bind_eq_SomeE)
  moreover from this obtain v where "header_of B (hs ! j) = Some v"
      "block_nums st' = block_nums st1 @ [hv_block_number v]"
    by (auto simp: map_header_def header_of_def Let_def elim!: bind_eq_SomeE)
  ultimately show ?case
    by (intro exI [of _ "vs @ [v]"]) (auto simp: nth_append less_Suc_eq)
qed

text \<open>Which batches the map stage accepts, and what it returns.\<close>

definition map_result :: "EncodedHeader list \<Rightarrow> HeaderVariable list \<Rightarrow> nat \<Rightarrow> MapReduceSubchain" where
  "map_result hs vs c =
     \<lparr>num_blocks = c, start_block = hv_block_number (vs ! 0),
      start_header_hash = hash_encoded_header B (hs ! 0), start_parent = hv_parent_hash (vs ! 0),
      end_block = (if c = 0 then 0 else hv_block_number (vs ! (c - 1))),
      end_header_hash = (if c = 0 then zero32 else hash_encoded_header B (hs ! (c - 1))),
      state_merkle_root = padded_root B 3 (map hv_state_root (take c vs)),
      data_merkle_root = padded_root B 3 (map hv_data_root (take c vs))\<rparr>"

lemma batch_root:
  assumes "length leaves = 8" and "c \<le> 8"
  shows "get_root_from_hashed_leaves B leaves c = padded_root B 3 (take c leaves)"
  using get_root_from_hashed_leaves [of leaves 3 c] assms
  by (simp add: padded_root_def enabled_leaves_def)

text \<open>What follows the loop of the map stage, for a batch from \<open>s\<close> with \<open>C\<close> blocks up to the target.\<close>

definition map_finish :: "nat \<Rightarrow> nat \<Rightarrow> MapLoop \<Rightarrow> MapReduceSubchain option" where
  "map_finish s C st =
     (if (block_nums st ! 0 = of_nat s \<or> C = 0) \<and>
        (loop_end_block_num st = of_nat (s + 7) \<or> curr_block_noop st)
      then Some \<lparr>num_blocks = num_headers st, start_block = block_nums st ! 0,
        start_header_hash = block_hashes st ! 0, start_parent = block_parent_hashes st ! 0,
        end_block = loop_end_block_num st, end_header_hash = loop_end_header_hash st,
        state_merkle_root = get_root_from_hashed_leaves B (block_state_roots st) (nb_enabled_leaves st),
        data_merkle_root = get_root_from_hashed_leaves B (block_data_roots st) (nb_enabled_leaves st)\<rparr>
      else None)"

lemma map_stage_unfold:
  assumes "u32_add B (global_start_block ctx) (nums ! 0) = of_nat s"
    and "u32_add B (global_start_block ctx) (nums ! 7) = of_nat (s + 7)" and "s + 8 < 2 ^ 32"
  shows "map_stage B ctx nums hs =
    Option.bind (fold_option (map_header B ctx hs) [0..<8] (loop_state hs vs (unat (global_end_block ctx) + 1 - s) 0))
      (map_finish s (unat (global_end_block ctx) + 1 - s))"
proof -
  have "unat (of_nat s :: u32) = s"
    using assms(3) by (simp add: unat_of_nat)
  then have "global_end_block ctx < of_nat s \<longleftrightarrow> unat (global_end_block ctx) + 1 - s = 0"
    by (auto simp: word_less_nat_alt)
  then show ?thesis
    unfolding map_stage_def map_finish_def loop_state_def HEADERS_PER_MAP_def Let_def
    by (intro arg_cong2 [where f = Option.bind] ext) (auto simp: assms(1,2) assert_is_equal_def)
qed

lemma map_finish_loop:
  assumes "length hs = 8" and "length vs = 8" and "s + 8 < 2 ^ 32"
    and first: "0 < C \<longrightarrow> unat (hv_block_number (vs ! 0)) = s" and links: "links hs vs (min 8 C)"
  shows "map_finish s C (loop_state hs vs C 8) = Some (map_result hs vs (min 8 C))"
proof -
  have "hv_block_number (vs ! 7) = of_nat (s + 7)" if "8 < C"
    by (rule unat_eq_imp_of_nat, rule links_numbers [OF links]) (use that first assms(3) in simp_all)
  moreover have "hv_block_number (vs ! 0) = of_nat s" if "0 < C"
    using that first by (intro unat_eq_imp_of_nat) simp
  moreover have "vs \<noteq> []" "hs \<noteq> []"
    using assms(1,2) by auto
  ultimately show ?thesis
    using assms(1,2) by (auto simp: map_finish_def loop_state_def map_result_def batch_root hd_conv_nth take_map)
qed

lemma map_stage_iff:
  assumes hs: "length hs = 8"
    and start: "u32_add B (global_start_block ctx) (nums ! 0) = of_nat s"
    and stop: "u32_add B (global_start_block ctx) (nums ! 7) = of_nat (s + 7)"
    and s: "s + 8 < 2 ^ 32"
  defines "c \<equiv> min 8 (unat (global_end_block ctx) + 1 - s)"
  shows "map_stage B ctx nums hs = Some m \<longleftrightarrow>
    (\<exists>vs. length vs = 8 \<and> (\<forall>i < 8. header_of B (hs ! i) = Some (vs ! i)) \<and>
       (0 < c \<longrightarrow> unat (hv_block_number (vs ! 0)) = s) \<and> links hs vs c \<and> m = map_result hs vs c)"
    (is "?lhs \<longleftrightarrow> ?rhs")
proof -
  define C where "C = unat (global_end_block ctx) + 1 - s"
  have c: "c = min 8 C"
    by (simp add: c_def C_def)
  note unfold = map_stage_unfold [OF start stop s, folded C_def]
  have loop: "fold_option (map_header B ctx hs) [0..<8] (loop_state hs vs C 0) =
      (if links hs vs c then Some (loop_state hs vs C 8) else None)"
    if "length vs = 8" "\<forall>i < 8. header_of B (hs ! i) = Some (vs ! i)"
      "0 < C \<longrightarrow> unat (hv_block_number (vs ! 0)) = s" for vs
    using map_loop_eq [of 8 hs vs C ctx s 8] that hs s by (simp add: header_of_def C_def c)
  note finish = map_finish_loop [OF hs _ s, where C = C, folded c]
  show ?thesis
  proof
    assume ?lhs
    then obtain st where st: "fold_option (map_header B ctx hs) [0..<8] (loop_state hs [] C 0) = Some st"
        and fin: "map_finish s C st = Some m"
      by (auto simp: unfold [of hs "[]"] elim!: bind_eq_SomeE)
    from map_loop_decodes [OF st] obtain vs where vs: "length vs = 8"
        "\<forall>i < 8. header_of B (hs ! i) = Some (vs ! i)" "block_nums st = map hv_block_number vs"
      by (auto simp: loop_state_def)
    have "0 < C \<longrightarrow> unat (hv_block_number (vs ! 0)) = s"
      using fin vs(1,3) s by (auto simp: map_finish_def unat_of_nat split: if_splits)
    then show ?rhs
      using \<open>?lhs\<close> vs loop [of vs] finish [of vs] unfolding unfold [of hs vs]
      by (intro exI [of _ vs]) (auto simp: c split: if_splits)
  next
    assume ?rhs
    then obtain vs where vs: "length vs = 8" "\<forall>i < 8. header_of B (hs ! i) = Some (vs ! i)"
        "0 < C \<longrightarrow> unat (hv_block_number (vs ! 0)) = s" "links hs vs c" "m = map_result hs vs c"
      by (auto simp: c)
    then show ?lhs
      using loop [of vs] finish [of vs] by (simp add: unfold [of hs vs])
  qed
qed

section \<open>Verified segments\<close>

text \<open>
  What a subchain value says about the \<open>2 ^ k\<close> blocks from \<open>a\<close> on: \<open>hs\<close> are the headers
  of those blocks that are not behind the target block \<open>T\<close>.
\<close>

definition segment :: "nat \<Rightarrow> nat \<Rightarrow> nat \<Rightarrow> EncodedHeader list \<Rightarrow> MapReduceSubchain \<Rightarrow> bool" where
  "segment T a k hs m \<longleftrightarrow>
     length hs = min (2 ^ k) (T + 1 - a) \<and>
     linked B (start_parent m) a hs \<and>
     num_blocks m = length hs \<and>
     (hs \<noteq> [] \<longrightarrow> start_block m = of_nat a) \<and>
     end_block m = (if hs = [] then 0 else of_nat (a + length hs - 1)) \<and>
     end_header_hash m = (if hs = [] then zero32 else hash_encoded_header B (last hs)) \<and>
     state_merkle_root m = padded_root B k (map (state_root_of B) hs) \<and>
     data_merkle_root m = padded_root B k (map (data_root_of B) hs)"

lemma segmentD:
  assumes "segment T a k hs m"
  shows "length hs = min (2 ^ k) (T + 1 - a)" "num_blocks m = length hs"
    "linked B (start_parent m) a hs"
    "end_block m = (if hs = [] then 0 else of_nat (a + length hs - 1))"
    "end_header_hash m = (if hs = [] then zero32 else hash_encoded_header B (last hs))"
    "hs \<noteq> [] \<Longrightarrow> start_block m = of_nat a"
    "state_merkle_root m = padded_root B k (map (state_root_of B) hs)"
    "data_merkle_root m = padded_root B k (map (data_root_of B) hs)"
  using assms unfolding segment_def by blast+

lemma map_result_segment:
  assumes hs: "length hs = 8" and vs: "length vs = 8" "\<forall>i < 8. header_of B (hs ! i) = Some (vs ! i)"
    and s: "s + 8 < 2 ^ 32" and c: "c = min 8 (T + 1 - s)"
    and first: "0 < c \<longrightarrow> unat (hv_block_number (vs ! 0)) = s" and links: "links hs vs c"
  shows "segment T s 3 (take c hs) (map_result hs vs c)"
proof -
  have c8: "c \<le> 8"
    by (simp add: c)
  have num: "unat (hv_block_number (vs ! i)) = s + i" if "i < c" for i
    using that c s first by (intro links_numbers [OF links]) auto
  have "linked B (hv_parent_hash (vs ! 0)) s (take c hs)"
    unfolding linked_iff_nth using vs links num hs c8 by (auto simp: links_def)
  moreover have "hv_block_number (vs ! (c - 1)) = of_nat (s + c - 1)" if "0 < c"
    using num [of "c - 1"] that by (intro unat_eq_imp_of_nat) simp
  moreover have "hv_block_number (vs ! 0) = of_nat s" if "0 < c"
    using first that by (intro unat_eq_imp_of_nat) simp
  moreover have "last (take c hs) = hs ! (c - 1)" if "0 < c"
    using that hs c8 by (subst last_conv_nth) auto
  moreover have "map (state_root_of B) (take c hs) = map hv_state_root (take c vs)"
      "map (data_root_of B) (take c hs) = map hv_data_root (take c vs)"
    using hs vs by (auto intro!: nth_equalityI simp: state_root_of_def data_root_of_def)
  moreover have "length (take c hs) = c" "take c hs = [] \<longleftrightarrow> c = 0"
    using hs c by auto
  ultimately show ?thesis
    using c by (auto simp: segment_def map_result_def)
qed

lemma padded_root_join:
  assumes "length xs \<le> 2 ^ k" "length ys \<le> 2 ^ k" and "ys \<noteq> [] \<longrightarrow> length xs = 2 ^ k"
  shows "curta_sha256 B (padded_root B k xs @ padded_root B k ys) = padded_root B (Suc k) (xs @ ys)"
proof -
  let ?xs = "xs @ replicate (2 ^ k - length xs) zero32" and ?ys = "ys @ replicate (2 ^ k - length ys) zero32"
  have "?xs @ ?ys = (xs @ ys) @ replicate (2 ^ Suc k - length (xs @ ys)) zero32"
  proof (cases "ys = []")
    case True
    then show ?thesis
      using assms(1) by (simp add: replicate_add [symmetric] mult_2)
  next
    case False
    then show ?thesis
      using assms by (simp add: mult_2)
  qed
  then show ?thesis
    using assms(1,2) merkle_tree_append [of ?xs k ?ys "curta_sha256 B"]
    by (simp add: padded_root_def)
qed

lemma segment_full:
  assumes "segment T a k hsl l" and "segment T (a + 2 ^ k) k hsr r" and "hsr \<noteq> []"
  shows "length hsl = 2 ^ k"
proof -
  note segmentD(1) [OF assms(2)]
  moreover have "0 < length hsr"
    using assms(3) by simp
  ultimately have "a + 2 ^ k < T + 1"
    by linarith
  then show ?thesis
    using assms(1) by (simp add: segment_def)
qed

definition joined :: "MapReduceSubchain \<Rightarrow> MapReduceSubchain \<Rightarrow> MapReduceSubchain" where
  "joined l r =
     \<lparr>num_blocks = num_blocks l + num_blocks r, start_block = start_block l,
      start_header_hash = start_header_hash l, start_parent = start_parent l,
      end_block = (if num_blocks r = 0 then end_block l else end_block r),
      end_header_hash = (if num_blocks r = 0 then end_header_hash l else end_header_hash r),
      state_merkle_root = curta_sha256 B (state_merkle_root l @ state_merkle_root r),
      data_merkle_root = curta_sha256 B (data_merkle_root l @ data_merkle_root r)\<rparr>"

text \<open>The reduce stage on two neighbouring segments: only the hash link is left to check.\<close>

lemma reduce_stage_eq:
  assumes l: "segment T a k hsl l" and r: "segment T (a + 2 ^ k) k hsr r"
    and a: "0 < a" "a + 2 * 2 ^ k < 2 ^ 32"
  shows "reduce_stage B l r =
    (if hsr = [] \<or> start_parent r = hash_encoded_header B (last hsl) then Some (joined l r) else None)"
proof -
  have num: "num_blocks r = 0 \<longleftrightarrow> hsr = []" "num_blocks l \<le> 2 ^ k" "num_blocks r \<le> 2 ^ k"
    using l r by (auto simp: segment_def)
  then have add: "f_add B (num_blocks l) (num_blocks r) = num_blocks l + num_blocks r"
    using a by (intro f_add_exact) simp
  have full: "hsl \<noteq> [] \<and> end_header_hash l = hash_encoded_header B (last hsl) \<and>
      end_block l = u32_sub B (start_block r) 1" if "hsr \<noteq> []"
  proof -
    note len = segment_full [OF l r that]
    then have ne: "hsl \<noteq> []"
      by auto
    define b where "b = a + 2 ^ k - 1"
    have b: "a + 2 ^ k = Suc b" "Suc b < 2 ^ 32"
      using a by (simp_all add: b_def)
    have start: "start_block r = of_nat (Suc b)"
      using r that unfolding segment_def b(1) by blast
    have "(1 :: u32) \<le> of_nat (Suc b)"
      unfolding word_le_nat_alt unat_of_nat using b(2) by simp
    then have "u32_sub B (start_block r) 1 = of_nat (a + 2 ^ k - 1)"
      unfolding start b(1) by (simp add: u32_sub_exact)
    then show ?thesis
      using l len ne by (simp add: segment_def)
  qed
  show ?thesis
    using num full add
    by (auto simp: reduce_stage_def joined_def Let_def assert_is_equal_def builder_sha256)
qed

lemma joined_segment:
  assumes l: "segment T a k hsl l" and r: "segment T (a + 2 ^ k) k hsr r"
    and link: "hsr = [] \<or> start_parent r = hash_encoded_header B (last hsl)"
  shows "segment T a (Suc k) (hsl @ hsr) (joined l r)"
proof -
  note full = segment_full [OF l r]
  then have ne: "hsl \<noteq> []" if "hsr \<noteq> []"
    using that by auto
  have len: "length hsl = min (2 ^ k) (T + 1 - a)" "length hsr = min (2 ^ k) (T + 1 - (a + 2 ^ k))"
    and links: "linked B (start_parent l) a hsl" "linked B (start_parent r) (a + 2 ^ k) hsr"
    by (rule segmentD [OF l] segmentD [OF r])+
  have "linked B (start_parent l) a (hsl @ hsr)"
    using links link full ne by (cases "hsr = []") (auto simp: linked_append)
  moreover have "length (hsl @ hsr) = min (2 ^ Suc k) (T + 1 - a)"
    by (simp add: len mult_2)
  moreover have "padded_root B (Suc k) (map f hsl @ map f hsr) =
      curta_sha256 B (padded_root B k (map f hsl) @ padded_root B k (map f hsr))" for f
    using len full by (intro padded_root_join [symmetric]) auto
  moreover have "end_block (joined l r) =
      (if hsl @ hsr = [] then 0 else of_nat (a + length (hsl @ hsr) - 1))"
  proof (cases "hsr = []")
    case True
    then show ?thesis by (simp add: joined_def segmentD(2) [OF r] segmentD(4) [OF l])
  next
    case False
    then show ?thesis
      by (simp add: full joined_def add.assoc segmentD(2,4) [OF r])
  qed
  moreover have "num_blocks (joined l r) = length (hsl @ hsr)"
      "hsl @ hsr \<noteq> [] \<longrightarrow> start_block (joined l r) = of_nat a"
      "end_header_hash (joined l r) =
        (if hsl @ hsr = [] then zero32 else hash_encoded_header B (last (hsl @ hsr)))"
    using ne segmentD(6) [OF l]
    by (auto simp: joined_def segmentD(2,5) [OF l] segmentD(2,5) [OF r])
  ultimately show ?thesis
    by (simp add: segment_def joined_def segmentD(7,8) [OF l] segmentD(7,8) [OF r])
qed

section \<open>The whole tree\<close>

lemma relative_nums_bounds:
  assumes "unat g + r + 8 < 2 ^ 32" and "i < 8"
  shows "u32_add B g (relative_nums r 0 ! i) = of_nat (unat g + r + 1 + i)"
    and "unat g + unat (relative_nums r 0 ! i) = unat g + r + 1 + i"
proof -
  have n: "relative_nums r 0 ! i = of_nat (r + 1 + i)"
    using assms(2) by (simp add: relative_nums_def del: upt_Suc)
  have u: "unat (of_nat (r + 1 + i) :: u32) = r + 1 + i"
    unfolding unat_of_nat using assms by simp
  show "u32_add B g (relative_nums r 0 ! i) = of_nat (unat g + r + 1 + i)"
    unfolding n using assms u by (subst u32_add_exact) (simp_all add: add.assoc)
  show "unat g + unat (relative_nums r 0 ! i) = unat g + r + 1 + i"
    unfolding n u by simp
qed

lemma map_stage_sound:
  assumes len: "length hs = 8" and a: "unat (global_start_block ctx) + r + 9 < 2 ^ 32"
    and "map_stage B ctx (relative_nums r 0) hs = Some m"
  shows "segment (unat (global_end_block ctx)) (unat (global_start_block ctx) + r + 1) 3
    (take (unat (global_end_block ctx) - (unat (global_start_block ctx) + r)) hs) m"
proof -
  let ?s = "unat (global_start_block ctx) + r + 1"
  have bounds: "unat (global_start_block ctx) + r + 8 < 2 ^ 32"
    using a by simp
  obtain vs where "length vs = 8" "\<forall>i < 8. header_of B (hs ! i) = Some (vs ! i)"
      "0 < min 8 (unat (global_end_block ctx) + 1 - ?s) \<longrightarrow> unat (hv_block_number (vs ! 0)) = ?s"
      "links hs vs (min 8 (unat (global_end_block ctx) + 1 - ?s))"
      "m = map_result hs vs (min 8 (unat (global_end_block ctx) + 1 - ?s))"
    using map_stage_iff [OF len, where ctx = ctx and nums = "relative_nums r 0" and s = ?s and m = m] assms(2,3)
      relative_nums_bounds(1) [OF bounds, of 0] relative_nums_bounds(1) [OF bounds, of 7] by auto
  moreover have "take (min 8 n) hs = take n hs" for n
    using len by (simp add: min_def)
  ultimately show ?thesis
    using map_result_segment [OF len, of vs ?s] a by auto
qed

lemma tree_sound:
  assumes hint: "\<And>nums. length nums = 8 \<Longrightarrow> length (hint nums) = 8"
    and a: "unat (global_start_block ctx) + r + 1 + 8 * 2 ^ k < 2 ^ 32"
    and tree: "batch_tree 8 (\<lambda>nums. map_stage B ctx nums (hint nums)) (reduce_stage B) k
      (relative_nums r k) = Some m"
  shows "segment (unat (global_end_block ctx)) (unat (global_start_block ctx) + r + 1) (3 + k)
    (take (unat (global_end_block ctx) - (unat (global_start_block ctx) + r)) (hinted hint r k)) m"
  using a tree
proof (induction k arbitrary: r m)
  case 0
  then show ?case
    using map_stage_sound [of "hint (relative_nums r 0)" ctx r m] hint [of "relative_nums r 0"] by simp
next
  case (Suc k)
  let ?a = "unat (global_start_block ctx) + r + 1"
  obtain l r' where l: "batch_tree 8 (\<lambda>nums. map_stage B ctx nums (hint nums)) (reduce_stage B) k
        (relative_nums r k) = Some l"
      and r: "batch_tree 8 (\<lambda>nums. map_stage B ctx nums (hint nums)) (reduce_stage B) k
        (relative_nums (r + 8 * 2 ^ k) k) = Some r'"
      and m: "reduce_stage B l r' = Some m"
    using Suc.prems(2) by (auto simp: relative_nums_Suc elim!: bind_eq_SomeE)
  let ?T = "unat (global_end_block ctx)"
  let ?hl = "take (?T - (unat (global_start_block ctx) + r)) (hinted hint r k)"
  let ?hr = "take (?T - (unat (global_start_block ctx) + (r + 8 * 2 ^ k))) (hinted hint (r + 8 * 2 ^ k) k)"
  have hsl: "segment ?T ?a (3 + k) ?hl l"
    using Suc.IH [OF _ l] Suc.prems(1) by simp
  have "segment ?T (unat (global_start_block ctx) + (r + 8 * 2 ^ k) + 1) (3 + k) ?hr r'"
    using Suc.IH [OF _ r] Suc.prems(1) by simp
  then have hsr: "segment ?T (?a + 2 ^ (3 + k)) (3 + k) ?hr r'"
    by (simp add: power_add algebra_simps)
  have "?a + 2 * 2 ^ (3 + k) < 2 ^ 32"
    using Suc.prems(1) by (simp add: power_add algebra_simps)
  with m have "(?hr = [] \<or> start_parent r' = hash_encoded_header B (last ?hl)) \<and> m = joined l r'"
    using reduce_stage_eq [OF hsl hsr] by (auto split: if_splits)
  then have "segment ?T ?a (Suc (3 + k)) (?hl @ ?hr) m"
    using joined_segment [OF hsl hsr] by blast
  moreover have "?hl @ ?hr = take (?T - (unat (global_start_block ctx) + r)) (hinted hint r (Suc k))"
    by (simp add: length_hinted [of hint, OF hint] add.assoc)
  ultimately show ?case
    by (simp only: add_Suc_right)
qed

lemma empty_header_decodes: "69 \<le> S \<Longrightarrow> header_of B (empty_header S) \<noteq> None"
proof -
  assume S: "69 \<le> S"
  have zero: "subarray a b (replicate S (0 :: byte)) = replicate (min (b - a) (S - a)) 0" for a b
    by (simp add: subarray_def min_def)
  have "le_nat (replicate 5 0) = 0"
    by (simp add: numeral_eq_Suc)
  then have "decode_compact_int B (replicate 5 0) = Some (0, 0)"
    by (simp add: decode_compact_int_eq compact_value_def)
  then show ?thesis
    using S by (simp add: header_of_def empty_header_def decode_header_def const_simps zero
        select_bytes32 get_fixed_subarray)
qed

text \<open>A batch of an honest chain is accepted.\<close>

lemma honest_headers_nth:
  fixes g :: nat
  assumes "g + r + 8 < 2 ^ 32" and "i < 8"
  shows "honest_headers S H g T (relative_nums r 0) ! i =
    (if i < min 8 (T + 1 - (g + r + 1)) then H (g + r + 1 + i) else empty_header S)"
proof -
  have "unat (of_nat g :: u32) = g"
    using assms(1) by (intro unat_of_nat_small) simp
  then have "g + unat (relative_nums r 0 ! i) = g + r + 1 + i"
    using relative_nums_bounds(2) [of "of_nat g" r i] assms by simp
  moreover have "i < length (relative_nums r 0)"
    using assms(2) by (simp add: relative_nums_def del: upt_Suc)
  ultimately show ?thesis
    using assms(2) by (auto simp: honest_headers_def add.assoc)
qed

text \<open>Eight headers of which the first \<open>c\<close> continue the chain from block \<open>s\<close> are decoded and linked.\<close>

lemma honest_batch:
  assumes chain: "linked B parent (g + 1) (map H [g + 1..<T + 1])" and S: "69 \<le> S"
    and s: "g < s" "s + 8 < 2 ^ 32" and c: "c \<le> 8" "s + c \<le> T + 1 \<or> c = 0"
    and nth: "\<And>i. i < 8 \<Longrightarrow> hs ! i = (if i < c then H (s + i) else empty_header S)"
  obtains vs where "length vs = 8" "\<forall>i < 8. header_of B (hs ! i) = Some (vs ! i)" "links hs vs c"
    "0 < c \<Longrightarrow> unat (hv_block_number (vs ! 0)) = s \<and> hv_parent_hash (vs ! 0) = parent_of B parent H g s"
proof -
  define vs where "vs = map (\<lambda>i. the (header_of B (hs ! i))) [0..<8]"
  have vs: "header_of B (hs ! i) = Some (vs ! i)" if "i < 8" for i
    using that nth [OF that] c s(1) linked_chain_at [OF chain, of "s + i"] empty_header_decodes [OF S]
    by (fastforce simp: vs_def)
  have v: "unat (hv_block_number (vs ! i)) = s + i" "hv_parent_hash (vs ! i) = parent_of B parent H g (s + i)"
    if "i < c" for i
    using that nth [of i] vs [of i] c s(1) linked_chain_at [OF chain, of "s + i"] by fastforce+
  have "links hs vs c"
    unfolding links_def
  proof (intro allI impI conjI)
    fix i assume i: "i < c" "0 < i"
    then have "hs ! (i - 1) = H (s + (i - 1))"
      using nth [of "i - 1"] c(1) by simp
    then show "hv_parent_hash (vs ! i) = hash_encoded_header B (hs ! (i - 1))"
      using v(2) [OF i(1)] i(2) s(1) by (simp add: parent_of_def)
    have "unat (u32_add B (hv_block_number (vs ! (i - 1))) 1) = s + i"
      using v(1) [of "i - 1"] i s(2) c(1) by (subst u32_add_exact) (simp_all add: unat_word_ariths)
    then show "hv_block_number (vs ! i) = u32_add B (hv_block_number (vs ! (i - 1))) 1"
      using v(1) [of i] i by (simp add: word_unat_eq_iff)
  qed
  then show thesis
    using vs v [of 0] by (intro that [of vs]) (simp_all add: vs_def)
qed

lemma map_stage_complete:
  fixes ctx H parent
  defines "g \<equiv> unat (global_start_block ctx)" and "T \<equiv> unat (global_end_block ctx)"
  assumes chain: "linked B parent (g + 1) (map H [g + 1..<T + 1])"
    and S: "69 \<le> S" and a: "g + r + 9 < 2 ^ 32"
  shows "\<exists>m. map_stage B ctx (relative_nums r 0) (honest_headers S H g T (relative_nums r 0)) = Some m \<and>
    segment T (g + r + 1) 3 (map H [g + r + 1..<min (g + r + 9) (T + 1)]) m \<and>
    (g + r + 1 \<le> T \<longrightarrow> start_parent m = parent_of B parent H g (g + r + 1))"
proof -
  let ?hs = "honest_headers S H g T (relative_nums r 0)" and ?s = "g + r + 1"
  define c where "c = min 8 (T + 1 - ?s)"
  have bounds: "unat (global_start_block ctx) + r + 8 < 2 ^ 32" and s: "?s + 8 < 2 ^ 32"
    using a by (simp_all add: g_def)
  have len: "length ?hs = 8"
    by (simp add: honest_headers_def relative_nums_def del: upt_Suc)
  have nth: "?hs ! i = (if i < c then H (?s + i) else empty_header S)" if "i < 8" for i
    using honest_headers_nth [OF bounds [folded g_def] that] by (simp only: c_def)
  obtain vs where vs: "length vs = 8" "\<forall>i < 8. header_of B (?hs ! i) = Some (vs ! i)" "links ?hs vs c"
      "0 < c \<Longrightarrow> unat (hv_block_number (vs ! 0)) = ?s \<and> hv_parent_hash (vs ! 0) = parent_of B parent H g ?s"
    by (rule honest_batch [OF chain S _ s _ _ nth]) (auto simp: c_def)
  have start: "u32_add B (global_start_block ctx) (relative_nums r 0 ! 0) = of_nat ?s"
      "u32_add B (global_start_block ctx) (relative_nums r 0 ! 7) = of_nat (?s + 7)"
    using relative_nums_bounds(1) [OF bounds, of 0] relative_nums_bounds(1) [OF bounds, of 7]
    by (simp_all add: g_def)
  note accepted = map_stage_iff [OF len start s, folded T_def, folded c_def]
  have "map_stage B ctx (relative_nums r 0) ?hs = Some (map_result ?hs vs c)"
    unfolding accepted using vs by (intro exI [of _ vs]) simp
  moreover have "segment T ?s 3 (take c ?hs) (map_result ?hs vs c)"
    using vs s by (intro map_result_segment [OF len]) (auto simp: c_def)
  moreover have "take c ?hs = map H [?s..<min (g + r + 9) (T + 1)]"
    using len nth by (intro nth_equalityI) (auto simp: c_def min_def simp del: upt_Suc)
  moreover have "start_parent (map_result ?hs vs c) = parent_of B parent H g ?s" if "?s \<le> T"
    using vs(4) that by (simp add: map_result_def c_def)
  ultimately show ?thesis
    by auto
qed

lemma join_ranges:
  "map H [a..<min (a + w) (T + 1)] @ map H [a + w..<min (a + 2 * w) (T + 1)] = map H [a..<min (a + 2 * w) (T + 1)]"
proof (cases "a + w \<le> T")
  case True
  then have "[a..<a + w] @ [a + w..<min (a + 2 * w) (T + 1)] = [a..<min (a + 2 * w) (T + 1)]"
    by (intro upt_join) auto
  moreover have "min (a + w) (T + 1) = a + w"
    using True by simp
  ultimately show ?thesis
    by (simp only: map_append [symmetric])
next
  case False
  then have "min (a + w) (T + 1) = T + 1" "min (a + 2 * w) (T + 1) = T + 1" "[a + w..<T + 1] = []"
    by (auto simp del: upt_Suc)
  then show ?thesis by (simp only: list.map append_Nil2)
qed

lemma range_link:
  assumes "a + w \<le> T \<longrightarrow> p = parent_of B parent H g (a + w)" and "g < a" and "0 < w"
  shows "map H [a + w..<min (a + 2 * w) (T + 1)] = [] \<or>
    p = hash_encoded_header B (last (map H [a..<min (a + w) (T + 1)]))"
proof (cases "a + w \<le> T")
  case True
  then have "last (map H [a..<min (a + w) (T + 1)]) = H (a + w - 1)"
    using assms(3) by (subst last_map) (auto simp: last_conv_nth simp del: upt_Suc)
  with True assms show ?thesis
    by (simp add: parent_of_def)
qed auto

lemma tree_complete:
  fixes ctx H parent
  defines "g \<equiv> unat (global_start_block ctx)" and "T \<equiv> unat (global_end_block ctx)"
  assumes chain: "linked B parent (g + 1) (map H [g + 1..<T + 1])"
    and S: "69 \<le> S" and a: "g + r + 1 + 8 * 2 ^ k < 2 ^ 32"
  shows "\<exists>m. batch_tree 8 (\<lambda>nums. map_stage B ctx nums (honest_headers S H g T nums)) (reduce_stage B) k
      (relative_nums r k) = Some m \<and>
    segment T (g + r + 1) (3 + k) (map H [g + r + 1..<min (g + r + 1 + 8 * 2 ^ k) (T + 1)]) m \<and>
    (g + r + 1 \<le> T \<longrightarrow> start_parent m = parent_of B parent H g (g + r + 1))"
  using a
proof (induction k arbitrary: r)
  case 0
  have w: "g + r + 1 + 8 * 2 ^ 0 = g + r + 9"
    by simp
  show ?case
    using map_stage_complete [of parent ctx H S r, folded g_def T_def, OF chain S] 0
    unfolding w by (simp only: batch_tree.simps add_0_right)
next
  case (Suc k)
  let ?a = "g + r + 1" and ?w = "8 * 2 ^ k"
  obtain l where l: "batch_tree 8 (\<lambda>nums. map_stage B ctx nums (honest_headers S H g T nums))
        (reduce_stage B) k (relative_nums r k) = Some l"
      and sl: "segment T ?a (3 + k) (map H [?a..<min (?a + ?w) (T + 1)]) l"
      and pl: "?a \<le> T \<longrightarrow> start_parent l = parent_of B parent H g ?a"
    using Suc.IH [of r] Suc.prems by auto
  obtain q where q: "batch_tree 8 (\<lambda>nums. map_stage B ctx nums (honest_headers S H g T nums))
        (reduce_stage B) k (relative_nums (r + ?w) k) = Some q"
      and "segment T (g + (r + ?w) + 1) (3 + k)
        (map H [g + (r + ?w) + 1..<min (g + (r + ?w) + 1 + ?w) (T + 1)]) q"
      and "g + (r + ?w) + 1 \<le> T \<longrightarrow> start_parent q = parent_of B parent H g (g + (r + ?w) + 1)"
    using Suc.IH [of "r + ?w"] Suc.prems by auto
  then have sq: "segment T (?a + 2 ^ (3 + k)) (3 + k) (map H [?a + ?w..<min (?a + 2 * ?w) (T + 1)]) q"
      and pq: "?a + ?w \<le> T \<longrightarrow> start_parent q = parent_of B parent H g (?a + ?w)"
    by (simp_all add: power_add algebra_simps)
  let ?hl = "map H [?a..<min (?a + ?w) (T + 1)]" and ?hq = "map H [?a + ?w..<min (?a + 2 * ?w) (T + 1)]"
  have link: "?hq = [] \<or> start_parent q = hash_encoded_header B (last ?hl)"
    by (rule range_link [OF pq]) simp_all
  have "?a + 2 * 2 ^ (3 + k) < 2 ^ 32"
    using Suc.prems by (simp add: power_add algebra_simps)
  then have "reduce_stage B l q = Some (joined l q)"
    using reduce_stage_eq [OF sl sq] link by (simp del: upt_Suc)
  moreover have "segment T ?a (Suc (3 + k)) (?hl @ ?hq) (joined l q)"
    using joined_segment [OF sl sq link] .
  moreover have "?hl @ ?hq = map H [?a..<min (?a + 2 * ?w) (T + 1)]"
    by (rule join_ranges)
  ultimately show ?case
    using l q pl by (simp add: relative_nums_Suc joined_def del: upt_Suc)
qed

end

section \<open>The subchain circuit\<close>

locale subchain_gadgets = plonky2x_gadgets B blake2b_256 ed25519_verify + plonky2x_mapreduce mapreduce
  for B blake2b_256 ed25519_verify mapreduce
begin

text \<open>The job tree of \<open>verify_subchain\<close>.\<close>

lemma verify_subchain_tree:
  assumes "next_power_of_two (M div 8) = 2 ^ k"
  shows "verify_subchain B mapreduce hint M trusted trusted_hash target = do {
      m \<leftarrow> batch_tree 8 (\<lambda>nums. map_stage B \<lparr>global_start_block = trusted, global_end_block = target\<rparr>
          nums (hint nums)) (reduce_stage B) k (relative_nums 0 k);
      if trusted_hash = start_parent m \<and> target = end_block m
      then Some \<lparr>target_header_hash = end_header_hash m, state_root_merkle_root = state_merkle_root m,
             data_root_merkle_root = data_merkle_root m\<rparr>
      else None }"
proof -
  have nums: "map of_nat [Suc 0..<Suc (2 ^ k * 8)] = relative_nums 0 k"
    by (simp add: relative_nums_def mult.commute del: upt_Suc)
  have "length (relative_nums 0 k) = HEADERS_PER_MAP * 2 ^ k"
    by (simp add: relative_nums_def HEADERS_PER_MAP_def del: upt_Suc)
  then show ?thesis
    unfolding verify_subchain_def Let_def
    by (auto simp: HEADERS_PER_MAP_def assms nums mapreduce_tree assert_is_equal_def
        intro!: arg_cong2 [where f = Option.bind] ext simp del: upt_Suc)
qed

lemma verify_subchain_accepted:
  assumes k: "next_power_of_two (M div 8) = 2 ^ k" and hint: "\<And>nums. length nums = 8 \<Longrightarrow> length (hint nums) = 8"
    and bound: "unat trusted + 1 + 8 * 2 ^ k < 2 ^ 32" and target: "target \<noteq> 0"
    and ok: "verify_subchain B mapreduce hint M trusted trusted_hash target = Some out"
  defines "hs \<equiv> take (unat target - unat trusted) (hinted hint 0 k)"
  shows "trusted < target" "length hs = unat target - unat trusted"
    "linked B trusted_hash (unat trusted + 1) hs"
    "target_header_hash out = hash_encoded_header B (last hs)"
    "state_root_merkle_root out = padded_root B (3 + k) (map (state_root_of B) hs)"
    "data_root_merkle_root out = padded_root B (3 + k) (map (data_root_of B) hs)"
proof -
  let ?ctx = "\<lparr>global_start_block = trusted, global_end_block = target\<rparr>"
  obtain m where m: "batch_tree 8 (\<lambda>nums. map_stage B ?ctx nums (hint nums)) (reduce_stage B) k
        (relative_nums 0 k) = Some m"
      and out: "trusted_hash = start_parent m" "target = end_block m"
        "out = \<lparr>target_header_hash = end_header_hash m, state_root_merkle_root = state_merkle_root m,
          data_root_merkle_root = data_merkle_root m\<rparr>"
    using ok unfolding verify_subchain_tree [OF k] by (auto elim!: bind_eq_SomeE split: if_splits)
  have seg: "segment (unat target) (unat trusted + 1) (3 + k) hs m"
    using tree_sound [of hint ?ctx 0 k m, OF hint _ m] bound by (simp add: hs_def)
  note s = segmentD [OF seg]
  have ne: "hs \<noteq> []"
    using s(4) target out(2) by auto
  have bound': "unat trusted + 1 + length hs \<le> unat trusted + 1 + 8 * 2 ^ k"
    using s(1) by (simp add: power_add)
  moreover have "target = of_nat (unat trusted + 1 + length hs - 1)"
    using s(4) ne out(2) by (simp only: if_False)
  ultimately have "unat target = unat trusted + 1 + length hs - 1"
    using bound unat_of_nat_small [of "unat trusted + 1 + length hs - 1", where 'a = 32] by simp
  then show "trusted < target" and "length hs = unat target - unat trusted"
    using ne by (simp_all add: word_less_nat_alt)
  show "linked B trusted_hash (unat trusted + 1) hs"
    using s(3) out(1) by simp
  show "target_header_hash out = hash_encoded_header B (last hs)"
    using s(5) ne out(3) by simp
  show "state_root_merkle_root out = padded_root B (3 + k) (map (state_root_of B) hs)"
    and "data_root_merkle_root out = padded_root B (3 + k) (map (data_root_of B) hs)"
    using s(7,8) out(3) by simp_all
qed

lemma verify_subchain_honest:
  fixes H
  assumes k: "next_power_of_two (M div 8) = 2 ^ k"
    and bound: "unat trusted + 1 + 8 * 2 ^ k < 2 ^ 32" and S: "69 \<le> S"
    and range: "trusted < target" "unat target \<le> unat trusted + 8 * 2 ^ k"
  defines "hs \<equiv> map H [unat trusted + 1..<unat target + 1]"
  assumes chain: "linked B trusted_hash (unat trusted + 1) hs"
  shows "verify_subchain B mapreduce (honest_headers S H (unat trusted) (unat target)) M
      trusted trusted_hash target =
    Some \<lparr>target_header_hash = hash_encoded_header B (H (unat target)),
      state_root_merkle_root = padded_root B (3 + k) (map (state_root_of B) hs),
      data_root_merkle_root = padded_root B (3 + k) (map (data_root_of B) hs)\<rparr>"
proof -
  let ?ctx = "\<lparr>global_start_block = trusted, global_end_block = target\<rparr>"
  let ?g = "unat trusted" and ?T = "unat target"
  have T: "?g < ?T"
    using range(1) by (simp add: word_less_nat_alt)
  obtain m where m: "batch_tree 8 (\<lambda>nums. map_stage B ?ctx nums (honest_headers S H ?g ?T nums))
        (reduce_stage B) k (relative_nums 0 k) = Some m"
      and seg: "segment ?T (?g + 1) (3 + k) (map H [?g + 1..<min (?g + 1 + 8 * 2 ^ k) (?T + 1)]) m"
      and start: "start_parent m = parent_of B trusted_hash H ?g (?g + 1)"
    using tree_complete [of trusted_hash ?ctx H S 0 k] chain S bound T
    by (auto simp: hs_def simp del: upt_Suc)
  have "min (?g + 1 + 8 * 2 ^ k) (?T + 1) = ?T + 1"
    using range(2) by simp
  then have s: "segment ?T (?g + 1) (3 + k) hs m"
    using seg by (simp only: hs_def)
  have "hs \<noteq> []" "length hs = ?T - ?g" "last hs = H ?T"
    using T by (simp_all add: hs_def last_map)
  then show ?thesis
    using segmentD(4,5,7,8) [OF s] start T unfolding verify_subchain_tree [OF k] m
    by (simp add: parent_of_def)
qed

end

interpretation refsub: subchain_gadgets "ref_gadgets h b v" "\<lambda>bs. pad32 (b bs)" v ref_mapreduce for h b v
  by unfold_locales

section \<open>An accepted chain\<close>

text \<open>Headers of small block numbers whose demonstration hash is zero, as is the parent hash.\<close>

definition demo_header :: "nat \<Rightarrow> EncodedHeader" where
  "demo_header b = \<lparr>header_bytes = zero32 @ [4 * of_nat b] @ replicate 67 0, header_size = 100\<rparr>"

lemma demo_header_hash: "hash_encoded_header demo_gadgets (demo_header b) = zero32"
  by (simp add: hash_encoded_header_def demo_header_def demo_gadgets_def ref_gadgets_def pad32_def)

lemma demo_header_of:
  assumes "b < 64"
  shows "header_of demo_gadgets (demo_header b) =
    Some \<lparr>hv_block_number = of_nat b, hv_parent_hash = zero32, hv_state_root = zero32,
      hv_data_root = zero32\<rparr>"
proof -
  have num: "subarray 32 37 (header_bytes (demo_header b)) = 4 * of_nat b # replicate 4 0"
    by (simp add: demo_header_def subarray_def)
  have bytes: "le_nat (4 * of_nat b # replicate 4 0) = 4 * b"
    using assms unat_of_nat_small [of "4 * b", where 'a = 8] by simp
  have len: "length (4 * of_nat b # replicate 4 (0 :: byte)) = 5"
    by simp
  have compact: "decode_compact_int demo_gadgets (4 * of_nat b # replicate 4 0) = Some (of_nat b, 0)"
    using assms unfolding plonky2x_gadgets.decode_compact_int_eq [OF demo_gadgets len] bytes
      compact_value_def by simp
  have size: "u32_sub demo_gadgets 100 32 = 68"
    by (simp add: demo_gadgets_def ref_gadgets_def)
  show ?thesis
    unfolding header_of_def decode_header_def const_simps
    by (simp add: num compact plonky2x_gadgets.select_bytes32 [OF demo_gadgets]
        plonky2x_gadgets.get_fixed_subarray [OF demo_gadgets]
        size)
      (simp add: demo_header_def subarray_def compact size)
qed

lemma demo_chain_linked: "linked demo_gadgets zero32 4 (map demo_header [4..<6])"
  by (simp add: demo_header_of demo_header_hash upt_rec)

lemma demo_subchain_gadgets: "subchain_gadgets demo_gadgets pad32 demo_verify ref_mapreduce"
  using refsub.subchain_gadgets_axioms [of "\<lambda>bs. bs" "\<lambda>bs. bs" demo_verify]
  by (simp add: demo_gadgets_def subchain_gadgets_def refmr.plonky2x_mapreduce_axioms
      refg.plonky2x_gadgets_axioms)

section \<open>Properties\<close>

text \<open>
  C7: for every choice of the hinted headers, an accepted subchain for a target block other
  than zero goes forward, and its first headers are one for each block after the trusted block
  up to the target block, with consecutive block numbers, each naming the hash of the previous
  one as its parent and the first one naming the trusted hash; the returned hash is the hash of
  the last one, and the two returned roots are the roots of the trees over their state and data
  roots, padded with empty leaves.
\<close>

theorem subchain_sound:
  assumes "subchain_gadgets B blake2b_256 ed25519_verify mapreduce"
    and "next_power_of_two (max_num_headers div HEADERS_PER_MAP) = 2 ^ k"
    and "\<forall>nums. length nums = HEADERS_PER_MAP \<longrightarrow> length (headers_hint nums) = HEADERS_PER_MAP"
    and "unat trusted_block + 1 + HEADERS_PER_MAP * 2 ^ k < 2 ^ 32" and "target_block \<noteq> 0"
    and "verify_subchain B mapreduce headers_hint max_num_headers trusted_block trusted_header_hash
      target_block = Some out"
  shows "trusted_block < target_block \<and>
    (\<exists>hs. hs = take (unat target_block - unat trusted_block) (hinted headers_hint 0 k) \<and>
       length hs = unat target_block - unat trusted_block \<and>
       linked B trusted_header_hash (unat trusted_block + 1) hs \<and>
       target_header_hash out = hash_encoded_header B (last hs) \<and>
       state_root_merkle_root out = padded_root B (3 + k) (map (state_root_of B) hs) \<and>
       data_root_merkle_root out = padded_root B (3 + k) (map (data_root_of B) hs))"
proof -
  note r = subchain_gadgets.verify_subchain_accepted [OF assms(1), of max_num_headers k headers_hint
      trusted_block target_block trusted_header_hash out]
  show ?thesis
    using r assms(2-6) by (auto simp: HEADERS_PER_MAP_def)
qed

text \<open>
  C11: every chain of headers from the trusted block to a target block within the range of the
  circuit is accepted when the hints supply it, padded with empty headers.
\<close>

theorem subchain_complete:
  assumes "subchain_gadgets B blake2b_256 ed25519_verify mapreduce"
    and "next_power_of_two (max_num_headers div HEADERS_PER_MAP) = 2 ^ k"
    and "unat trusted_block + 1 + HEADERS_PER_MAP * 2 ^ k < 2 ^ 32" and "69 \<le> S"
    and "trusted_block < target_block"
    and "unat target_block \<le> unat trusted_block + HEADERS_PER_MAP * 2 ^ k"
    and "hs = map H [unat trusted_block + 1..<unat target_block + 1]"
    and "linked B trusted_header_hash (unat trusted_block + 1) hs"
  shows "verify_subchain B mapreduce
      (honest_headers S H (unat trusted_block) (unat target_block)) max_num_headers
      trusted_block trusted_header_hash target_block =
    Some \<lparr>target_header_hash = hash_encoded_header B (H (unat target_block)),
      state_root_merkle_root = padded_root B (3 + k) (map (state_root_of B) hs),
      data_root_merkle_root = padded_root B (3 + k) (map (data_root_of B) hs)\<rparr>"
  using subchain_gadgets.verify_subchain_honest [OF assms(1), of max_num_headers k trusted_block S
      target_block trusted_header_hash H] assms(2-8)
  by (simp add: HEADERS_PER_MAP_def del: upt_Suc)

lemma demo_range_jobs: "next_power_of_two (8 div HEADERS_PER_MAP) = 2 ^ 0"
  by (simp add: next_power_of_two_def HEADERS_PER_MAP_def)

theorem subchain_complete_witness:
  "verify_subchain demo_gadgets ref_mapreduce (honest_headers 100 demo_header 3 5) 8 3 zero32 5 =
    Some \<lparr>target_header_hash = zero32,
      state_root_merkle_root = padded_root demo_gadgets 3 [zero32, zero32],
      data_root_merkle_root = padded_root demo_gadgets 3 [zero32, zero32]\<rparr>"
  using subchain_complete [OF demo_subchain_gadgets demo_range_jobs, of 3 100 5
      "map demo_header [4..<6]" demo_header zero32] demo_chain_linked
  by (simp add: HEADERS_PER_MAP_def demo_header_hash state_root_of_def data_root_of_def
      demo_header_of upt_rec)

lemma demo_subchain:
  "verify_subchain demo_gadgets ref_mapreduce (honest_headers 100 demo_header 3 5) 8 3 zero32 5 =
    Some \<lparr>target_header_hash = zero32,
      state_root_merkle_root = padded_root demo_gadgets 3 [zero32, zero32],
      data_root_merkle_root = padded_root demo_gadgets 3 [zero32, zero32]\<rparr>"
  using subchain_gadgets.verify_subchain_honest [OF demo_subchain_gadgets, of 8 0 3 100 5 zero32 demo_header]
    demo_chain_linked demo_range_jobs
  by (simp add: HEADERS_PER_MAP_def demo_header_hash state_root_of_def data_root_of_def
      demo_header_of upt_rec)

theorem subchain_sound_witness:
  "\<exists>hs. hs = take (unat (5 :: u32) - unat (3 :: u32)) (hinted (honest_headers 100 demo_header 3 5) 0 0) \<and>
     length hs = unat (5 :: u32) - unat (3 :: u32) \<and>
     linked demo_gadgets zero32 (unat (3 :: u32) + 1) hs"
proof -
  have "\<forall>nums. length nums = HEADERS_PER_MAP \<longrightarrow>
      length (honest_headers 100 demo_header 3 5 nums) = HEADERS_PER_MAP"
    and "unat (3 :: u32) + 1 + HEADERS_PER_MAP * 2 ^ 0 < 2 ^ 32" and "(5 :: u32) \<noteq> 0"
    by (simp_all add: HEADERS_PER_MAP_def honest_headers_def)
  from subchain_sound [OF demo_subchain_gadgets demo_range_jobs this demo_subchain]
  show ?thesis by blast
qed

end
