(* ===== verification/Justification.thy ===== *)
theory Justification
  imports Decoder
begin

text \<open>
  \<open>circuits/builder/justification.rs\<close>: the authority set commitment, the voting threshold and
  the verification of a simple GRANDPA justification. The justification itself comes from a
  hint, so it is an argument the prover chooses. The lemmas characterise exactly which
  justifications are accepted.
\<close>

section \<open>Gadgets\<close>

text \<open>One round of the commitment loop, at index \<open>i\<close>.\<close>

definition commitment_step ::
  "plonky2x \<Rightarrow> variable \<Rightarrow> bytes list \<Rightarrow> nat \<Rightarrow> bool \<times> bytes \<Rightarrow> bool \<times> bytes"
where
  "commitment_step B num_active_authorities authority_set_signers i state =
     (let (authority_enabled, commitment_so_far) = state;
          at_end = (i = num_active_authorities);
          authority_enabled = (authority_enabled \<and> \<not> at_end);
          chained_hash = curta_sha256 B (commitment_so_far @ authority_set_signers ! i)
      in (authority_enabled, if authority_enabled then chained_hash else commitment_so_far))"

definition compute_authority_set_commitment ::
  "plonky2x \<Rightarrow> nat \<Rightarrow> variable \<Rightarrow> bytes list \<Rightarrow> bytes option"
where
  "compute_authority_set_commitment B MAX_NUM_AUTHORITIES num_active_authorities
     authority_set_signers = do {
     let invalid_num_authorities = (num_active_authorities = 0);
     _ \<leftarrow> assert_is_equal invalid_num_authorities False;
     let commitment_so_far = curta_sha256 B (authority_set_signers ! 0);
     let (authority_enabled, commitment_so_far) =
       fold (commitment_step B num_active_authorities authority_set_signers)
         [1..<MAX_NUM_AUTHORITIES] (True, commitment_so_far);
     Some commitment_so_far
   }"

definition verify_voting_threshold ::
  "plonky2x \<Rightarrow> nat \<Rightarrow> u32 \<Rightarrow> bool list \<Rightarrow> u32 \<Rightarrow> u32 \<Rightarrow> unit option"
where
  "verify_voting_threshold B MAX_NUM_AUTHORITIES num_active_authorities validator_signed
     threshold_numerator threshold_denominator = do {
     let num_signed =
       fold (\<lambda>i num_signed. u32_add B num_signed (of_bool (validator_signed ! i)))
         [0..<MAX_NUM_AUTHORITIES] 0;
     let scaled_num_signed = u32_mul B num_signed threshold_denominator;
     let scaled_threshold = u32_mul B num_active_authorities threshold_numerator;
     let is_valid_num_signed = (scaled_threshold < scaled_num_signed);
     assert_is_equal is_valid_num_signed True
   }"

definition verify_simple_justification ::
  "plonky2x \<Rightarrow> nat \<Rightarrow> u32 \<Rightarrow> bytes \<Rightarrow> u64 \<Rightarrow> bytes \<Rightarrow> JustificationStruct \<Rightarrow> unit option"
where
  "verify_simple_justification B MAX_NUM_AUTHORITIES block_number block_hash authority_set_id
     authority_set_hash justification = do {
     computed_authority_set_commitment \<leftarrow>
       compute_authority_set_commitment B MAX_NUM_AUTHORITIES
         (unat (js_num_authorities justification)) (js_pubkeys justification);
     _ \<leftarrow> assert_is_equal authority_set_hash computed_authority_set_commitment;
     decoded_precommit \<leftarrow> decode_precommit B (js_encoded_precommit justification);
     _ \<leftarrow> assert_is_equal (pc_block_number decoded_precommit) block_number;
     _ \<leftarrow> assert_is_equal (pc_authority_set_id decoded_precommit) authority_set_id;
     _ \<leftarrow> assert_is_equal (pc_block_hash decoded_precommit) block_hash;
     let message_byte_lengths = replicate MAX_NUM_AUTHORITIES (of_nat ENCODED_PRECOMMIT_LENGTH);
     let messages = replicate MAX_NUM_AUTHORITIES (js_encoded_precommit justification);
     _ \<leftarrow> assert_is_equal
       (curta_eddsa_verify_sigs_conditional B (js_validator_signed justification)
          message_byte_lengths messages (js_signatures justification) (js_pubkeys justification))
       True;
     verify_voting_threshold B MAX_NUM_AUTHORITIES (js_num_authorities justification)
       (js_validator_signed justification) 2 3
   }"

section \<open>The chained hash of an authority set\<close>

text \<open>
  The commitment the documentation describes:
  \<open>SHA256(SHA256(SHA256(pubkey[0]) || pubkey[1]) || pubkey[2])\<close> and so on.
\<close>

definition chain_hash :: "(bytes \<Rightarrow> bytes) \<Rightarrow> bytes list \<Rightarrow> bytes" where
  "chain_hash h ks = foldl (\<lambda>acc k. h (acc @ k)) [] ks"

text \<open>The messages that are hashed on the way.\<close>

fun chain_inputs :: "(bytes \<Rightarrow> bytes) \<Rightarrow> bytes \<Rightarrow> bytes list \<Rightarrow> bytes list" where
  "chain_inputs h acc [] = []"
| "chain_inputs h acc (k # ks) = (acc @ k) # chain_inputs h (h (acc @ k)) ks"

lemma chain_hash_snoc: "chain_hash h (ks @ [k]) = h (chain_hash h ks @ k)"
  by (simp add: chain_hash_def)

lemma chain_inputs_snoc:
  "chain_inputs h acc (ks @ [k]) =
     chain_inputs h acc ks @ [foldl (\<lambda>acc k. h (acc @ k)) acc ks @ k]"
  by (induction ks arbitrary: acc) simp_all

lemma length_chain_hash:
  "(\<And>x. length (h x) = 32) \<Longrightarrow> length (chain_hash h ks) = (if ks = [] then 0 else 32)"
  by (cases ks rule: rev_cases) (simp_all add: chain_hash_snoc, simp add: chain_hash_def)

text \<open>
  The commitment determines the ordered list of keys, as long as the hash function has no
  collision among the messages hashed for the two lists.
\<close>

lemma chain_hash_inject:
  assumes "\<And>x. length (h x) = 32"
    and "inj_on h (set (chain_inputs h [] ks) \<union> set (chain_inputs h [] ls))"
    and "\<forall>k \<in> set ks. length k = 32" and "\<forall>l \<in> set ls. length l = 32"
    and "ks \<noteq> [] \<longleftrightarrow> ls \<noteq> []"
    and "chain_hash h ks = chain_hash h ls"
  shows "ks = ls"
  using assms
proof (induction ks arbitrary: ls rule: rev_induct)
  case Nil
  then show ?case by simp
next
  case (snoc k ks)
  from snoc.prems(5) obtain ms l where ls: "ls = ms @ [l]"
    by (cases ls rule: rev_cases) auto
  have eq: "h (chain_hash h ks @ k) = h (chain_hash h ms @ l)"
    using snoc.prems(6) by (simp add: ls chain_hash_snoc)
  have "chain_hash h ks @ k \<in> set (chain_inputs h [] (ks @ [k]))"
    and "chain_hash h ms @ l \<in> set (chain_inputs h [] ls)"
    by (simp_all add: ls chain_inputs_snoc chain_hash_def)
  then have pre: "chain_hash h ks @ k = chain_hash h ms @ l"
    by (intro inj_onD [OF snoc.prems(2) eq]) blast+
  have len: "length k = length l"
    using snoc.prems(3,4) by (simp add: ls)
  then have k: "k = l" and chain: "chain_hash h ks = chain_hash h ms"
    using pre by simp_all
  then have empty: "ks \<noteq> [] \<longleftrightarrow> ms \<noteq> []"
    using length_chain_hash [of h ks, OF snoc.prems(1)] length_chain_hash [of h ms, OF snoc.prems(1)]
    by (auto split: if_splits)
  have "inj_on h (set (chain_inputs h [] ks) \<union> set (chain_inputs h [] ms))"
    using snoc.prems(2) by (rule inj_on_subset) (auto simp: ls chain_inputs_snoc)
  then have "ks = ms"
    using snoc.IH [of ms] snoc.prems(1,3,4) empty chain by (simp add: ls)
  with k show ?case by (simp add: ls)
qed

section \<open>What the gadgets establish\<close>

context plonky2x_gadgets
begin

lemma commitment_loop:
  assumes "0 < num" and "Suc j \<le> length ks"
  shows "fold (commitment_step B num ks) [1..<Suc j] (True, curta_sha256 B (ks ! 0)) =
    (j < num, chain_hash (curta_sha256 B) (take (min num (Suc j)) ks))"
  using assms(2)
proof (induction j)
  case 0
  then obtain k ks' where "ks = k # ks'" by (cases ks) auto
  moreover have "min num (Suc 0) = Suc 0"
    using assms(1) by simp
  ultimately show ?case
    using assms(1) by (simp add: chain_hash_def)
next
  case (Suc j)
  have IH: "fold (commitment_step B num ks) [1..<Suc j] (True, curta_sha256 B (ks ! 0)) =
      (j < num, chain_hash (curta_sha256 B) (take (min num (Suc j)) ks))"
    using Suc by simp
  have "take (Suc (Suc j)) ks = take (Suc j) ks @ [ks ! Suc j]"
    using Suc.prems by (simp add: take_Suc_conv_app_nth)
  then have chain: "chain_hash (curta_sha256 B) (take (Suc (Suc j)) ks) =
      curta_sha256 B (chain_hash (curta_sha256 B) (take (Suc j) ks) @ ks ! Suc j)"
    by (simp add: chain_hash_snoc)
  have "fold (commitment_step B num ks) [1..<Suc (Suc j)] (True, curta_sha256 B (ks ! 0)) =
      commitment_step B num ks (Suc j)
        (j < num, chain_hash (curta_sha256 B) (take (min num (Suc j)) ks))"
    using IH by simp
  also have "\<dots> = (Suc j < num, chain_hash (curta_sha256 B) (take (min num (Suc (Suc j))) ks))"
    by (cases "Suc j < num") (auto simp: commitment_step_def Let_def min_absorb1 min_absorb2 chain)
  finally show ?case .
qed

text \<open>
  The commitment is the chained hash of the first \<open>num\<close> keys, of all of them if there are
  fewer than \<open>num\<close>.
\<close>

lemma compute_authority_set_commitment_eq:
  assumes "length ks = N" and "0 < N"
  shows "compute_authority_set_commitment B N num ks =
    (if num = 0 then None else Some (chain_hash (curta_sha256 B) (take num ks)))"
proof (cases "num = 0")
  case True
  then show ?thesis by (simp add: compute_authority_set_commitment_def)
next
  case False
  obtain j where N: "N = Suc j" using assms(2) by (cases N) auto
  have "take (min num N) ks = take num ks"
    using assms(1) by (simp add: min_def)
  with False commitment_loop [of num j ks] show ?thesis
    by (simp add: compute_authority_set_commitment_def assms(1) N del: upt_Suc)
qed

lemma num_signed_loop:
  assumes "j < 2 ^ 32"
  shows "fold (\<lambda>i n. u32_add B n (of_bool (flags ! i))) [0..<j] 0 =
    of_nat (length (filter ((!) flags) [0..<j]))"
  using assms
proof (induction j)
  case 0
  then show ?case by simp
next
  case (Suc j)
  let ?n = "length (filter ((!) flags) [0..<j])"
  have bound: "?n \<le> j"
    using length_filter_le [of "(!) flags" "[0..<j]"] by simp
  then have "unat (of_nat ?n :: u32) = ?n"
    using Suc.prems by (simp add: unat_of_nat)
  moreover have "unat (of_bool (flags ! j) :: u32) \<le> 1"
    by (cases "flags ! j") simp_all
  ultimately have "u32_add B (of_nat ?n) (of_bool (flags ! j)) = of_nat ?n + of_bool (flags ! j)"
    using bound Suc.prems by (intro u32_add_exact) linarith
  with Suc show ?case by (simp add: add.commute)
qed

text \<open>The number of slots of the array that are marked as signed.\<close>

lemma verify_voting_threshold_iff:
  assumes len: "length flags = N" and N: "N < 2 ^ 30" and num: "unat num < 2 ^ 31"
  shows "verify_voting_threshold B N num flags 2 3 = Some () \<longleftrightarrow>
    2 * unat num < 3 * length (filter id flags)"
proof -
  let ?n = "length (filter ((!) flags) [0..<N])"
  have count: "?n = length (filter id flags)"
    using count_flags [of flags] len by simp
  have bound: "?n \<le> N"
    using length_filter_le [of "(!) flags" "[0..<N]"] by simp
  then have un: "unat (of_nat ?n :: u32) = ?n"
    using N by (simp add: unat_of_nat)
  have "u32_mul B (of_nat ?n) 3 = of_nat ?n * 3"
    by (rule u32_mul_exact) (use un bound N in simp)
  moreover have "unat (of_nat ?n * 3 :: u32) = ?n * 3"
    using un bound N by (simp add: unat_word_ariths)
  moreover have "u32_mul B num 2 = num * 2"
    by (rule u32_mul_exact) (use num in simp)
  moreover have "unat (num * 2) = unat num * 2"
    using num by (simp add: unat_word_ariths)
  ultimately show ?thesis
    using num_signed_loop [of N flags] N
    by (simp add: verify_voting_threshold_def count word_less_nat_alt mult.commute)
qed

text \<open>
  Which justifications are accepted, in full. The last conjunct counts the marked slots of
  the whole array.
\<close>

lemma verify_simple_justification_iff:
  assumes wf: "wf_justification N j" and N: "0 < N" "N < 2 ^ 30"
    and num: "unat (js_num_authorities j) < 2 ^ 31"
    and bh: "length block_hash = 32"
  shows "verify_simple_justification B N block_number block_hash set_id set_hash j = Some () \<longleftrightarrow>
    js_num_authorities j \<noteq> 0 \<and>
    set_hash = chain_hash (curta_sha256 B) (take (unat (js_num_authorities j)) (js_pubkeys j)) \<and>
    (\<exists>round. js_encoded_precommit j = encode_precommit block_hash block_number round set_id) \<and>
    (\<forall>i < N. js_validator_signed j ! i \<longrightarrow>
       ed25519_verify (js_pubkeys j ! i) (js_encoded_precommit j) (js_signatures j ! i)) \<and>
    2 * unat (js_num_authorities j) < 3 * length (filter id (js_validator_signed j))"
    (is "?accepted \<longleftrightarrow> ?nonzero \<and> ?hash \<and> ?precommit \<and> ?sigs \<and> ?votes")
proof -
  have len: "length (js_pubkeys j) = N" "length (js_validator_signed j) = N"
    "length (js_encoded_precommit j) = 53"
    using wf by (simp_all add: wf_justification_def wf_pubkeys_def ENCODED_PRECOMMIT_LENGTH_def)
  have fields: "?precommit \<longleftrightarrow>
      (\<exists>p. decode_precommit B (js_encoded_precommit j) = Some p \<and> pc_block_number p = block_number \<and>
           pc_authority_set_id p = set_id \<and> pc_block_hash p = block_hash)"
    using decode_encode_precommit [OF bh] encode_decode_precommit [of "js_encoded_precommit j"] wf
    by (fastforce simp: wf_justification_def)
  have sigs: "?sigs \<longleftrightarrow> curta_eddsa_verify_sigs_conditional B (js_validator_signed j)
      (replicate N (of_nat ENCODED_PRECOMMIT_LENGTH)) (replicate N (js_encoded_precommit j))
      (js_signatures j) (js_pubkeys j)"
    using len by (simp add: curta_eddsa ENCODED_PRECOMMIT_LENGTH_def)
  have votes: "?votes \<longleftrightarrow> verify_voting_threshold B N (js_num_authorities j)
      (js_validator_signed j) 2 3 = Some ()"
    using verify_voting_threshold_iff [OF len(2) N(2) num] by simp
  show ?thesis
    unfolding fields sigs votes
    using compute_authority_set_commitment_eq [OF len(1) N(1)]
    by (auto simp: verify_simple_justification_def bind_eq_Some_conv unat_eq_zero)
qed

lemmas verify_simple_justification_accepted =
  verify_simple_justification_iff [THEN iffD1]

text \<open>
  Marked slots that belong to the declared authorities come from more than two thirds of the
  trusted set.
\<close>

lemma supermajority_of_trusted_set:
  assumes "wf_justification N j" and "0 < N" "N < 2 ^ 30" and "length block_hash = 32"
    and "unat (js_num_authorities j) \<le> N"
    and "auths \<noteq> []" and "\<forall>k \<in> set auths. length k = 32"
    and "inj_on (curta_sha256 B)
      (set (chain_inputs (curta_sha256 B) [] (take (unat (js_num_authorities j)) (js_pubkeys j)))
       \<union> set (chain_inputs (curta_sha256 B) [] auths))"
    and "\<forall>i < N. unat (js_num_authorities j) \<le> i \<longrightarrow> \<not> js_validator_signed j ! i"
    and "verify_simple_justification B N block_number block_hash set_id
      (chain_hash (curta_sha256 B) auths) j = Some ()"
  shows "\<exists>round. 2 * length auths <
    3 * card {i. i < length auths \<and>
      ed25519_verify (auths ! i) (encode_precommit block_hash block_number round set_id)
        (js_signatures j ! i)}"
proof -
  let ?n = "unat (js_num_authorities j)"
  have n: "?n < 2 ^ 31"
    using assms(3,5) by simp
  note acc = verify_simple_justification_accepted [OF assms(1,2,3) n assms(4,10)]
  have keys: "wf_pubkeys N (js_pubkeys j)" and flags: "length (js_validator_signed j) = N"
    using assms(1) by (simp_all add: wf_justification_def)
  have "take ?n (js_pubkeys j) = auths"
  proof (rule chain_hash_inject [where h = "curta_sha256 B"])
    show "\<forall>k \<in> set (take ?n (js_pubkeys j)). length k = 32"
      using keys by (auto simp: wf_pubkeys_def list_all_iff dest: in_set_takeD)
    show "take ?n (js_pubkeys j) \<noteq> [] \<longleftrightarrow> auths \<noteq> []"
      using acc assms(2,6) keys by (auto simp: wf_pubkeys_def unat_eq_zero)
  qed (use assms acc length_curta_sha256 in auto)
  then have auths: "length auths = ?n" "\<And>i. i < ?n \<Longrightarrow> auths ! i = js_pubkeys j ! i"
    using assms(5) keys by (auto simp: wf_pubkeys_def)
  obtain round where m: "js_encoded_precommit j = encode_precommit block_hash block_number round set_id"
    using acc by blast
  have "length (filter id (js_validator_signed j)) = card {i. i < N \<and> js_validator_signed j ! i}"
    using flags by (simp add: length_filter_conv_card)
  moreover have "{i. i < N \<and> js_validator_signed j ! i} \<subseteq> {i. i < length auths \<and>
      ed25519_verify (auths ! i) (encode_precommit block_hash block_number round set_id)
        (js_signatures j ! i)}"
    using acc auths assms(9) by (auto simp: m [symmetric] not_le [symmetric])
  then have "card {i. i < N \<and> js_validator_signed j ! i} \<le> card {i. i < length auths \<and>
      ed25519_verify (auths ! i) (encode_precommit block_hash block_number round set_id)
        (js_signatures j ! i)}"
    by (rule card_mono [rotated]) simp
  ultimately show ?thesis
    using acc auths(1) by (intro exI [of _ round]) linarith
qed

end

section \<open>An accepted justification\<close>

text \<open>One authority out of one signs; the second slot of the array is padding.\<close>

definition demo_justification :: JustificationStruct where
  "demo_justification =
     \<lparr>js_encoded_precommit = encode_precommit zero32 5 1 9,
      js_validator_signed = [True, False],
      js_signatures = replicate 2 \<lparr>sig_r = replicate 32 7, sig_s = 0\<rparr>,
      js_pubkeys = [replicate 32 7, zero32],
      js_num_authorities = 1\<rparr>"

lemma demo_justification_wf: "wf_justification 2 demo_justification"
  by (simp add: demo_justification_def wf_justification_def wf_pubkeys_def encode_precommit_def
      ENCODED_PRECOMMIT_LENGTH_def)

lemma demo_justification_accepted:
  "verify_simple_justification demo_gadgets 2 5 zero32 9
     (chain_hash (curta_sha256 demo_gadgets) [replicate 32 7]) demo_justification = Some ()"
  by (subst plonky2x_gadgets.verify_simple_justification_iff [OF demo_gadgets demo_justification_wf])
    (auto simp: demo_justification_def demo_verify_def less_2_cases_iff)

section \<open>Properties\<close>

text \<open>
  C24: the authority set commitment of the circuit is the documented chained hash of the first
  \<open>num\<close> public keys of the array, for every \<open>num\<close> above zero, and the constraints cannot
  be satisfied for zero.
\<close>

theorem authority_set_commitment_is_chained_hash:
  assumes "plonky2x_gadgets B blake2b_256 ed25519_verify"
    and "length ks = N" and "0 < N"
  shows "compute_authority_set_commitment B N num ks =
    (if num = 0 then None else Some (chain_hash (curta_sha256 B) (take num ks)))"
  using plonky2x_gadgets.compute_authority_set_commitment_eq [OF assms] .

theorem authority_set_commitment_is_chained_hash_witness:
  "compute_authority_set_commitment demo_gadgets 3 2 [replicate 32 1, replicate 32 2, replicate 32 3] =
     Some (chain_hash (curta_sha256 demo_gadgets) [replicate 32 1, replicate 32 2])"
  using authority_set_commitment_is_chained_hash [OF demo_gadgets,
      of "[replicate 32 1, replicate 32 2, replicate 32 3]" 3 2]
  by simp

text \<open>
  C8: a justification the circuit accepts for a trusted authority set, in which no slot
  beyond the declared number of authorities is marked as signed, carries valid signatures on
  one precommit for the given block and set id from more than two thirds of the trusted set.
  The hash function is assumed to have no collision among the messages hashed for the two
  commitments.
\<close>

theorem accepted_justification_supermajority:
  assumes "plonky2x_gadgets B blake2b_256 ed25519_verify"
    and "wf_justification N j" and "0 < N" "N < 2 ^ 30" and "length block_hash = 32"
    and "unat (js_num_authorities j) \<le> N"
    and "auths \<noteq> []" and "\<forall>k \<in> set auths. length k = 32"
    and "inj_on (curta_sha256 B)
      (set (chain_inputs (curta_sha256 B) [] (take (unat (js_num_authorities j)) (js_pubkeys j)))
       \<union> set (chain_inputs (curta_sha256 B) [] auths))"
    and "\<forall>i < N. unat (js_num_authorities j) \<le> i \<longrightarrow> \<not> js_validator_signed j ! i"
    and "verify_simple_justification B N block_number block_hash set_id
      (chain_hash (curta_sha256 B) auths) j = Some ()"
  shows "\<exists>round. 2 * length auths <
    3 * card {i. i < length auths \<and>
      ed25519_verify (auths ! i) (encode_precommit block_hash block_number round set_id)
        (js_signatures j ! i)}"
  using plonky2x_gadgets.supermajority_of_trusted_set [OF assms] .

theorem accepted_justification_supermajority_witness:
  "\<exists>round. 2 * length [replicate 32 (7 :: byte)] <
    3 * card {i. i < length [replicate 32 (7 :: byte)] \<and>
      demo_verify ([replicate 32 7] ! i) (encode_precommit zero32 5 round 9)
        (js_signatures demo_justification ! i)}"
  by (rule accepted_justification_supermajority
      [OF demo_gadgets demo_justification_wf, where auths = "[replicate 32 (7 :: byte)]"])
    (simp_all add: demo_justification_accepted, simp_all add: demo_justification_def less_2_cases_iff)

text \<open>
  C36: the threshold counts marked slots of the padding. Whoever holds one key pair can choose
  that key for every slot beyond the real authorities, which the commitment does not cover,
  and sign any block hash with it: the circuit accepts this justification under the
  commitment of an authority set none of whose members signed.
\<close>

theorem padding_slots_count_as_votes:
  assumes "plonky2x_gadgets B blake2b_256 ed25519_verify"
    and "auths \<noteq> []" and "\<forall>k \<in> set auths. length k = 32" and "length auths < N" and "N < 2 ^ 30"
    and "2 * length auths < 3 * (N - length auths)"
    and "length key = 32" and "length block_hash = 32"
    and "ed25519_verify key (encode_precommit block_hash block_number round set_id) sig"
  shows "verify_simple_justification B N block_number block_hash set_id
    (chain_hash (curta_sha256 B) auths)
    \<lparr>js_encoded_precommit = encode_precommit block_hash block_number round set_id,
     js_validator_signed = replicate (length auths) False @ replicate (N - length auths) True,
     js_signatures = replicate N sig,
     js_pubkeys = auths @ replicate (N - length auths) key,
     js_num_authorities = of_nat (length auths)\<rparr> = Some ()"
proof -
  let ?j = "\<lparr>js_encoded_precommit = encode_precommit block_hash block_number round set_id,
     js_validator_signed = replicate (length auths) False @ replicate (N - length auths) True,
     js_signatures = replicate N sig,
     js_pubkeys = auths @ replicate (N - length auths) key,
     js_num_authorities = of_nat (length auths)\<rparr>"
  have num: "unat (js_num_authorities ?j) = length auths"
    using assms(4,5) by (simp add: unat_of_nat)
  have wf: "wf_justification N ?j"
    using assms by (simp add: wf_justification_def wf_pubkeys_def encode_precommit_def
        ENCODED_PRECOMMIT_LENGTH_def list_all_iff)
  have "0 < length auths" "unat (js_num_authorities ?j) < 2 ^ 31"
    using assms(2,4,5) num by simp_all
  then show ?thesis
    using num assms(3,4,5,6,8,9)
    by (subst plonky2x_gadgets.verify_simple_justification_iff [OF assms(1) wf])
      (auto simp: nth_append unat_eq_zero)
qed

theorem padding_slots_count_as_votes_witness:
  "verify_simple_justification demo_gadgets 3 77 zero32 9
    (chain_hash (curta_sha256 demo_gadgets) [replicate 32 7])
    \<lparr>js_encoded_precommit = encode_precommit zero32 77 1 9,
     js_validator_signed = False # replicate 2 True,
     js_signatures = replicate 3 \<lparr>sig_r = replicate 32 66, sig_s = 0\<rparr>,
     js_pubkeys = replicate 32 7 # replicate 2 (replicate 32 66),
     js_num_authorities = 1\<rparr> = Some ()"
  using padding_slots_count_as_votes [OF demo_gadgets, where auths = "[replicate 32 7]" and N = 3
      and key = "replicate 32 66" and block_hash = zero32 and block_number = 77 and round = 1
      and set_id = 9 and sig = "\<lparr>sig_r = replicate 32 66, sig_s = 0\<rparr>"]
  by (simp add: demo_verify_def)

end
