(* ===== verification/Host_Crypto.thy ===== *)
theory Host_Crypto
  imports Subchain Justification
begin

text \<open>
  The free functions and the Merkle root of \<open>circuits/input/mod.rs\<close>: signature checks, the
  authority set hash, the precommit decoder, the simple Merkle tree. The hash function and the
  signature check are crates, so they are arguments. The lemmas relate each function to the
  gadget that computes the same thing in the circuit.
\<close>

section \<open>Definitions\<close>

text \<open>
  \<open>verifying_key\<close> is \<open>VerifyingKey::from_bytes\<close>: whether the bytes are a key;
  \<open>ed25519_check\<close> is \<open>verify\<close> on the key, the message and the 64 bytes of the signature.
\<close>

definition verify_signature ::
  "(bytes \<Rightarrow> bool) \<Rightarrow> (bytes \<Rightarrow> bytes \<Rightarrow> bytes \<Rightarrow> bool) \<Rightarrow> bytes \<Rightarrow> bytes \<Rightarrow> bytes \<Rightarrow> unit result"
where
  "verify_signature verifying_key ed25519_check pubkey_bytes signed_message signature =
     and_then (ensure (verifying_key pubkey_bytes) unwrap_err)
       (\<lambda>_. ensure (ed25519_check pubkey_bytes signed_message signature) ''Signature is not valid'')"

definition compute_authority_set_hash :: "(bytes \<Rightarrow> bytes) \<Rightarrow> bytes list \<Rightarrow> bytes" where
  "compute_authority_set_hash sha256 authorities =
     fold (\<lambda>i hash_so_far. sha256 (hash_so_far @ authorities ! i)) [0..<length authorities] []"

definition from_le_bytes :: "bytes \<Rightarrow> 'a::len word" where
  "from_le_bytes bs = of_nat (le_nat bs)"

definition from_be_bytes :: "bytes \<Rightarrow> 'a::len word" where
  "from_be_bytes bs = of_nat (be_nat bs)"

definition host_decode_precommit :: "bytes \<Rightarrow> (bytes \<times> u32 \<times> u64 \<times> u64) result" where
  "host_decode_precommit precommit =
     and_then (index precommit 0) (\<lambda>first.
     and_then (ensure (first = 1) ''assertion `left == right` failed'') (\<lambda>_.
     and_then (index_range precommit 1 33) (\<lambda>block_hash.
     and_then (index_range precommit 33 37) (\<lambda>block_number.
     and_then (index_range precommit 37 45) (\<lambda>round.
     and_then (index_range precommit 45 53) (\<lambda>authority_set_id.
     Inr (block_hash, from_le_bytes block_number, from_le_bytes round,
          from_le_bytes authority_set_id)))))))"

subsection \<open>The Merkle root\<close>

fun count_ones :: "nat \<Rightarrow> nat" where
  "count_ones n = (if n = 0 then 0 else n mod 2 + count_ones (n div 2))"

declare count_ones.simps [simp del]

lemma count_ones_0 [simp]: "count_ones 0 = 0"
  by (simp add: count_ones.simps)

lemma count_ones_eq_0: "count_ones n = 0 \<longleftrightarrow> n = 0"
  by (induction n rule: count_ones.induct) (subst count_ones.simps, auto)

lemma count_ones_eq_1: "count_ones n = 1 \<longleftrightarrow> (\<exists>k. n = 2 ^ k)"
proof (induction n rule: count_ones.induct)
  case (1 n)
  show ?case
  proof (cases "n = 0")
    case False
    have "count_ones n = n mod 2 + count_ones (n div 2)"
      using False by (subst count_ones.simps) simp
    show ?thesis
    proof (cases "even n")
      case True
      then obtain m where m: "n = 2 * m" by blast
      then have "count_ones n = count_ones m"
        using \<open>count_ones n = n mod 2 + count_ones (n div 2)\<close> by simp
      moreover have "(\<exists>k. n = 2 ^ k) \<longleftrightarrow> (\<exists>k. m = 2 ^ k)"
      proof
        assume "\<exists>k. n = 2 ^ k"
        then obtain k where k: "n = 2 ^ k" by blast
        with True have "k \<noteq> 0" by (metis One_nat_def odd_one power_0)
        then show "\<exists>k. m = 2 ^ k"
          using k m by (cases k) auto
      next
        assume "\<exists>k. m = 2 ^ k"
        then show "\<exists>k. n = 2 ^ k"
          using m by (metis power_Suc)
      qed
      ultimately show ?thesis
        using 1 [OF False] m by simp
    next
      case odd: False
      then have "count_ones n = 1 \<longleftrightarrow> n div 2 = 0"
        using \<open>count_ones n = n mod 2 + count_ones (n div 2)\<close>
        by (simp add: odd_iff_mod_2_eq_one count_ones_eq_0)
      also have "\<dots> \<longleftrightarrow> n = 1"
        using odd by (auto elim!: oddE)
      also have "\<dots> \<longleftrightarrow> (\<exists>k. n = 2 ^ k)"
        using odd by (metis One_nat_def even_power even_numeral power_0 neq0_conv)
      finally show ?thesis .
    qed
  qed simp
qed

lemma count_ones_power [simp]: "count_ones (2 ^ k) = Suc 0"
  using count_ones_eq_1 [of "2 ^ k"] by auto

lemma next_power_of_two_least:
  assumes "n \<le> 2 ^ k"
  shows "next_power_of_two n \<le> 2 ^ k"
proof -
  let ?ps = "map (\<lambda>k. 2 ^ k :: nat) [0..<Suc n]"
  define j where "j = min k n"
  have j: "(2 :: nat) ^ j \<in> set (filter (\<lambda>p. n \<le> p) ?ps)"
    using assms less_exp [of n] by (auto simp: j_def min_def)
  have "sorted (filter (\<lambda>p. n \<le> p) ?ps)"
    by (intro sorted_wrt_filter) (simp add: sorted_map sorted_wrt_upt del: upt_Suc)
  moreover have "hd xs \<le> x" if "sorted xs" "x \<in> set xs" for xs and x :: nat
    using that by (cases xs) auto
  ultimately have "hd (filter (\<lambda>p. n \<le> p) ?ps) \<le> 2 ^ j"
    using j by blast
  also have "(2 :: nat) ^ j \<le> 2 ^ k"
    by (simp add: j_def)
  finally show ?thesis
    by (simp add: next_power_of_two_def)
qed

lemma next_power_of_two_ge: "n \<le> next_power_of_two n"
  using next_power_of_two [of n] by auto

text \<open>The two \<open>while\<close> loops.\<close>

function extend_leaves :: "bytes list \<Rightarrow> bytes list" where
  "extend_leaves leaves =
     (if count_ones (length leaves) \<noteq> 1 then extend_leaves (leaves @ [zero32]) else leaves)"
  by pat_completeness auto
termination
proof (relation "measure (\<lambda>leaves. next_power_of_two (length leaves) - length leaves)")
  fix leaves :: "bytes list"
  let ?n = "length leaves"
  assume "count_ones ?n \<noteq> 1"
  obtain k where k: "next_power_of_two ?n = 2 ^ k" "?n \<le> 2 ^ k"
    using next_power_of_two by blast
  then have "?n < 2 ^ k"
    using \<open>count_ones ?n \<noteq> 1\<close> by (auto simp: le_less)
  then show "(leaves @ [zero32], leaves) \<in> measure (\<lambda>leaves. next_power_of_two (length leaves) - length leaves)"
    using k next_power_of_two_least [of "Suc ?n" k] by simp
qed simp

definition hash_pairs :: "(bytes \<Rightarrow> bytes) \<Rightarrow> bytes list \<Rightarrow> bytes list" where
  "hash_pairs sha256 nodes =
     map (\<lambda>i. sha256 (nodes ! (2 * i) @ nodes ! (2 * i + 1))) [0..<length nodes div 2]"

function hash_levels :: "(bytes \<Rightarrow> bytes) \<Rightarrow> bytes list \<Rightarrow> bytes list" where
  "hash_levels sha256 nodes =
     (if 1 < length nodes then hash_levels sha256 (hash_pairs sha256 nodes) else nodes)"
  by pat_completeness auto
termination
  by (relation "measure (\<lambda>(_, nodes). length nodes)") (auto simp: hash_pairs_def)

declare extend_leaves.simps [simp del]

declare hash_levels.simps [simp del]

definition get_merkle_root :: "(bytes \<Rightarrow> bytes) \<Rightarrow> bytes list \<Rightarrow> bytes" where
  "get_merkle_root sha256 leaves =
     (if leaves = [] then [] else hash_levels sha256 (extend_leaves leaves) ! 0)"

section \<open>The Merkle root by levels and by halves\<close>

lemma hash_pairs_append:
  assumes "even (length xs)"
  shows "hash_pairs h (xs @ ys) = hash_pairs h xs @ hash_pairs h ys"
proof -
  obtain m where m: "length xs = 2 * m"
    using assms by blast
  have "[0..<(length xs + length ys) div 2] = [0..<m] @ [m..<m + length ys div 2]"
    by (simp add: m upt_join)
  moreover have "map (\<lambda>i. h ((xs @ ys) ! (2 * i) @ (xs @ ys) ! (2 * i + 1))) [m..<m + length ys div 2] =
      hash_pairs h ys"
    unfolding hash_pairs_def map_add_upt [symmetric, of m]
    by (auto simp: m nth_append add.commute intro!: nth_equalityI)
  ultimately show ?thesis
    by (simp add: hash_pairs_def m nth_append)
qed

lemma length_hash_pairs [simp]: "length (hash_pairs h xs) = length xs div 2"
  by (simp add: hash_pairs_def)

lemma hash_levels_single: "length xs = 1 \<Longrightarrow> hash_levels h xs = xs"
  by (subst hash_levels.simps) simp

lemma hash_levels_step: "1 < length xs \<Longrightarrow> hash_levels h (hash_pairs h xs) = hash_levels h xs"
  by (subst (2) hash_levels.simps) simp

text \<open>Level by level, the two halves of the leaves do not meet before the root.\<close>

lemma hash_levels_halves:
  assumes "length xs = 2 ^ k" and "length ys = 2 ^ k"
  shows "hash_levels h (xs @ ys) = [h (hash_levels h xs ! 0 @ hash_levels h ys ! 0)]"
  using assms
proof (induction k arbitrary: xs ys)
  case 0
  then obtain x y where "xs = [x]" "ys = [y]"
    by (auto simp: length_Suc_conv)
  then show ?case
    by (subst hash_levels.simps) (simp add: hash_levels_single hash_pairs_def)
next
  case (Suc k)
  have "1 < (2 :: nat) ^ Suc k"
    by (rule one_less_power) simp_all
  then have long: "1 < length xs" "1 < length ys"
    by (simp_all only: Suc.prems)
  then have "hash_levels h (xs @ ys) = hash_levels h (hash_pairs h xs @ hash_pairs h ys)"
    using Suc.prems hash_levels_step [of "xs @ ys" h] by (simp add: hash_pairs_append)
  also have "\<dots> = [h (hash_levels h (hash_pairs h xs) ! 0 @ hash_levels h (hash_pairs h ys) ! 0)]"
    using Suc by simp
  also have "\<dots> = [h (hash_levels h xs ! 0 @ hash_levels h ys ! 0)]"
    using long by (simp only: hash_levels_step)
  finally show ?case .
qed

lemma hash_levels_merkle_tree:
  "length xs = 2 ^ k \<Longrightarrow> hash_levels h xs = [merkle_tree h k xs]"
proof (induction k arbitrary: xs)
  case 0
  then show ?case by (cases xs) (simp_all add: hash_levels_single)
next
  case (Suc k)
  let ?l = "take (2 ^ k) xs" and ?r = "drop (2 ^ k) xs"
  have "hash_levels h (?l @ ?r) = [h (hash_levels h ?l ! 0 @ hash_levels h ?r ! 0)]"
    using Suc.prems by (intro hash_levels_halves [of _ k]) simp_all
  then show ?case
    using Suc by simp
qed

lemma extend_leaves_power: "length leaves = 2 ^ k \<Longrightarrow> extend_leaves leaves = leaves"
  by (subst extend_leaves.simps) simp

lemma extend_leaves_eq:
  "extend_leaves leaves =
     leaves @ replicate (next_power_of_two (length leaves) - length leaves) zero32"
proof (induction leaves rule: extend_leaves.induct)
  case (1 leaves)
  let ?n = "length leaves"
  obtain k where k: "next_power_of_two ?n = 2 ^ k" "?n \<le> 2 ^ k"
    using next_power_of_two by blast
  show ?case
  proof (cases "count_ones ?n = 1")
    case True
    then obtain j where j: "?n = 2 ^ j"
      using count_ones_eq_1 by blast
    then have "next_power_of_two ?n = ?n"
      using next_power_of_two_least [of ?n j] next_power_of_two_ge [of ?n] by simp
    then show ?thesis
      using extend_leaves_power [OF j] by simp
  next
    case False
    then have n: "?n < 2 ^ k"
      using k by (auto simp: le_less)
    then have "next_power_of_two (Suc ?n) \<le> 2 ^ k"
      by (intro next_power_of_two_least) simp
    moreover obtain i where i: "next_power_of_two (Suc ?n) = 2 ^ i" "Suc ?n \<le> 2 ^ i"
      using next_power_of_two by blast
    then have "2 ^ k \<le> next_power_of_two (Suc ?n)"
      using next_power_of_two_least [of ?n i] k by simp
    ultimately have "next_power_of_two (Suc ?n) = 2 ^ k"
      by simp
    moreover have "extend_leaves leaves = extend_leaves (leaves @ [zero32])"
      using False by (subst extend_leaves.simps) simp
    ultimately show ?thesis
      using 1 False n k by (simp add: Suc_diff_Suc flip: replicate_Suc)
  qed
qed

lemma get_merkle_root_eq:
  assumes "leaves \<noteq> []" and "next_power_of_two (length leaves) = 2 ^ k"
  shows "get_merkle_root h leaves =
    merkle_tree h k (leaves @ replicate (2 ^ k - length leaves) zero32)"
proof -
  have "length (extend_leaves leaves) = 2 ^ k"
    using assms(2) next_power_of_two_ge [of "length leaves"] by (simp add: extend_leaves_eq)
  from hash_levels_merkle_tree [OF this, of h] show ?thesis
    using assms by (simp add: get_merkle_root_def extend_leaves_eq)
qed

section \<open>The other functions\<close>

lemma compute_authority_set_hash_eq: "compute_authority_set_hash h ks = chain_hash h ks"
proof -
  have "fold (\<lambda>i acc. h (acc @ ks ! i)) [0..<j] [] = chain_hash h (take j ks)" if "j \<le> length ks" for j
    using that
  proof (induction j)
    case 0
    then show ?case by (simp add: chain_hash_def)
  next
    case (Suc j)
    then show ?case by (simp add: take_Suc_conv_app_nth chain_hash_snoc)
  qed
  from this [of "length ks"] show ?thesis
    by (simp add: compute_authority_set_hash_def)
qed

lemma verify_signature_ok:
  "verify_signature vk check key msg sig = Inr u \<longleftrightarrow> vk key \<and> check key msg sig"
  by (auto simp: verify_signature_def and_then_eq_Inr ensure_eq_Inr)

lemma host_decode_precommit_eq:
  assumes "length bs = 53"
  shows "host_decode_precommit bs =
    (if bs ! 0 = 1
     then Inr (subarray 1 33 bs, from_le_bytes (subarray 33 37 bs), from_le_bytes (subarray 37 45 bs),
       from_le_bytes (subarray 45 53 bs))
     else Inl (Panic ''assertion `left == right` failed''))"
  using assms by (simp add: host_decode_precommit_def index_range_def)

lemma host_decode_precommit_short: "length bs < 53 \<Longrightarrow> \<exists>msg. host_decode_precommit bs = Inl (Panic msg)"
  by (auto simp: host_decode_precommit_def index_range_def index_def ensure_def and_then_def)

section \<open>Properties\<close>

text \<open>
  C25: the Merkle root the host computes level by level over leaves it pads to a power of two
  is the root the circuit defines recursively by halves over the padded leaves.
\<close>

theorem host_merkle_root_matches_circuit:
  assumes "leaves \<noteq> []" and "next_power_of_two (length leaves) = 2 ^ k"
  shows "get_merkle_root (curta_sha256 B) leaves = padded_root B k leaves"
  using get_merkle_root_eq [OF assms] by (simp add: padded_root_def)

theorem host_merkle_root_matches_circuit_witness:
  "get_merkle_root (curta_sha256 demo_gadgets) [zero32, replicate 32 1, replicate 32 2] =
     padded_root demo_gadgets 2 [zero32, replicate 32 1, replicate 32 2]"
  by (rule host_merkle_root_matches_circuit) (simp_all add: next_power_of_two_def)

text \<open>
  C26: the authority set hash the host computes for a set of authorities is the commitment the
  circuit computes from the same keys followed by any padding.
\<close>

theorem host_authority_set_hash_matches_circuit:
  assumes "plonky2x_gadgets B blake2b_256 ed25519_verify"
    and "auths \<noteq> []" and "length (auths @ padding) = N"
  shows "compute_authority_set_commitment B N (length auths) (auths @ padding) =
    Some (compute_authority_set_hash (curta_sha256 B) auths)"
proof -
  have "0 < N"
    using assms(2,3) by (cases auths) auto
  then show ?thesis
    using plonky2x_gadgets.compute_authority_set_commitment_eq [OF assms(1,3)] assms(2)
    by (simp add: compute_authority_set_hash_eq)
qed

theorem host_authority_set_hash_matches_circuit_witness:
  "compute_authority_set_commitment demo_gadgets 3 (Suc (Suc 0)) [replicate 32 1, replicate 32 2, zero32] =
    Some (compute_authority_set_hash (curta_sha256 demo_gadgets) [replicate 32 1, replicate 32 2])"
  using host_authority_set_hash_matches_circuit [OF demo_gadgets,
      of "[replicate 32 1, replicate 32 2]" "[zero32]" 3]
  by simp

text \<open>
  C27: on 53 bytes the precommit decoder of the host returns the same block hash, block number,
  round and set id as the circuit's decoder and panics exactly when the circuit's constraints
  are violated; on fewer bytes it panics.
\<close>

theorem host_precommit_decoder_matches_circuit:
  assumes "plonky2x_gadgets B blake2b_256 ed25519_verify"
  shows "(length bs = ENCODED_PRECOMMIT_LENGTH \<longrightarrow>
      (case Decoder.decode_precommit B bs of
         None \<Rightarrow> host_decode_precommit bs = Inl (Panic ''assertion `left == right` failed'')
       | Some p \<Rightarrow> host_decode_precommit bs =
           Inr (pc_block_hash p, pc_block_number p, pc_justification_round p, pc_authority_set_id p))) \<and>
    (length bs < ENCODED_PRECOMMIT_LENGTH \<longrightarrow> (\<exists>msg. host_decode_precommit bs = Inl (Panic msg)))"
proof -
  have "unat (bs ! 0) = 1 \<longleftrightarrow> bs ! 0 = 1"
    by (simp add: unat_eq_one_iff)
  then show ?thesis
    using host_decode_precommit_short [of bs]
    by (auto simp: ENCODED_PRECOMMIT_LENGTH_def host_decode_precommit_eq decode_precommit_def
        assert_is_equal_def Let_def from_le_bytes_def length_subarray_within be_nat_def
        plonky2x_gadgets.u32_decode [OF assms] plonky2x_gadgets.u64_decode [OF assms])
qed

theorem host_precommit_decoder_matches_circuit_witness:
  "host_decode_precommit (encode_precommit zero32 5 1 9) = Inr (zero32, 5, 1, 9)"
  using host_precommit_decoder_matches_circuit [OF demo_gadgets, of "encode_precommit zero32 5 1 9"]
    plonky2x_gadgets.decode_encode_precommit [OF demo_gadgets, of zero32 5 1 9]
  by (simp add: encode_precommit_def ENCODED_PRECOMMIT_LENGTH_def del: le_bytes.simps)

end
