(* ===== verification/Avail_Types.thy ===== *)
theory Avail_Types
  imports Host_Crypto
begin

text \<open>
  The data of \<open>circuits/input/types.rs\<close>, and what the host code uses of the packages around it:
  the Avail header and its digest, the node's RPC methods, the SCALE codec, hashes and signatures. The
  packages are arguments of the model, the records \<open>avail_node\<close> and \<open>crates\<close>; the locale
  \<open>host_crates\<close> states the encodings the code relies on. A node is a snapshot: it gives the same answer to
  the same query for the duration of a call.
\<close>

section \<open>Headers\<close>

datatype digest_item = Consensus bytes bytes | OtherItem bytes

record avail_header =
  h_parent_hash :: bytes
  h_number :: u32
  h_state_root :: bytes
  h_extrinsics_root :: bytes
  h_logs :: "digest_item list"
  h_extension :: bytes
  h_data_root :: bytes

section \<open>Structs of \<open>types.rs\<close>\<close>

record HeaderRotateData =
  rd_header_bytes :: bytes
  rd_header_size :: nat
  rd_num_authorities :: nat
  rd_start_position :: nat
  rd_end_position :: nat
  rd_new_authority_set_hash :: bytes
  rd_padded_pubkeys :: "bytes list"

record StoredJustificationData =
  sj_block_number :: u32
  sj_signed_message :: bytes
  sj_pubkeys :: "bytes list"
  sj_signatures :: "bytes list"
  sj_validator_signed :: "bool list"
  sj_num_authorities :: nat

record CircuitJustification =
  cj_authority_set_id :: u64
  cj_signed_message :: bytes
  cj_validator_signed :: "bool list"
  cj_pubkeys :: "bytes list"
  cj_signatures :: "bytes list"
  cj_num_authorities :: nat
  cj_current_authority_set_hash :: bytes

record SimpleJustificationData =
  sd_pubkeys :: "bytes list"
  sd_signatures :: "bytes list"
  sd_validator_signed :: "bool list"
  sd_signed_message :: bytes
  sd_voting_weight :: u64
  sd_num_authorities :: u64

record Precommit =
  target_hash :: bytes
  target_number :: u32

record SignedPrecommit =
  precommit :: Precommit
  signature :: bytes
  signer_id :: bytes

record Commit =
  commit_target_hash :: bytes
  commit_target_number :: u32
  precommits :: "SignedPrecommit list"

record GrandpaJustification =
  round :: u64
  commit :: Commit
  votes_ancestries :: "avail_header list"

datatype SignerMessage = DummyMessage u32 | PrecommitMessage Precommit

record FinalityProof =
  fp_block :: bytes
  fp_justification :: bytes
  fp_unknown_headers :: "avail_header list"

section \<open>The node\<close>

text \<open>
  \<open>None\<close> stands for a transport error and for a missing answer alike: the code unwraps both.
  \<open>system_health\<close> and \<open>new_client\<close> tell whether attempt \<open>i\<close> of a refresh succeeds.
\<close>

record avail_node =
  system_health :: "nat \<Rightarrow> bool"
  new_client :: "nat \<Rightarrow> bool"
  chain_get_block_hash :: "u32 \<Rightarrow> bytes option"
  chain_get_header :: "bytes \<Rightarrow> avail_header option"
  chain_get_finalized_head :: "bytes option"
  current_set_id :: "bytes \<Rightarrow> u64 option"
  grandpa_authorities :: "bytes \<Rightarrow> (bytes \<times> u64) list option"
  grandpa_proveFinality :: "u32 \<Rightarrow> bytes option"

section \<open>The crates\<close>

record crates =
  sha256 :: "bytes \<Rightarrow> bytes"
  blake2_256 :: "bytes \<Rightarrow> bytes"
  verifying_key :: "bytes \<Rightarrow> bool"
  ed25519_check :: "bytes \<Rightarrow> bytes \<Rightarrow> bytes \<Rightarrow> bool"
  encode_header :: "avail_header \<Rightarrow> bytes"
  encode_log :: "digest_item \<Rightarrow> bytes"
  encode_compact :: "u32 \<Rightarrow> bytes"
  encode_signed_message :: "SignerMessage \<Rightarrow> u64 \<Rightarrow> u64 \<Rightarrow> bytes"
  decode_finality_proof :: "bytes \<Rightarrow> FinalityProof option"
  decode_grandpa_justification :: "bytes \<Rightarrow> GrandpaJustification option"
  edwards_from_slice :: "bytes \<Rightarrow> bytes option"
  DUMMY_PUBLIC_KEY :: bytes
  DUMMY_SIGNATURE :: bytes

locale host_crates =
  fixes C :: crates
  assumes length_sha256: "length (sha256 C bs) = 32"
    and encode_header:
      "encode_header C h =
         h_parent_hash h @ scale_compact (h_number h) @ h_state_root h @ h_extrinsics_root h @
         scale_compact (of_nat (length (h_logs h))) @ concat (map (encode_log C) (h_logs h)) @
         h_extension h"
    and encode_log:
      "encode_log C (Consensus engine value) =
         4 # engine @ scale_compact (of_nat (length value)) @ value"
    and encode_compact: "encode_compact C n = scale_compact n"
    and encode_signed_message:
      "encode_signed_message C (PrecommitMessage p) rnd set_id =
         encode_precommit (target_hash p) (target_number p) rnd set_id"
    and edwards_from_slice: "edwards_from_slice C bs = (if length bs = 32 then Some bs else None)"
    and length_dummy: "length (DUMMY_PUBLIC_KEY C) = 32" "length (DUMMY_SIGNATURE C) = 64"

text \<open>
  An implementation, for any hash functions, signature check and decoders of finality proofs
  and justifications.
\<close>

fun ref_encode_log :: "digest_item \<Rightarrow> bytes" where
  "ref_encode_log (Consensus engine value) = 4 # engine @ scale_compact (of_nat (length value)) @ value"
| "ref_encode_log (OtherItem bs) = bs"

fun ref_encode_signed_message :: "SignerMessage \<Rightarrow> u64 \<Rightarrow> u64 \<Rightarrow> bytes" where
  "ref_encode_signed_message (PrecommitMessage p) rnd set_id =
     encode_precommit (target_hash p) (target_number p) rnd set_id"
| "ref_encode_signed_message (DummyMessage n) rnd set_id =
     0 # le_bytes 4 (unat n) @ le_bytes 8 (unat rnd) @ le_bytes 8 (unat set_id)"

definition ref_crates ::
  "(bytes \<Rightarrow> bytes) \<Rightarrow> (bytes \<Rightarrow> bytes) \<Rightarrow> (bytes \<Rightarrow> bytes \<Rightarrow> bytes \<Rightarrow> bool) \<Rightarrow>
   (bytes \<Rightarrow> FinalityProof option) \<Rightarrow> (bytes \<Rightarrow> GrandpaJustification option) \<Rightarrow> crates"
where
  "ref_crates h b v dfp dgj =
     \<lparr>sha256 = (\<lambda>bs. pad32 (h bs)),
      blake2_256 = (\<lambda>bs. pad32 (b bs)),
      verifying_key = (\<lambda>bs. length bs = 32),
      ed25519_check = v,
      encode_header = (\<lambda>h.
        h_parent_hash h @ scale_compact (h_number h) @ h_state_root h @ h_extrinsics_root h @
        scale_compact (of_nat (length (h_logs h))) @ concat (map ref_encode_log (h_logs h)) @
        h_extension h),
      encode_log = ref_encode_log,
      encode_compact = scale_compact,
      encode_signed_message = ref_encode_signed_message,
      decode_finality_proof = dfp,
      decode_grandpa_justification = dgj,
      edwards_from_slice = (\<lambda>bs. if length bs = 32 then Some bs else None),
      DUMMY_PUBLIC_KEY = zero32,
      DUMMY_SIGNATURE = replicate 64 0\<rparr>"

interpretation refc: host_crates "ref_crates h b v dfp dgj" for h b v dfp dgj
  by unfold_locales (simp_all add: ref_crates_def)

section \<open>Well-formed headers\<close>

text \<open>The hashes are digests, and the data root closes the header.\<close>

definition wf_avail_header :: "avail_header \<Rightarrow> bool" where
  "wf_avail_header h \<longleftrightarrow>
     length (h_parent_hash h) = 32 \<and> length (h_state_root h) = 32 \<and>
     length (h_extrinsics_root h) = 32 \<and> length (h_data_root h) = 32 \<and>
     32 \<le> length (h_extension h) \<and> drop (length (h_extension h) - 32) (h_extension h) = h_data_root h"

end
