(* ===== verification/Redis_Store.thy ===== *)
theory Redis_Store
  imports Avail_Types "HOL-Library.AList"
begin

text \<open>
  \<open>RedisClient\<close> of \<open>circuits/input/mod.rs\<close>. The server is an argument: the record \<open>redis\<close>
  gives the commands the client uses on a database of type \<open>'db\<close>, and the locale
  \<open>redis_server\<close> states their documented effect. A command that fails is \<open>None\<close>; \<open>'j\<close> is
  the type of serialized JSON.
\<close>

section \<open>Keys\<close>

text \<open>\<open>Display\<close> of an unsigned integer, and the parser of its decimal digits.\<close>

fun show_nat :: "nat \<Rightarrow> string" where
  "show_nat n = (if n < 10 then [char_of (48 + n)] else show_nat (n div 10) @ [char_of (48 + n mod 10)])"

declare show_nat.simps [simp del]

definition parse_nat :: "string \<Rightarrow> nat" where
  "parse_nat s = foldl (\<lambda>n c. 10 * n + (of_char c - 48)) 0 s"

lemma parse_show_nat: "parse_nat (show_nat n) = n"
proof (induction n rule: show_nat.induct)
  case (1 n)
  have digit: "(of_char (char_of (48 + d) :: char) :: nat) = 48 + d" if "d < 10" for d
    using that by (simp add: of_char_of)
  show ?case
  proof (cases "n < 10")
    case True
    then show ?thesis
      using digit [of n] by (subst show_nat.simps) (simp add: parse_nat_def)
  next
    case False
    have d: "n mod 10 < 10"
      by simp
    show ?thesis
      using 1 [OF False] digit [OF d] False
      by (subst show_nat.simps) (simp add: parse_nat_def)
  qed
qed

lemma show_nat_inject [simp]: "show_nat m = show_nat n \<longleftrightarrow> m = n"
  by (metis parse_show_nat)

lemma show_nat_digits: "c \<in> set (show_nat n) \<Longrightarrow> 48 \<le> (of_char c :: nat) \<and> (of_char c :: nat) \<le> 57"
proof (induction n rule: show_nat.induct)
  case (1 n)
  have digit: "(of_char (char_of (48 + d) :: char) :: nat) = 48 + d" if "d < 10" for d
    using that by (simp add: of_char_of)
  show ?case
  proof (cases "n < 10")
    case True
    then show ?thesis
      using 1(2) digit [of n] by (subst (asm) show_nat.simps) simp
  next
    case False
    have d: "n mod 10 < 10"
      by simp
    then have "c \<in> set (show_nat (n div 10)) \<or> c = char_of (48 + n mod 10)"
      using 1(2) False by (subst (asm) show_nat.simps) auto
    then show ?thesis
    proof
      assume "c = char_of (48 + n mod 10)"
      then show ?thesis
        using digit [OF d] d by simp
    qed (use 1(1) [OF False] in simp)
  qed
qed

text \<open>\<open>str::parse\<close> of an unsigned integer of the given width.\<close>

definition parse_unsigned :: "nat \<Rightarrow> string \<Rightarrow> nat option" where
  "parse_unsigned width s =
     (let digits = (if s \<noteq> [] \<and> hd s = CHR ''+'' then tl s else s) in
      if digits \<noteq> [] \<and> list_all (\<lambda>c. 48 \<le> (of_char c :: nat) \<and> (of_char c :: nat) \<le> 57) digits \<and>
         parse_nat digits < 2 ^ width
      then Some (parse_nat digits) else None)"

lemma show_nat_not_Nil [simp]: "show_nat n \<noteq> []"
  by (subst show_nat.simps) simp

lemma parse_unsigned_show_nat: "n < 2 ^ w \<Longrightarrow> parse_unsigned w (show_nat n) = Some n"
proof -
  assume "n < 2 ^ w"
  moreover have "hd (show_nat n) \<noteq> CHR ''+''"
    using show_nat_digits [of "hd (show_nat n)" n] by auto
  ultimately show ?thesis
    using show_nat_digits [of _ n] by (simp add: parse_unsigned_def parse_show_nat list_all_iff)
qed

definition justification_key :: "string \<Rightarrow> u32 \<Rightarrow> string" where
  "justification_key avail_chain_id block_number =
     avail_chain_id @ '':justification:'' @ show_nat (unat block_number)"

definition justification_blocks_key :: "string \<Rightarrow> string" where
  "justification_blocks_key avail_chain_id = avail_chain_id @ '':justification:blocks''"

text \<open>\<open>{:#x}\<close> of an address and \<open>hex::encode\<close>.\<close>

definition hex_digit :: "nat \<Rightarrow> char" where
  "hex_digit n = ''0123456789abcdef'' ! n"

definition hex_encode :: "bytes \<Rightarrow> string" where
  "hex_encode bs = concat (map (\<lambda>b. [hex_digit (unat b div 16), hex_digit (unat b mod 16)]) bs)"

definition cursor_key :: "u64 \<Rightarrow> bytes \<Rightarrow> string" where
  "cursor_key ethereum_chain_id address =
     show_nat (unat ethereum_chain_id) @ '':'' @ ''0x'' @ hex_encode address @ '':cursor''"

definition ranges_key :: "u64 \<Rightarrow> bytes \<Rightarrow> string" where
  "ranges_key chain_id address =
     show_nat (unat chain_id) @ '':'' @ (''0x'' @ hex_encode address) @ '':ranges''"

lemma ranges_key_not_cursor: "ranges_key c a \<noteq> cursor_key c' a'"
proof
  assume "ranges_key c a = cursor_key c' a'"
  then have "last (ranges_key c a) = last (cursor_key c' a')"
    by simp
  then show False
    by (simp add: ranges_key_def cursor_key_def)
qed

text \<open>No two of the keys coincide: a decimal number contains no colon.\<close>

lemma show_nat_no_colon: "CHR '':'' \<notin> set (show_nat n)"
  using show_nat_digits [of "CHR '':''" n] by auto

lemma justification_key_inject:
  "justification_key c n = justification_key c' n' \<longleftrightarrow> c = c' \<and> n = n'"
proof
  assume eq: "justification_key c n = justification_key c' n'"
  have number: "takeWhile (\<lambda>x. x \<noteq> CHR '':'') (rev (justification_key d m)) = rev (show_nat (unat m))" for d m
    using show_nat_no_colon [of "unat m"]
    by (auto simp: justification_key_def takeWhile_append2 takeWhile_tail)
  have "rev (show_nat (unat n)) = rev (show_nat (unat n'))"
    using arg_cong [where f = "\<lambda>k. takeWhile (\<lambda>x. x \<noteq> CHR '':'') (rev k)", OF eq] by (simp only: number)
  then have n: "n = n'"
    by (simp add: word_unat_eq_iff)
  with eq show "c = c' \<and> n = n'"
    by (simp add: justification_key_def)
qed simp

lemma justification_blocks_key_inject: "justification_blocks_key c = justification_blocks_key c' \<longleftrightarrow> c = c'"
  by (simp add: justification_blocks_key_def)

lemma justification_key_not_cursor: "cursor_key e a \<noteq> justification_key c n"
proof
  assume "cursor_key e a = justification_key c n"
  then have "last (cursor_key e a) = last (justification_key c n)"
    by simp
  then have "CHR ''r'' = last (show_nat (unat n))"
    by (simp add: cursor_key_def justification_key_def)
  moreover have "last (show_nat (unat n)) \<in> set (show_nat (unat n))"
    by simp
  ultimately have "CHR ''r'' \<in> set (show_nat (unat n))"
    by metis
  from show_nat_digits [OF this] show False
    by simp
qed

lemma ranges_key_not_blocks: "ranges_key e a \<noteq> justification_blocks_key c"
proof
  assume "ranges_key e a = justification_blocks_key c"
  then have "take 2 (rev (ranges_key e a)) = take 2 (rev (justification_blocks_key c))"
    by simp
  then show False
    by (simp add: ranges_key_def justification_blocks_key_def)
qed

section \<open>The server\<close>

record ('db, 'j) redis =
  redis_connect :: "nat \<Rightarrow> bool"
  json_set :: "'db \<Rightarrow> string \<Rightarrow> StoredJustificationData \<Rightarrow> 'db option"
  json_get :: "'db \<Rightarrow> string \<Rightarrow> 'j option"
  from_json :: "'j \<Rightarrow> StoredJustificationData list option"
  zadd :: "'db \<Rightarrow> string \<Rightarrow> string \<Rightarrow> nat \<Rightarrow> 'db option"
  zrangebyscore :: "'db \<Rightarrow> string \<Rightarrow> nat \<Rightarrow> nat \<Rightarrow> string list option"
  redis_get :: "'db \<Rightarrow> string \<Rightarrow> u64 option"
  redis_set :: "'db \<Rightarrow> string \<Rightarrow> u64 \<Rightarrow> 'db option"

section \<open>The client\<close>

text \<open>
  \<open>RedisClient::new\<close> opens the URL of the environment; \<open>redis_open\<close> tells whether the package
  accepts it.
\<close>

definition RedisClient_new :: "(string \<Rightarrow> bool) \<Rightarrow> (string \<Rightarrow> string option) \<Rightarrow> unit result" where
  "RedisClient_new redis_open env =
     and_then (expect (env ''REDIS_URL'') ''REDIS_URL must be set'') (\<lambda>redis_url.
     ensure (redis_open redis_url) ''Redis client not created'')"

definition MAX_RECONNECT_ATTEMPTS :: nat where
  "MAX_RECONNECT_ATTEMPTS = 3"

fun connect_attempts :: "(nat \<Rightarrow> bool) \<Rightarrow> nat list \<Rightarrow> unit result" where
  "connect_attempts ok [] = Inl (Failure ''Failed to connect to Redis after multiple attempts!'')"
| "connect_attempts ok (i # is) = (if ok i then Inr () else connect_attempts ok is)"

definition get_connection :: "('db, 'j) redis \<Rightarrow> unit result" where
  "get_connection R = connect_attempts (redis_connect R) [0..<MAX_RECONNECT_ATTEMPTS]"

text \<open>Every method panics with the error of the connection.\<close>

definition connection :: "('db, 'j) redis \<Rightarrow> unit result" where
  "connection R = (case get_connection R of Inl (Failure e) \<Rightarrow> Inl (Panic e) | r \<Rightarrow> r)"

definition add_justification ::
  "('db, 'j) redis \<Rightarrow> string \<Rightarrow> StoredJustificationData \<Rightarrow> 'db \<Rightarrow> 'db result"
where
  "add_justification R avail_chain_id justification db =
     and_then (connection R) (\<lambda>_.
     and_then (expect
         (json_set R db (justification_key avail_chain_id (sj_block_number justification)) justification)
         ''Failed to set key'') (\<lambda>db.
     expect
       (zadd R db (justification_blocks_key avail_chain_id)
         (show_nat (unat (sj_block_number justification))) (unat (sj_block_number justification)))
       ''Failed to add key to sorted set''))"

definition get_justification ::
  "('db, 'j) redis \<Rightarrow> string \<Rightarrow> u32 \<Rightarrow> 'db \<Rightarrow> StoredJustificationData result"
where
  "get_justification R avail_chain_id block_number db =
     and_then (connection R) (\<lambda>_.
     and_then (expect (json_get R db (justification_key avail_chain_id block_number))
         ''Failed to get key'') (\<lambda>serialized_justification.
     case from_json R serialized_justification of
       Some justification \<Rightarrow> index justification 0
     | None \<Rightarrow> Inl (Failure ''Failed to deserialize justification'')))"

definition get_blocks_in_range ::
  "('db, 'j) redis \<Rightarrow> string \<Rightarrow> u32 \<Rightarrow> u32 \<Rightarrow> 'db \<Rightarrow> u32 list result"
where
  "get_blocks_in_range R avail_chain_id start stop db =
     and_then (connection R) (\<lambda>_.
     and_then (expect
         (zrangebyscore R db (justification_blocks_key avail_chain_id) (unat start) (unat stop))
         ''Failed to get keys'') (\<lambda>members.
     and_then (traverse (\<lambda>m. expect (parse_unsigned 32 m) ''Failed to get keys'') members)
       (\<lambda>blocks. Inr (map of_nat blocks))))"

definition get_contract_cursor :: "('db, 'j) redis \<Rightarrow> u64 \<Rightarrow> bytes \<Rightarrow> 'db \<Rightarrow> u64 option result" where
  "get_contract_cursor R ethereum_chain_id address db =
     and_then (connection R) (\<lambda>_. Inr (redis_get R db (cursor_key ethereum_chain_id address)))"

definition set_contract_cursor :: "('db, 'j) redis \<Rightarrow> u64 \<Rightarrow> bytes \<Rightarrow> u64 \<Rightarrow> 'db \<Rightarrow> 'db result" where
  "set_contract_cursor R ethereum_chain_id address cursor db =
     and_then (connection R) (\<lambda>_.
     expect (redis_set R db (cursor_key ethereum_chain_id address) cursor) ''Failed to set key'')"

record DataCommitmentRange =
  range_start :: u32
  range_end :: u32
  data_commitment :: bytes

text \<open>\<open>abi_encode_packed\<close> of \<open>(uint32, uint32, bytes32)\<close>.\<close>

definition encode_range :: "DataCommitmentRange \<Rightarrow> bytes" where
  "encode_range r =
     rev (le_bytes 4 (unat (range_start r))) @ rev (le_bytes 4 (unat (range_end r))) @ data_commitment r"

definition add_data_commitment_range ::
  "('db, 'j) redis \<Rightarrow> u64 \<Rightarrow> bytes \<Rightarrow> DataCommitmentRange \<Rightarrow> 'db \<Rightarrow> 'db result"
where
  "add_data_commitment_range R chain_id address rng db =
     and_then (connection R) (\<lambda>_.
     and_then (ensure (length (data_commitment rng) = 32)
         unwrap_err) (\<lambda>_.
     expect
       (zadd R db (ranges_key chain_id address) (hex_encode (encode_range rng))
         (unat (range_end rng)))
       ''Failed to set key''))"

lemma hex_digit_inj: "i < 16 \<Longrightarrow> j < 16 \<Longrightarrow> hex_digit i = hex_digit j \<longleftrightarrow> i = j"
  using nth_eq_iff_index_eq [of "''0123456789abcdef''" i j] by (simp add: hex_digit_def)

lemma hex_encode_inject [simp]: "hex_encode xs = hex_encode ys \<longleftrightarrow> xs = ys"
proof (induction xs arbitrary: ys)
  case Nil
  then show ?case by (cases ys) (simp_all add: hex_encode_def)
next
  case (Cons x xs)
  show ?case
  proof (cases ys)
    case Nil
    then show ?thesis by (simp add: hex_encode_def)
  next
    case (Cons y ys')
    have "unat x < 256" "unat y < 256"
      using unsigned_less [of x] unsigned_less [of y] by auto
    then have small: "unat x div 16 < 16" "unat y div 16 < 16" "unat x mod 16 < 16" "unat y mod 16 < 16"
      by simp_all
    have "unat x = unat y \<longleftrightarrow> unat x div 16 = unat y div 16 \<and> unat x mod 16 = unat y mod 16"
      by (metis div_mult_mod_eq)
    then show ?thesis
      using Cons.IH [of ys'] Cons hex_digit_inj [OF small(1,2)] hex_digit_inj [OF small(3,4)]
      by (auto simp: hex_encode_def word_unat_eq_iff)
  qed
qed

lemma encode_range_inject:
  "encode_range r = encode_range r' \<longleftrightarrow>
     range_start r = range_start r' \<and> range_end r = range_end r' \<and> data_commitment r = data_commitment r'"
proof -
  have "rev (le_bytes 4 (unat a)) = rev (le_bytes 4 (unat b)) \<longleftrightarrow> a = b" for a b :: u32
  proof -
    have "unat a = unat b" if "le_bytes 4 (unat a) = le_bytes 4 (unat b)"
      using arg_cong [where f = le_nat, OF that] unat_u32_less [of a] unat_u32_less [of b]
      by (simp add: le_nat_le_bytes del: le_bytes.simps)
    then show ?thesis
      by (auto simp: word_unat_eq_iff simp del: le_bytes.simps)
  qed
  then show ?thesis
    unfolding encode_range_def by (subst append_eq_append_conv, simp, subst append_eq_append_conv) auto
qed

section \<open>The index of justified blocks\<close>

text \<open>
  For an observation \<open>zset\<close> of the sorted sets: the blocks in the index, and that it holds
  block numbers under their decimal names, with themselves as scores.
\<close>

definition indexed_blocks ::
  "('db \<Rightarrow> string \<Rightarrow> string \<Rightarrow> nat option) \<Rightarrow> string \<Rightarrow> 'db \<Rightarrow> u32 set"
where
  "indexed_blocks zset chain db =
     {n. zset db (justification_blocks_key chain) (show_nat (unat n)) \<noteq> None}"

definition block_index_ok ::
  "('db \<Rightarrow> string \<Rightarrow> string \<Rightarrow> nat option) \<Rightarrow> string \<Rightarrow> 'db \<Rightarrow> bool"
where
  "block_index_ok zset chain db \<longleftrightarrow>
     (\<forall>m s. zset db (justification_blocks_key chain) m = Some s \<longrightarrow> s < 2 ^ 32 \<and> m = show_nat s)"

section \<open>The contract of the server\<close>

text \<open>\<open>zset\<close> observes the scores of the members of a sorted set.\<close>

locale redis_server =
  fixes R :: "('db, 'j) redis" and zset :: "'db \<Rightarrow> string \<Rightarrow> string \<Rightarrow> nat option"
  assumes json_get_set:
      "json_set R db k j = Some db' \<Longrightarrow> \<exists>v. json_get R db' k = Some v \<and> from_json R v = Some [j]"
    and json_get_other:
      "json_set R db k j = Some db' \<Longrightarrow> k' \<noteq> k \<Longrightarrow> json_get R db' k' = json_get R db k'"
    and json_set_zset: "json_set R db k j = Some db' \<Longrightarrow> zset db' = zset db"
    and zadd_zset: "zadd R db k m s = Some db' \<Longrightarrow> zset db' = (zset db)(k := (zset db k)(m \<mapsto> s))"
    and zadd_json: "zadd R db k m s = Some db' \<Longrightarrow> json_get R db' = json_get R db"
    and zadd_get: "zadd R db k m s = Some db' \<Longrightarrow> redis_get R db' = redis_get R db"
    and zrangebyscore:
      "zrangebyscore R db k lo hi = Some ms \<Longrightarrow>
         distinct ms \<and> sorted (map (\<lambda>m. the (zset db k m)) ms) \<and>
         set ms = {m. \<exists>s. zset db k m = Some s \<and> lo \<le> s \<and> s \<le> hi}"
    and get_set: "redis_set R db k v = Some db' \<Longrightarrow> redis_get R db' = (redis_get R db)(k := Some v)"
    and set_other:
      "redis_set R db k v = Some db' \<Longrightarrow> k' \<noteq> k \<Longrightarrow>
         json_get R db' k' = json_get R db k' \<and> zset db' k' = zset db k'"
begin

lemma add_justification_cases:
  assumes "add_justification R chain j db = Inr db'"
  obtains db1 where "connection R = Inr ()"
    "json_set R db (justification_key chain (sj_block_number j)) j = Some db1"
    "zadd R db1 (justification_blocks_key chain) (show_nat (unat (sj_block_number j)))
       (unat (sj_block_number j)) = Some db'"
  using assms by (auto simp: add_justification_def and_then_eq_Inr expect_eq_Inr)

lemma get_after_add:
  assumes "add_justification R chain j db = Inr db'"
  shows "get_justification R chain n db' =
    (if n = sj_block_number j then Inr j else get_justification R chain n db)"
proof -
  obtain db1 where c: "connection R = Inr ()"
      and s: "json_set R db (justification_key chain (sj_block_number j)) j = Some db1"
      and z: "zadd R db1 (justification_blocks_key chain) (show_nat (unat (sj_block_number j)))
        (unat (sj_block_number j)) = Some db'"
    using add_justification_cases [OF assms] .
  have key: "justification_key chain n = justification_key chain (sj_block_number j) \<longleftrightarrow>
      n = sj_block_number j"
    by (simp add: justification_key_def word_unat_eq_iff)
  show ?thesis
    using json_get_set [OF s] json_get_other [OF s, of "justification_key chain n"] key
    by (auto simp: get_justification_def c zadd_json [OF z])
qed

lemma index_scores:
  assumes "zrangebyscore R db (justification_blocks_key chain) lo hi = Some ms"
    and ok: "block_index_ok zset chain db" and m: "m \<in> set ms"
  shows "zset db (justification_blocks_key chain) m = Some (parse_nat m)" and "parse_nat m < 2 ^ 32"
    and "show_nat (parse_nat m) = m" and "unat (of_nat (parse_nat m) :: u32) = parse_nat m"
    and "parse_unsigned 32 m = Some (parse_nat m)"
proof -
  obtain s where s: "zset db (justification_blocks_key chain) m = Some s"
    using m zrangebyscore [OF assms(1)] by auto
  then have "s < 2 ^ 32" "m = show_nat s"
    using ok unfolding block_index_ok_def by blast+
  with s show "zset db (justification_blocks_key chain) m = Some (parse_nat m)" "parse_nat m < 2 ^ 32"
      "show_nat (parse_nat m) = m"
    by (simp_all add: parse_show_nat)
  then show "unat (of_nat (parse_nat m) :: u32) = parse_nat m" "parse_unsigned 32 m = Some (parse_nat m)"
    using parse_unsigned_show_nat [of "parse_nat m" 32] by (simp_all add: unat_of_nat_small)
qed

lemma range_query_members:
  assumes ms: "zrangebyscore R db (justification_blocks_key chain) (unat a) (unat b) = Some ms"
    and ok: "block_index_ok zset chain db"
  shows "(\<lambda>m. of_nat (parse_nat m)) ` set ms = {n \<in> indexed_blocks zset chain db. a \<le> n \<and> n \<le> b}"
proof (intro set_eqI iffI)
  let ?z = "zset db (justification_blocks_key chain)"
  note z = zrangebyscore [OF ms]
  fix n :: u32
  {
    assume "n \<in> (\<lambda>m. of_nat (parse_nat m)) ` set ms"
    then obtain m where m: "m \<in> set ms" "n = of_nat (parse_nat m)"
      by auto
    then show "n \<in> {n \<in> indexed_blocks zset chain db. a \<le> n \<and> n \<le> b}"
      using index_scores [OF ms ok m(1)] z by (auto simp: indexed_blocks_def word_le_nat_alt)
  next
    assume n: "n \<in> {n \<in> indexed_blocks zset chain db. a \<le> n \<and> n \<le> b}"
    then obtain s where s: "?z (show_nat (unat n)) = Some s"
      by (auto simp: indexed_blocks_def)
    then have "show_nat (unat n) = show_nat s"
      using ok unfolding block_index_ok_def by blast
    with s n z have "show_nat (unat n) \<in> set ms"
      by (auto simp: word_le_nat_alt)
    then show "n \<in> (\<lambda>m. of_nat (parse_nat m)) ` set ms"
      by (force simp: parse_show_nat)
  }
qed

lemma range_query_order:
  assumes ms: "zrangebyscore R db (justification_blocks_key chain) lo hi = Some ms"
    and ok: "block_index_ok zset chain db"
  shows "sorted (map (\<lambda>m. of_nat (parse_nat m) :: u32) ms)" and "distinct (map (\<lambda>m. of_nat (parse_nat m) :: u32) ms)"
proof -
  note z = zrangebyscore [OF ms]
  note score = index_scores [OF ms ok]
  have "map (\<lambda>m. the (zset db (justification_blocks_key chain) m)) ms = map parse_nat ms"
    using score(1) by simp
  then have sorted: "sorted (map parse_nat ms)"
    using z by metis
  show "sorted (map (\<lambda>m. of_nat (parse_nat m) :: u32) ms)"
    unfolding sorted_map
    by (rule sorted_wrt_mono_rel [OF _ sorted [unfolded sorted_map]]) (simp add: word_le_nat_alt score(4))
  have "inj_on (\<lambda>m. of_nat (parse_nat m) :: u32) (set ms)"
    by (rule inj_onI) (metis score(3,4))
  then show "distinct (map (\<lambda>m. of_nat (parse_nat m) :: u32) ms)"
    using z by (simp add: distinct_map)
qed

text \<open>On a well-formed index every member parses, so the query panics only if the server does not answer.\<close>

lemma get_blocks_in_range_answer:
  assumes "connection R = Inr ()" and ok: "block_index_ok zset chain db"
    and ms: "zrangebyscore R db (justification_blocks_key chain) (unat a) (unat b) = Some ms"
  shows "get_blocks_in_range R chain a b db = Inr (map (\<lambda>m. of_nat (parse_nat m)) ms)"
proof -
  have "traverse (\<lambda>m. expect (parse_unsigned 32 m) ''Failed to get keys'') ms = Inr (map parse_nat ms)"
    by (rule traverse_Inr) (simp add: index_scores(5) [OF ms ok])
  with assms show ?thesis
    by (simp add: get_blocks_in_range_def comp_def)
qed

lemma get_blocks_in_range_set:
  assumes "get_blocks_in_range R chain a b db = Inr ns" and ok: "block_index_ok zset chain db"
  shows "set ns = {n \<in> indexed_blocks zset chain db. a \<le> n \<and> n \<le> b}" and "sorted ns" and "distinct ns"
proof -
  obtain ms where up: "connection R = Inr ()"
      and ms: "zrangebyscore R db (justification_blocks_key chain) (unat a) (unat b) = Some ms"
    using assms(1) by (auto simp: get_blocks_in_range_def and_then_eq_Inr expect_eq_Inr)
  then have ns: "ns = map (\<lambda>m. of_nat (parse_nat m)) ms"
    using assms(1) get_blocks_in_range_answer [OF up ok ms] by simp
  show "set ns = {n \<in> indexed_blocks zset chain db. a \<le> n \<and> n \<le> b}" "sorted ns" "distinct ns"
    using range_query_members [OF ms ok] range_query_order [OF ms ok] by (simp_all add: ns)
qed

end

text \<open>A JSON document is written under its own key only.\<close>

locale redis_frame = redis_server R zset
  for R :: "('db, 'j) redis" and zset +
  assumes json_set_get: "json_set R db k j = Some db' \<Longrightarrow> k' \<noteq> k \<Longrightarrow> redis_get R db' k' = redis_get R db k'"
begin

lemma add_justification_frame:
  assumes add: "add_justification R chain j db = Inr db'"
  shows "(chain', n) \<noteq> (chain, sj_block_number j) \<Longrightarrow>
      get_justification R chain' n db' = get_justification R chain' n db"
    and "zset db' = (zset db)(justification_blocks_key chain :=
      (zset db (justification_blocks_key chain))(show_nat (unat (sj_block_number j)) \<mapsto> unat (sj_block_number j)))"
    and "get_contract_cursor R e a db' = get_contract_cursor R e a db"
proof -
  obtain db1 where db1: "json_set R db (justification_key chain (sj_block_number j)) j = Some db1"
    and db': "zadd R db1 (justification_blocks_key chain) (show_nat (unat (sj_block_number j)))
       (unat (sj_block_number j)) = Some db'"
    using add_justification_cases [OF add] .
  show "get_justification R chain' n db' = get_justification R chain' n db"
    if "(chain', n) \<noteq> (chain, sj_block_number j)"
    using json_get_other [OF db1, of "justification_key chain' n"] zadd_json [OF db'] that
    by (auto simp: get_justification_def justification_key_inject)
  show "zset db' = (zset db)(justification_blocks_key chain :=
      (zset db (justification_blocks_key chain))(show_nat (unat (sj_block_number j)) \<mapsto> unat (sj_block_number j)))"
    using json_set_zset [OF db1] zadd_zset [OF db'] by simp
  show "get_contract_cursor R e a db' = get_contract_cursor R e a db"
    using json_set_get [OF db1 justification_key_not_cursor] zadd_get [OF db']
    by (simp add: get_contract_cursor_def)
qed

lemma add_justification_indexes:
  assumes "add_justification R chain j db = Inr db'"
  shows "indexed_blocks zset chain' db' =
      (if chain' = chain then insert (sj_block_number j) (indexed_blocks zset chain' db)
       else indexed_blocks zset chain' db)"
    and "block_index_ok zset chain' db \<Longrightarrow> block_index_ok zset chain' db'"
  using unat_u32_less [of "sj_block_number j"]
  unfolding indexed_blocks_def block_index_ok_def add_justification_frame(2) [OF assms]
  by (auto simp: justification_blocks_key_inject word_unat_eq_iff)

end

text \<open>A server that answers: it can be reached, and no command that writes fails.\<close>

locale answering_redis = redis_server R zset
  for R :: "('db, 'j) redis" and zset +
  assumes reachable: "connection R = Inr ()"
    and json_set_answers: "json_set R db k j \<noteq> None"
    and zadd_answers: "zadd R db k m s \<noteq> None"
    and redis_set_answers: "redis_set R db k v \<noteq> None"
begin

lemma add_justification_ok: "\<exists>db'. add_justification R chain j db = Inr db'"
proof -
  obtain db1 where "json_set R db (justification_key chain (sj_block_number j)) j = Some db1"
    using json_set_answers by blast
  moreover obtain db2 where "zadd R db1 (justification_blocks_key chain) (show_nat (unat (sj_block_number j)))
      (unat (sj_block_number j)) = Some db2"
    using zadd_answers by blast
  ultimately show ?thesis
    by (simp add: add_justification_def reachable)
qed

lemma add_data_commitment_range_ok:
  assumes "length (data_commitment r) = 32"
  shows "\<exists>db'. add_data_commitment_range R chain_id address r db = Inr db' \<and>
    zset db' = (zset db)(ranges_key chain_id address :=
      (zset db (ranges_key chain_id address))(hex_encode (encode_range r) \<mapsto> unat (range_end r))) \<and>
    redis_get R db' = redis_get R db"
proof -
  obtain db' where z: "zadd R db (ranges_key chain_id address) (hex_encode (encode_range r))
      (unat (range_end r)) = Some db'"
    using zadd_answers by blast
  then show ?thesis
    using assms zadd_zset [OF z] zadd_get [OF z] by (simp add: add_data_commitment_range_def reachable)
qed

lemma set_contract_cursor_ok:
  "\<exists>db'. set_contract_cursor R chain_id address v db = Inr db' \<and>
     get_contract_cursor R chain_id address db' = Inr (Some v) \<and>
     zset db' (ranges_key chain address') = zset db (ranges_key chain address')"
proof -
  obtain db' where s: "redis_set R db (cursor_key chain_id address) v = Some db'"
    using redis_set_answers by blast
  show ?thesis
    using get_set [OF s] set_other [OF s ranges_key_not_cursor]
    by (simp add: set_contract_cursor_def get_contract_cursor_def reachable s)
qed

end

section \<open>A server in memory\<close>

record mem_db =
  mem_json :: "string \<Rightarrow> StoredJustificationData option"
  mem_zsets :: "string \<Rightarrow> (string \<times> nat) list"
  mem_strings :: "string \<Rightarrow> u64 option"

definition mem_zset :: "mem_db \<Rightarrow> string \<Rightarrow> string \<Rightarrow> nat option" where
  "mem_zset db k = map_of (mem_zsets db k)"

text \<open>A key that is not set reads as nil, an empty answer that does not parse.\<close>

definition mem_redis :: "(mem_db, StoredJustificationData option) redis" where
  "mem_redis =
     \<lparr>redis_connect = (\<lambda>_. True),
      json_set = (\<lambda>db k j. Some (db\<lparr>mem_json := (mem_json db)(k \<mapsto> j)\<rparr>)),
      json_get = (\<lambda>db k. Some (mem_json db k)),
      from_json = map_option (\<lambda>j. [j]),
      zadd = (\<lambda>db k m s. Some (db\<lparr>mem_zsets := (mem_zsets db)(k := AList.update m s (mem_zsets db k))\<rparr>)),
      zrangebyscore = (\<lambda>db k lo hi. Some (map fst (sort_key snd
        (filter (\<lambda>(_, s). lo \<le> s \<and> s \<le> hi) (AList.clearjunk (mem_zsets db k)))))),
      redis_get = mem_strings,
      redis_set = (\<lambda>db k v. Some (db\<lparr>mem_strings := (mem_strings db)(k \<mapsto> v)\<rparr>))\<rparr>"

lemma mem_zrange:
  fixes l :: "(string \<times> nat) list" and lo hi :: nat
  defines "r \<equiv> sort_key snd (filter (\<lambda>(_, s). lo \<le> s \<and> s \<le> hi) (AList.clearjunk l))"
  shows "distinct (map fst r)" and "sorted (map (\<lambda>m. the (map_of l m)) (map fst r))"
    and "set (map fst r) = {m. \<exists>s. map_of l m = Some s \<and> lo \<le> s \<and> s \<le> hi}"
proof -
  have d: "distinct (map fst (AList.clearjunk l))"
    by (rule distinct_clearjunk)
  then have "distinct (map fst (filter (\<lambda>(_, s). lo \<le> s \<and> s \<le> hi) (AList.clearjunk l)))"
    by (rule distinct_map_filter)
  then show "distinct (map fst r)"
    unfolding r_def by (auto simp: distinct_map inj_on_def)
  have mem: "(m, s) \<in> set (AList.clearjunk l) \<longleftrightarrow> map_of l m = Some s" for m s
    using map_of_eq_Some_iff [OF d] by (simp add: map_of_clearjunk)
  have scores: "map (\<lambda>m. the (map_of l m)) (map fst r) = map snd r"
    using mem by (auto simp: r_def)
  have "sorted (map snd r)"
    unfolding r_def by (rule sorted_sort_key)
  then show "sorted (map (\<lambda>m. the (map_of l m)) (map fst r))"
    by (simp only: scores)
  show "set (map fst r) = {m. \<exists>s. map_of l m = Some s \<and> lo \<le> s \<and> s \<le> hi}"
    using mem by (force simp: r_def)
qed

lemma mem_zrangebyscore:
  assumes "zrangebyscore mem_redis db k lo hi = Some ms"
  shows "distinct ms \<and> sorted (map (\<lambda>m. the (mem_zset db k m)) ms) \<and>
    set ms = {m. \<exists>s. mem_zset db k m = Some s \<and> lo \<le> s \<and> s \<le> hi}"
proof -
  have ms: "ms = map fst (sort_key snd
      (filter (\<lambda>(_, s). lo \<le> s \<and> s \<le> hi) (AList.clearjunk (mem_zsets db k))))"
    using assms by (simp add: mem_redis_def)
  show ?thesis
    unfolding ms mem_zset_def by (intro conjI mem_zrange)
qed

interpretation memr: redis_server mem_redis mem_zset
proof
  show "distinct ms \<and> sorted (map (\<lambda>m. the (mem_zset db k m)) ms) \<and>
      set ms = {m. \<exists>s. mem_zset db k m = Some s \<and> lo \<le> s \<and> s \<le> hi}"
    if "zrangebyscore mem_redis db k lo hi = Some ms" for db k lo hi ms
    using mem_zrangebyscore [OF that] .
qed (auto simp: mem_redis_def mem_zset_def fun_eq_iff update_conv')

interpretation memf: redis_frame mem_redis mem_zset
  by unfold_locales (auto simp: mem_redis_def)

lemma mem_connection: "connection mem_redis = Inr ()"
  by (simp add: connection_def get_connection_def MAX_RECONNECT_ATTEMPTS_def mem_redis_def upt_rec)

interpretation memu: answering_redis mem_redis mem_zset
  by unfold_locales (simp_all add: mem_connection, simp_all add: mem_redis_def)

definition demo_stored :: StoredJustificationData where
  "demo_stored =
     \<lparr>sj_block_number = 5, sj_signed_message = encode_precommit zero32 5 1 9,
      sj_pubkeys = [replicate 32 7], sj_signatures = [replicate 64 7],
      sj_validator_signed = [True], sj_num_authorities = 1\<rparr>"

definition empty_db :: mem_db where
  "empty_db = \<lparr>mem_json = \<lambda>_. None, mem_zsets = \<lambda>_. [], mem_strings = \<lambda>_. None\<rparr>"

section \<open>Properties\<close>

text \<open>
  C31: a stored justification is what the client reads back for its chain and block, and nothing
  else changes. The justification of every other block of this chain and of every block of every
  other chain reads as before, the block number joins the index of its own chain and no other,
  indexes stay well formed, and the contract cursors, the announced ranges and all other sorted sets
  are as they were.
\<close>

theorem justification_store_roundtrip:
  assumes "redis_frame R zset" and "add_justification R chain j db = Inr db'"
  shows "get_justification R chain (sj_block_number j) db' = Inr j \<and>
    (\<forall>chain' n. (chain', n) \<noteq> (chain, sj_block_number j) \<longrightarrow>
      get_justification R chain' n db' = get_justification R chain' n db) \<and>
    (\<forall>chain'. indexed_blocks zset chain' db' =
      (if chain' = chain then insert (sj_block_number j) (indexed_blocks zset chain' db)
       else indexed_blocks zset chain' db)) \<and>
    (\<forall>chain'. block_index_ok zset chain' db \<longrightarrow> block_index_ok zset chain' db') \<and>
    (\<forall>k. k \<noteq> justification_blocks_key chain \<longrightarrow> zset db' k = zset db k) \<and>
    (\<forall>chain_id address. zset db' (ranges_key chain_id address) = zset db (ranges_key chain_id address) \<and>
      get_contract_cursor R chain_id address db' = get_contract_cursor R chain_id address db)"
proof (intro conjI allI impI)
  show "get_justification R chain (sj_block_number j) db' = Inr j"
    using redis_server.get_after_add [OF redis_frame.axioms(1) [OF assms(1)] assms(2)] by simp
qed (use redis_frame.add_justification_frame [OF assms] redis_frame.add_justification_indexes [OF assms]
    ranges_key_not_blocks in simp_all)

lemma demo_add_justification:
  "add_justification mem_redis ''avail'' demo_stored empty_db =
     Inr \<lparr>mem_json = (\<lambda>_. None)(justification_key ''avail'' 5 \<mapsto> demo_stored),
        mem_zsets = (\<lambda>_. [])(justification_blocks_key ''avail'' := [(show_nat 5, 5)]),
        mem_strings = \<lambda>_. None\<rparr>"
  by (simp add: add_justification_def connection_def get_connection_def MAX_RECONNECT_ATTEMPTS_def
      mem_redis_def empty_db_def demo_stored_def upt_rec)

theorem justification_store_roundtrip_witness:
  "\<exists>db'. add_justification mem_redis ''avail'' demo_stored empty_db = Inr db' \<and>
     get_justification mem_redis ''avail'' 5 db' = Inr demo_stored \<and>
     get_justification mem_redis ''turing'' 5 db' = get_justification mem_redis ''turing'' 5 empty_db \<and>
     indexed_blocks mem_zset ''avail'' db' = {5} \<and> indexed_blocks mem_zset ''turing'' db' = {} \<and>
     get_contract_cursor mem_redis 1 (replicate 20 1) db' = Inr None"
proof -
  have "sj_block_number demo_stored = 5"
    by (simp add: demo_stored_def)
  moreover have "indexed_blocks mem_zset chain empty_db = {}" for chain
    by (simp add: indexed_blocks_def mem_zset_def empty_db_def)
  moreover have "get_contract_cursor mem_redis 1 (replicate 20 1) empty_db = Inr None"
    by (simp add: get_contract_cursor_def mem_connection) (simp add: mem_redis_def empty_db_def)
  ultimately show ?thesis
    using justification_store_roundtrip [OF memf.redis_frame_axioms demo_add_justification]
      demo_add_justification by simp
qed

text \<open>
  A range query on a well-formed index returns exactly the indexed block numbers within the
  inclusive range, in ascending order and without repetition.
\<close>

theorem blocks_in_range_exact:
  assumes "redis_server R zset" and "block_index_ok zset chain db"
    and "get_blocks_in_range R chain start stop db = Inr ns"
  shows "set ns = {n \<in> indexed_blocks zset chain db. start \<le> n \<and> n \<le> stop} \<and> sorted ns \<and> distinct ns"
  using redis_server.get_blocks_in_range_set [OF assms(1,3,2)] by blast

theorem blocks_in_range_exact_witness:
  "\<exists>ns. get_blocks_in_range mem_redis ''avail'' 1 9
     (empty_db\<lparr>mem_zsets := (\<lambda>_. [])(justification_blocks_key ''avail'' := [(show_nat 5, 5)])\<rparr>) = Inr ns \<and>
     set ns = {n \<in> {5}. 1 \<le> n \<and> n \<le> 9} \<and> sorted ns \<and> distinct ns"
proof -
  let ?db = "empty_db\<lparr>mem_zsets := (\<lambda>_. [])(justification_blocks_key ''avail'' := [(show_nat 5, 5)])\<rparr>"
  have "get_blocks_in_range mem_redis ''avail'' 1 9 ?db = Inr [5]"
    by (simp add: get_blocks_in_range_def connection_def get_connection_def parse_unsigned_show_nat
        MAX_RECONNECT_ATTEMPTS_def mem_redis_def upt_rec)
  moreover have "block_index_ok mem_zset ''avail'' ?db"
    by (simp add: block_index_ok_def mem_zset_def)
  moreover have "indexed_blocks mem_zset ''avail'' ?db = {5}"
    by (auto simp: indexed_blocks_def mem_zset_def word_unat_eq_iff)
  ultimately show ?thesis
    using blocks_in_range_exact [OF memr.redis_server_axioms, of "''avail''" ?db 1 9 "[5]"] by auto
qed

end
