(* ===== verification/Rotation.thy ===== *)
theory Rotation
  imports Justification
begin

text \<open>
  \<open>circuits/builder/rotate.rs\<close>: checking that an epoch end header encodes a new authority set
  at a position the prover names, and the rotation from one authority set to the next.
\<close>

section \<open>Gadgets\<close>

definition verify_consensus_log :: "bytes \<Rightarrow> unit option" where
  "verify_consensus_log prefix_subarray = do {
     let header_consensus_flag = prefix_subarray ! 1;
     _ \<leftarrow> assert_is_equal header_consensus_flag 4;
     assert_is_equal (subarray 2 6 prefix_subarray) [70, 82, 78, 75]
   }"

definition verify_scheduled_change_message_length_and_flag ::
  "plonky2x \<Rightarrow> bytes \<Rightarrow> variable option"
where
  "verify_scheduled_change_message_length_and_flag B prefix_subarray = do {
     let prefix_cursor = CONSENSUS_ENGINE_ID_PREFIX_LENGTH;
     let encoded_scheduled_change_message_length =
       subarray CONSENSUS_ENGINE_ID_PREFIX_LENGTH
         (CONSENSUS_ENGINE_ID_PREFIX_LENGTH + MAX_COMPACT_UINT_BYTES) prefix_subarray;
     (_, compress_mode) \<leftarrow> decode_compact_int B encoded_scheduled_change_message_length;
     encoded_scheduled_change_message_length_byte_length \<leftarrow>
       get_compact_int_byte_length B compress_mode;
     let prefix_cursor =
       f_add B prefix_cursor encoded_scheduled_change_message_length_byte_length;
     header_schedule_change_flag \<leftarrow> select_byte B prefix_subarray prefix_cursor;
     _ \<leftarrow> assert_is_equal header_schedule_change_flag 1;
     Some (f_add B prefix_cursor 1)
   }"

definition verify_encoded_num_authorities ::
  "plonky2x \<Rightarrow> bytes \<Rightarrow> variable \<Rightarrow> bytes \<Rightarrow> variable \<Rightarrow> variable option"
where
  "verify_encoded_num_authorities B prefix_subarray prefix_cursor header_hash
     untrusted_authority_set_size = do {
     encoded_authority_set_size \<leftarrow>
       get_fixed_subarray B MAX_COMPACT_UINT_BYTES prefix_subarray prefix_cursor header_hash;
     (decoded_authority_set_size, compress_mode) \<leftarrow>
       decode_compact_int B encoded_authority_set_size;
     num_authorities_u32 \<leftarrow> u32_from_variables B untrusted_authority_set_size;
     _ \<leftarrow> assert_is_equal decoded_authority_set_size num_authorities_u32;
     encoded_new_authority_set_length_size_bytes \<leftarrow>
       get_compact_int_byte_length B compress_mode;
     Some (f_add B prefix_cursor encoded_new_authority_set_length_size_bytes)
   }"

text \<open>One round of the loop over the validators; the state is \<open>validator_disabled\<close>.\<close>

definition expected_weight_bytes :: bytes where
  "expected_weight_bytes = [1, 0, 0, 0, 0, 0, 0, 0]"

definition expected_delay_bytes :: bytes where
  "expected_delay_bytes = [0, 0, 0, 0]"

definition verify_validator ::
  "bytes \<Rightarrow> variable \<Rightarrow> bytes list \<Rightarrow> nat \<Rightarrow> bool \<Rightarrow> bool option"
where
  "verify_validator enc_validator_subarray num_authorities pubkeys i validator_disabled = do {
     let idx = i * VALIDATOR_LENGTH;
     let curr_validator = i + 1;
     let extracted_pubkey = subarray idx (idx + PUBKEY_LENGTH) enc_validator_subarray;
     let pubkey_match = (extracted_pubkey = pubkeys ! i);
     _ \<leftarrow> assert_is_equal (pubkey_match \<or> validator_disabled) True;
     let extracted_weight =
       subarray (idx + PUBKEY_LENGTH) (idx + VALIDATOR_LENGTH) enc_validator_subarray;
     let weight_match = (extracted_weight = expected_weight_bytes);
     _ \<leftarrow> assert_is_equal (weight_match \<or> validator_disabled) True;
     let at_end = (curr_validator = num_authorities);
     let validator_disabled = (if at_end then True else validator_disabled);
     let extracted_delay =
       subarray (idx + VALIDATOR_LENGTH) (idx + VALIDATOR_LENGTH + DELAY_LENGTH)
         enc_validator_subarray;
     let delay_match = (extracted_delay = expected_delay_bytes);
     _ \<leftarrow> assert_is_equal (delay_match \<or> \<not> at_end) True;
     Some validator_disabled
   }"

definition verify_epoch_end_header ::
  "plonky2x \<Rightarrow> nat \<Rightarrow> nat \<Rightarrow> EncodedHeader \<Rightarrow> bytes \<Rightarrow> variable \<Rightarrow> variable \<Rightarrow> bytes list \<Rightarrow>
   unit option"
where
  "verify_epoch_end_header B max_authority_set_size max_subarray_size header header_hash
     num_authorities start_position pubkeys = do {
     let num_authorities_zero = (num_authorities = 0);
     _ \<leftarrow> assert_is_equal num_authorities_zero False;
     let cursor = start_position;
     prefix_subarray \<leftarrow>
       get_fixed_subarray B MAX_PREFIX_LENGTH (header_bytes header) cursor header_hash;
     _ \<leftarrow> verify_consensus_log prefix_subarray;
     prefix_idx_after_scheduled_change_flag \<leftarrow>
       verify_scheduled_change_message_length_and_flag B prefix_subarray;
     total_prefix_length \<leftarrow>
       verify_encoded_num_authorities B prefix_subarray prefix_idx_after_scheduled_change_flag
         header_hash num_authorities;
     let cursor = f_add B cursor total_prefix_length;
     enc_validator_subarray \<leftarrow>
       get_fixed_subarray B max_subarray_size (header_bytes header) cursor header_hash;
     _ \<leftarrow> fold_option (verify_validator enc_validator_subarray num_authorities pubkeys)
       [0..<max_authority_set_size] False;
     Some ()
   }"

text \<open>The justification inside \<open>verify_simple_justification\<close> comes from a hint: an argument.\<close>

definition rotate_set ::
  "plonky2x \<Rightarrow> nat \<Rightarrow> nat \<Rightarrow> u64 \<Rightarrow> bytes \<Rightarrow> RotateStruct \<Rightarrow> JustificationStruct \<Rightarrow> bytes option"
where
  "rotate_set B max_authority_set_size max_subarray_size current_authority_set_id
     current_authority_set_hash rot justification = do {
     _ \<leftarrow> assert_is_equal max_subarray_size
       (max_authority_set_size * VALIDATOR_LENGTH + DELAY_LENGTH);
     let target_header_hash = hash_encoded_header B (target_header rot);
     _ \<leftarrow> verify_simple_justification B max_authority_set_size (epoch_end_block_number rot)
       target_header_hash current_authority_set_id current_authority_set_hash justification;
     _ \<leftarrow> verify_epoch_end_header B max_authority_set_size max_subarray_size (target_header rot)
       target_header_hash (target_header_num_authorities rot)
       (next_authority_set_start_position rot) (new_pubkeys rot);
     compute_authority_set_commitment B max_authority_set_size
       (target_header_num_authorities rot) (new_pubkeys rot)
   }"

section \<open>The encoding of a scheduled change\<close>

text \<open>Each authority is its key and its weight, which is 1.\<close>

definition encode_authorities :: "bytes list \<Rightarrow> bytes" where
  "encode_authorities ks = concat (map (\<lambda>k. k @ expected_weight_bytes) ks)"

definition scheduled_change :: "bytes list \<Rightarrow> bytes" where
  "scheduled_change ks =
     1 # scale_compact (of_nat (length ks)) @ encode_authorities ks @ expected_delay_bytes"

text \<open>The digest item: the consensus flag, the engine id \<open>FRNK\<close>, the message.\<close>

definition consensus_log :: "bytes \<Rightarrow> bytes" where
  "consensus_log msg = [4, 70, 82, 78, 75] @ scale_compact (of_nat (length msg)) @ msg"

lemma length_encode_authorities:
  "list_all (\<lambda>k. length k = 32) ks \<Longrightarrow> length (encode_authorities ks) = 40 * length ks"
  by (induction ks) (simp_all add: encode_authorities_def expected_weight_bytes_def)

lemma encode_authorities_snoc:
  "encode_authorities (ks @ [k]) = encode_authorities ks @ k @ expected_weight_bytes"
  by (simp add: encode_authorities_def)

section \<open>The loop over the validators\<close>

text \<open>
  The loop accepts exactly the encodings of the first \<open>num\<close> keys followed, if all of them
  were seen, by a zero delay.
\<close>

definition validators_match :: "bytes \<Rightarrow> bytes list \<Rightarrow> nat \<Rightarrow> bool" where
  "validators_match enc ks n \<longleftrightarrow> subarray 0 (40 * n) enc = encode_authorities (take n ks)"

lemma validators_match_Suc:
  assumes ks: "wf_pubkeys N ks" and n: "n < N" and enc: "40 * Suc n \<le> length enc"
  shows "validators_match enc ks (Suc n) \<longleftrightarrow> validators_match enc ks n \<and>
    subarray (40 * n) (40 * n + 32) enc = ks ! n \<and>
    subarray (40 * n + 32) (40 * n + 40) enc = expected_weight_bytes"
proof -
  have join: "subarray 0 (40 * Suc n) enc = subarray 0 (40 * n) enc @
      subarray (40 * n) (40 * n + 32) enc @ subarray (40 * n + 32) (40 * n + 40) enc"
    by (simp add: subarray_join add.commute)
  have auths: "encode_authorities (take (Suc n) ks) =
      encode_authorities (take n ks) @ ks ! n @ expected_weight_bytes"
    using ks n by (simp add: wf_pubkeys_def take_Suc_conv_app_nth encode_authorities_snoc)
  have "length (encode_authorities (take n ks)) = 40 * n"
    using ks n by (subst length_encode_authorities)
      (auto simp: wf_pubkeys_def list_all_iff dest: in_set_takeD)
  then have "length (subarray 0 (40 * n) enc) = length (encode_authorities (take n ks))"
    using enc by (simp add: length_subarray_within)
  moreover have "length (subarray (40 * n) (40 * n + 32) enc) = length (ks ! n)"
    using enc wf_pubkeys_nth [OF ks n] by (simp add: length_subarray_within)
  ultimately show ?thesis
    by (simp only: validators_match_def join auths append_eq_append_conv simp_thms)
qed

lemma verify_validator_step:
  assumes "wf_pubkeys N ks" and "j < N" and "length enc = 40 * N + 4" and "j < num"
    and "validators_match enc ks j"
  shows "verify_validator enc num ks j False =
    (if validators_match enc ks (Suc j) \<and>
        (num = Suc j \<longrightarrow> subarray (40 * num) (40 * num + 4) enc = expected_delay_bytes)
     then Some (num = Suc j) else None)"
proof -
  have "validators_match enc ks (Suc j) \<longleftrightarrow> subarray (40 * j) (40 * j + 32) enc = ks ! j \<and>
      subarray (40 * j + 32) (40 + 40 * j) enc = expected_weight_bytes"
    using validators_match_Suc [OF assms(1,2), of enc] assms(2,3,5)
    by (simp add: add.commute [of "40 * j" 40])
  then show ?thesis
    using assms(4)
    by (auto simp: verify_validator_def Let_def const_simps mult.commute [of j 40]
        add.commute [of "40 * j" 40])
qed

lemma verify_validator_disabled: "num \<le> j \<Longrightarrow> verify_validator enc num ks j True = Some True"
  by (simp add: verify_validator_def)

lemma verify_validators_eq:
  assumes ks: "wf_pubkeys N ks" and enc: "length enc = 40 * N + 4" and num: "0 < num" and "j \<le> N"
  shows "fold_option (verify_validator enc num ks) [0..<j] False =
    (if validators_match enc ks (min num j) \<and>
        (num \<le> j \<longrightarrow> subarray (40 * num) (40 * num + 4) enc = expected_delay_bytes)
     then Some (num \<le> j) else None)"
  using \<open>j \<le> N\<close>
proof (induction j)
  case 0
  with num show ?case by (simp add: validators_match_def encode_authorities_def subarray_def)
next
  case (Suc j)
  have step: "fold_option (verify_validator enc num ks) [0..<Suc j] False =
      Option.bind (fold_option (verify_validator enc num ks) [0..<j] False)
        (verify_validator enc num ks j)"
    by (simp add: fold_option_snoc)
  show ?case
  proof (cases "num \<le> j")
    case True
    then have "min num (Suc j) = min num j" by simp
    with True Suc show ?thesis
      unfolding step by (simp add: verify_validator_disabled)
  next
    case False
    then have "min num j = j" "min num (Suc j) = Suc j" "num \<le> Suc j \<longleftrightarrow> num = Suc j"
      by auto
    moreover have "validators_match enc ks (Suc j) \<Longrightarrow> validators_match enc ks j"
      using validators_match_Suc [OF ks, of j enc] Suc.prems enc by simp
    ultimately show ?thesis
      unfolding step using False Suc verify_validator_step [OF ks _ enc, of j num] by auto
  qed
qed

section \<open>Accepted epoch end headers\<close>

definition mode_length :: "nat \<Rightarrow> nat" where
  "mode_length m = [1, 2, 4, 5] ! m"

text \<open>The second window of the header, from the first key on, and the loop over it.\<close>

definition authorities_at :: "bytes \<Rightarrow> nat \<Rightarrow> bytes list \<Rightarrow> nat \<Rightarrow> nat \<Rightarrow> bool" where
  "authorities_at hb N ks num c \<longleftrightarrow> c + 40 * N + 4 \<le> length hb \<and>
     subarray c (c + 40 * min num N) hb = encode_authorities (take num ks) \<and>
     (num \<le> N \<longrightarrow> subarray (c + 40 * num) (c + 40 * num + 4) hb = expected_delay_bytes)"

text \<open>
  At position \<open>p\<close>, after one byte, stands a consensus log of the GRANDPA engine with a
  scheduled change that declares \<open>num\<close> authorities, and the authorities begin at \<open>c\<close>.
\<close>

definition scheduled_change_at :: "plonky2x \<Rightarrow> bytes \<Rightarrow> nat \<Rightarrow> nat \<Rightarrow> nat \<Rightarrow> bool" where
  "scheduled_change_at B hb p num c \<longleftrightarrow>
     subarray (p + 1) (p + 6) hb = [4, 70, 82, 78, 75] \<and>
     (\<exists>len m1 m2.
        decode_compact_int B (subarray (p + 6) (p + 11) hb) = Some (len, m1) \<and>
        hb ! (p + 6 + mode_length m1) = 1 \<and>
        decode_compact_int B (subarray (p + 7 + mode_length m1) (p + 12 + mode_length m1) hb) =
          Some (of_nat num, m2) \<and>
        c = p + 7 + mode_length m1 + mode_length m2)"

lemma scheduled_change_at_unique:
  assumes "scheduled_change_at B hb p num c" "scheduled_change_at B hb p num' c'"
    and "num < 2 ^ 32" "num' < 2 ^ 32"
  shows "num' = num" and "c' = c"
proof -
  have "(of_nat num' :: u32) = of_nat num" and c: "c' = c"
    using assms(1,2) by (auto simp: scheduled_change_at_def)
  then show "num' = num"
    using assms(3,4) unat_of_nat_small [of num, where 'a = 32] unat_of_nat_small [of num', where 'a = 32] by simp
  show "c' = c" by (rule c)
qed

text \<open>
  The change at \<open>p\<close> lists exactly \<open>keys\<close>, from position \<open>pos\<close> on, each with weight one, and
  ends with a zero delay.
\<close>

definition reads_change :: "plonky2x \<Rightarrow> bytes \<Rightarrow> nat \<Rightarrow> nat \<Rightarrow> bytes list \<Rightarrow> nat \<Rightarrow> bool" where
  "reads_change B bs p num keys pos \<longleftrightarrow> scheduled_change_at B bs p num pos \<and>
     subarray pos (pos + 40 * num + 4) bs = encode_authorities keys @ expected_delay_bytes"

lemma mode_length_bound: "m < 4 \<Longrightarrow> 1 \<le> mode_length m \<and> mode_length m \<le> 5"
  by (auto simp: mode_length_def less_Suc_eq numeral_eq_Suc)

context plonky2x_gadgets
begin

lemma decode_compact_int_mode: "length bs = 5 \<Longrightarrow> decode_compact_int B bs = Some (v, m) \<Longrightarrow> m < 4"
  by (auto simp: decode_compact_int_eq split: if_splits)

lemma scheduled_change_flag_eq:
  assumes "length pre = 17"
  shows "verify_scheduled_change_message_length_and_flag B pre = Some c \<longleftrightarrow>
    (\<exists>v m. decode_compact_int B (subarray 6 11 pre) = Some (v, m) \<and>
       pre ! (6 + mode_length m) = 1 \<and> c = 7 + mode_length m)"
proof -
  have step: "get_compact_int_byte_length B m = Some (mode_length m) \<and>
      f_add B 6 (mode_length m) = 6 + mode_length m \<and>
      f_add B (6 + mode_length m) 1 = 7 + mode_length m \<and>
      select_byte B pre (6 + mode_length m) = Some (pre ! (6 + mode_length m))"
    if "decode_compact_int B (subarray 6 11 pre) = Some (v, m)" for v m
  proof -
    have m: "m < 4"
      using that assms by (intro decode_compact_int_mode [of "subarray 6 11 pre"])
        (simp_all add: length_subarray_within)
    with mode_length_bound [OF m] assms show ?thesis
      by (simp add: get_compact_int_byte_length_eq f_add_exact select_byte mode_length_def)
  qed
  show ?thesis
    unfolding verify_scheduled_change_message_length_and_flag_def
    by (cases "decode_compact_int B (subarray 6 11 pre)")
      (auto simp: const_simps bind_eq_Some_conv Let_def dest!: step)
qed

lemma encoded_num_authorities_eq:
  assumes "length pre = 17" and "k \<le> 12"
  shows "verify_encoded_num_authorities B pre k hash num = Some c \<longleftrightarrow>
    num < 2 ^ 32 \<and>
    (\<exists>m. decode_compact_int B (subarray k (k + 5) pre) = Some (of_nat num, m) \<and>
       c = k + mode_length m)"
proof -
  have step: "get_compact_int_byte_length B m = Some (mode_length m) \<and>
      f_add B k (mode_length m) = k + mode_length m"
    if "decode_compact_int B (subarray k (k + 5) pre) = Some (v, m)" for v m
  proof -
    have m: "m < 4"
      using that assms by (intro decode_compact_int_mode [of "subarray k (k + 5) pre"])
        (simp_all add: length_subarray_within)
    with mode_length_bound [OF m] assms show ?thesis
      by (simp add: get_compact_int_byte_length_eq f_add_exact mode_length_def)
  qed
  have sub: "get_fixed_subarray B 5 pre k hash = Some (subarray k (k + 5) pre)"
    using assms by (simp add: get_fixed_subarray)
  show ?thesis
    unfolding verify_encoded_num_authorities_def MAX_COMPACT_UINT_BYTES_def sub
    by (cases "decode_compact_int B (subarray k (k + 5) pre)")
      (auto simp: bind_eq_Some_conv u32_from_variables dest!: step)
qed

lemma scheduled_change_at_prefix:
  assumes hb: "p + 17 \<le> length hb"
  shows "(\<exists>k. verify_consensus_log (subarray p (p + 17) hb) = Some () \<and>
       verify_scheduled_change_message_length_and_flag B (subarray p (p + 17) hb) = Some k \<and>
       verify_encoded_num_authorities B (subarray p (p + 17) hb) k hash num = Some c) \<longleftrightarrow>
    num < 2 ^ 32 \<and> scheduled_change_at B hb p num (p + c)"
proof -
  let ?pre = "subarray p (p + 17) hb"
  have len: "length ?pre = 17"
    using hb by (simp add: length_subarray_within)
  have "subarray 1 6 ?pre = ?pre ! 1 # subarray 2 6 ?pre"
    using len by (intro nth_equalityI) (auto simp: length_subarray nth_subarray nth_Cons')
  then have log: "verify_consensus_log ?pre = Some () \<longleftrightarrow>
      subarray (p + 1) (p + 6) hb = [4, 70, 82, 78, 75]"
    by (auto simp: verify_consensus_log_def bind_eq_Some_conv subarray_subarray)
  have sub: "subarray a b ?pre = subarray (p + a) (p + b) hb" if "b \<le> 17" for a b
    using that by (simp add: subarray_subarray)
  have mode: "m < 4" if "decode_compact_int B (subarray (p + 6) (p + 11) hb) = Some (v, m)" for v m
    using that hb by (intro decode_compact_int_mode [of "subarray (p + 6) (p + 11) hb"])
      (simp_all add: length_subarray_within)
  have nth: "?pre ! (6 + mode_length m) = hb ! (p + 6 + mode_length m)" if "m < 4" for m
    using mode_length_bound [OF that] hb by (simp add: nth_subarray add.assoc)
  have num: "verify_encoded_num_authorities B ?pre (7 + mode_length m) hash num = Some c \<longleftrightarrow>
      num < 2 ^ 32 \<and> (\<exists>m2. decode_compact_int B (subarray (p + 7 + mode_length m)
        (p + 12 + mode_length m) hb) = Some (of_nat num, m2) \<and>
        p + c = p + 7 + mode_length m + mode_length m2)" if "m < 4" for m
  proof -
    have "subarray (7 + mode_length m) (7 + mode_length m + 5) ?pre =
        subarray (p + 7 + mode_length m) (p + 12 + mode_length m) hb"
      using mode_length_bound [OF that] by (simp add: sub algebra_simps)
    then show ?thesis
      using mode_length_bound [OF that] by (simp add: encoded_num_authorities_eq [OF len] add.assoc)
  qed
  show ?thesis
    unfolding scheduled_change_at_def log scheduled_change_flag_eq [OF len] sub [of 11 6, simplified]
    using mode nth num by (auto 0 4)
qed

lemma scheduled_change_at_bound:
  assumes "p + 17 \<le> length hb" and "scheduled_change_at B hb p num c"
  shows "p + 9 \<le> c \<and> c \<le> p + 17"
proof -
  obtain v m1 m2 where dec: "decode_compact_int B (subarray (p + 6) (p + 11) hb) = Some (v, m1)"
      "decode_compact_int B (subarray (p + 7 + mode_length m1) (p + 12 + mode_length m1) hb) =
        Some (of_nat num, m2)"
    and c: "c = p + 7 + mode_length m1 + mode_length m2"
    using assms(2) by (auto simp: scheduled_change_at_def)
  have m1: "m1 < 4"
    using assms(1) by (intro decode_compact_int_mode [OF _ dec(1)]) (simp add: length_subarray_within)
  have m2: "m2 < 4"
    using assms(1) mode_length_bound [OF m1]
    by (intro decode_compact_int_mode [OF _ dec(2)]) (simp add: length_subarray_within)
  show ?thesis
    using mode_length_bound [OF m1] mode_length_bound [OF m2] by (simp add: c)
qed

text \<open>A scheduled change that ends before byte \<open>m\<close> is read from the first \<open>m\<close> bytes alone.\<close>

lemma scheduled_change_at_take:
  assumes "p + 17 \<le> length hb" and "scheduled_change_at B hb p num c" and "c + 4 \<le> m"
  shows "scheduled_change_at B (take m hb) p num c"
proof -
  obtain v m1 m2 where dec: "decode_compact_int B (subarray (p + 6) (p + 11) hb) = Some (v, m1)"
      "decode_compact_int B (subarray (p + 7 + mode_length m1) (p + 12 + mode_length m1) hb) =
        Some (of_nat num, m2)"
    and log: "subarray (p + 1) (p + 6) hb = [4, 70, 82, 78, 75]" "hb ! (p + 6 + mode_length m1) = 1"
    and c: "c = p + 7 + mode_length m1 + mode_length m2"
    using assms(2) by (auto simp: scheduled_change_at_def)
  have m1: "m1 < 4"
    using assms(1) by (intro decode_compact_int_mode [OF _ dec(1)]) (simp add: length_subarray_within)
  have m2: "m2 < 4"
    using assms(1) mode_length_bound [OF m1]
    by (intro decode_compact_int_mode [OF _ dec(2)]) (simp add: length_subarray_within)
  have "p + 12 + mode_length m1 \<le> m" "p + 11 \<le> m" "p + 6 \<le> m" "p + 6 + mode_length m1 < m"
    using mode_length_bound [OF m1] mode_length_bound [OF m2] assms(3) c by simp_all
  with dec log c show ?thesis
    unfolding scheduled_change_at_def by (intro conjI exI [of _ v] exI [of _ m1] exI [of _ m2])
      (simp_all add: subarray_take)
qed

text \<open>Which epoch end headers are accepted, in full.\<close>

lemma verify_authorities_iff:
  assumes ks: "wf_pubkeys N ks" and "0 < num"
  shows "(do { enc \<leftarrow> get_fixed_subarray B (40 * N + 4) hb c hash;
     _ \<leftarrow> fold_option (verify_validator enc num ks) [0..<N] False; Some () }) = Some () \<longleftrightarrow>
     authorities_at hb N ks num c"
proof (cases "c + 40 * N + 4 \<le> length hb")
  case False
  then show ?thesis by (simp add: get_fixed_subarray authorities_at_def)
next
  case True
  let ?enc = "subarray c (c + (40 * N + 4)) hb"
  have "length ?enc = 40 * N + 4"
    using True by (simp add: length_subarray_within)
  moreover have "take (min num N) ks = take num ks"
    using ks by (simp add: wf_pubkeys_def min_def)
  ultimately show ?thesis
    using verify_validators_eq [OF ks, of ?enc num N] \<open>0 < num\<close> True
    by (auto simp: get_fixed_subarray authorities_at_def validators_match_def subarray_subarray
        min_def bind_eq_Some_conv add.assoc)
qed

lemma verify_epoch_end_header_iff:
  assumes h: "wf_header S header" and S: "S < 2 ^ 32" and ks: "wf_pubkeys N ks"
  shows "verify_epoch_end_header B N (40 * N + 4) header hash num p ks = Some () \<longleftrightarrow>
    0 < num \<and> num < 2 ^ 32 \<and> p + 17 \<le> S \<and>
    (\<exists>c. scheduled_change_at B (header_bytes header) p num c \<and> c + 40 * N + 4 \<le> S \<and>
       subarray c (c + 40 * min num N) (header_bytes header) = encode_authorities (take num ks) \<and>
       (num \<le> N \<longrightarrow> subarray (c + 40 * num) (c + 40 * num + 4) (header_bytes header) =
         expected_delay_bytes))"
proof (cases "0 < num \<and> p + 17 \<le> S")
  case False
  then show ?thesis
    using h by (auto simp: verify_epoch_end_header_def bind_eq_Some_conv get_fixed_subarray
        wf_header_def const_simps)
next
  case True
  let ?hb = "header_bytes header" and ?pre = "subarray p (p + 17) (header_bytes header)"
  have len: "length ?hb = S"
    using h by (simp add: wf_header_def)
  have pos: "f_add B p c = p + c" if "scheduled_change_at B ?hb p num (p + c)" for c
    using scheduled_change_at_bound [OF _ that] True len S by (intro f_add_exact) simp
  have "verify_epoch_end_header B N (40 * N + 4) header hash num p ks = Some () \<longleftrightarrow>
      (\<exists>c. (\<exists>k. verify_consensus_log ?pre = Some () \<and>
         verify_scheduled_change_message_length_and_flag B ?pre = Some k \<and>
         verify_encoded_num_authorities B ?pre k hash num = Some c) \<and> authorities_at ?hb N ks num (f_add B p c))"
    using True unfolding verify_epoch_end_header_def Let_def verify_authorities_iff [OF ks conjunct1 [OF True], of ?hb _ hash, symmetric]
    by (auto simp: bind_eq_Some_conv get_fixed_subarray len const_simps)
  also have "\<dots> \<longleftrightarrow> num < 2 ^ 32 \<and> (\<exists>c. scheduled_change_at B ?hb p num (p + c) \<and> authorities_at ?hb N ks num (p + c))"
    using pos scheduled_change_at_prefix [of p ?hb hash num] True len by auto
  also have "(\<exists>c. scheduled_change_at B ?hb p num (p + c) \<and> authorities_at ?hb N ks num (p + c)) \<longleftrightarrow>
      (\<exists>c. scheduled_change_at B ?hb p num c \<and> authorities_at ?hb N ks num c)"
    by (auto simp: scheduled_change_at_def add.assoc)
  finally show ?thesis
    using True by (auto simp: authorities_at_def len)
qed

text \<open>What an accepted header holds, and which part of it the hash covers.\<close>

lemma accepted_header_change:
  assumes h: "wf_header S header" and S: "S < 2 ^ 32" and ks: "wf_pubkeys N ks"
    and ok: "verify_epoch_end_header B N (40 * N + 4) header hash num p ks = Some ()" and "num \<le> N"
  shows "\<exists>pos. 0 < num \<and> reads_change B (header_bytes header) p num (take num ks) pos \<and>
    (\<forall>m. pos + 40 * num + 4 \<le> m \<longrightarrow>
      reads_change B (take m (header_bytes header)) p num (take num ks) pos)"
proof -
  let ?hb = "header_bytes header"
  obtain pos where *: "0 < num" "p + 17 \<le> length ?hb" "scheduled_change_at B ?hb p num pos"
    "subarray pos (pos + 40 * num) ?hb = encode_authorities (take num ks)"
    "subarray (pos + 40 * num) (pos + 40 * num + 4) ?hb = expected_delay_bytes"
    using ok [unfolded verify_epoch_end_header_iff [OF h S ks]] \<open>num \<le> N\<close> h
    by (auto simp: min_absorb1 wf_header_def)
  have "subarray pos (pos + 40 * num + 4) ?hb = encode_authorities (take num ks) @ expected_delay_bytes"
    using subarray_join [of pos "pos + 40 * num" "pos + 40 * num + 4" ?hb] by (simp add: *(4,5))
  moreover have "scheduled_change_at B (take m ?hb) p num pos" if "pos + 40 * num + 4 \<le> m" for m
    using that by (intro scheduled_change_at_take [OF *(2,3)]) simp
  ultimately show ?thesis
    using * by (auto simp: reads_change_def subarray_take)
qed

text \<open>Every header with the digest item at the named position is accepted, if its window fits.\<close>

lemma scheduled_change_at_encoded:
  assumes hb: "hb = pre @ x # consensus_log (scheduled_change ks) @ post"
    and ks: "list_all (\<lambda>k. length k = 32) ks" "ks \<noteq> []" and len: "length hb < 2 ^ 32"
  defines "n \<equiv> of_nat (length ks) :: u32"
    and "l \<equiv> of_nat (length (scheduled_change ks)) :: u32"
  shows "scheduled_change_at B hb (length pre) (length ks)
    (length pre + 7 + compact_length l + compact_length n)"
proof -
  let ?p = "length pre"
  define tl where "tl = encode_authorities ks @ expected_delay_bytes @ post"
  have hb': "hb = pre @ x # [4, 70, 82, 78, 75] @ scale_compact l @ 1 # scale_compact n @ tl"
    by (simp add: hb consensus_log_def scheduled_change_def tl_def n_def l_def)
  have "40 \<le> length (encode_authorities ks)"
    using ks by (simp add: length_encode_authorities Suc_le_eq)
  then have room: "5 \<le> length tl"
    by (simp add: tl_def)
  have "subarray (?p + 6) (?p + 11) hb = take 5 (scale_compact l @ 1 # scale_compact n @ tl)"
    by (simp add: hb' subarray_def)
  then have l: "decode_compact_int B (subarray (?p + 6) (?p + 11) hb) = Some (l, compact_mode l)"
    using room by (simp add: decode_scale_compact del: take_append)
  have cl: "mode_length (compact_mode w) = compact_length w" for w
    by (simp add: mode_length_def compact_length_def)
  have flag: "hb ! (?p + 6 + compact_length l) = 1"
    by (simp add: hb' nth_append length_scale_compact)
  have "subarray (?p + 7 + compact_length l) (?p + 12 + compact_length l) hb = take 5 (scale_compact n @ tl)"
  proof -
    have "hb = (pre @ x # [4, 70, 82, 78, 75] @ scale_compact l @ [1]) @ scale_compact n @ tl"
      by (simp add: hb')
    moreover have "length (pre @ x # [4, 70, 82, 78, 75] @ scale_compact l @ [1]) = ?p + 7 + compact_length l"
      by (simp add: length_scale_compact)
    moreover have "?p + 12 + compact_length l = (?p + 7 + compact_length l) + 5"
      by simp
    ultimately show ?thesis
      by (simp only: subarray_behind)
  qed
  then have n: "decode_compact_int B (subarray (?p + 7 + compact_length l) (?p + 12 + compact_length l) hb) =
      Some (n, compact_mode n)"
    using room by (simp add: decode_scale_compact del: take_append)
  have "subarray (?p + 1) (?p + 6) hb = [4, 70, 82, 78, 75]"
    by (simp add: hb' subarray_def)
  with l flag n show ?thesis
    by (auto simp: scheduled_change_at_def n_def cl)
qed

lemma verify_epoch_end_header_encoded:
  assumes header: "header_bytes header = pre @ x # consensus_log (scheduled_change ks) @ post"
    and ks: "list_all (\<lambda>k. length k = 32) ks" "ks \<noteq> []" "length ks \<le> N"
    and pubkeys: "wf_pubkeys N (ks @ padding)"
    and len: "length (header_bytes header) < 2 ^ 32"
  shows "verify_epoch_end_header B N (40 * N + 4) header hash (length ks) (length pre) (ks @ padding) =
    Some () \<longleftrightarrow> 40 * (N - length ks) \<le> length post"
proof -
  let ?hb = "header_bytes header"
  define l n where "l = (of_nat (length (scheduled_change ks)) :: u32)"
    and "n = (of_nat (length ks) :: u32)"
  define c where "c = length pre + 7 + compact_length l + compact_length n"
  have at: "scheduled_change_at B ?hb (length pre) (length ks) c"
    unfolding c_def l_def n_def by (rule scheduled_change_at_encoded [OF header ks(1,2) len])
  define front where "front = pre @ x # [4, 70, 82, 78, 75] @ scale_compact l @ 1 # scale_compact n"
  have hb: "?hb = front @ encode_authorities ks @ expected_delay_bytes @ post"
    by (simp add: header front_def l_def n_def consensus_log_def scheduled_change_def)
  have front: "length front = c"
    by (simp add: front_def c_def length_scale_compact)
  have auths: "length (encode_authorities ks) = 40 * length ks"
    using ks by (simp add: length_encode_authorities)
  have total: "length ?hb = c + 40 * length ks + 4 + length post"
    by (simp add: hb front auths expected_delay_bytes_def)
  have "1 \<le> length ks"
    using ks(2) by (cases ks) simp_all
  then have pos: "0 < length ks" "length ks < 2 ^ 32" "length pre + 17 \<le> length ?hb"
    using ks(2) len total compact_length_bounds [of l] compact_length_bounds [of n]
    by (simp_all add: c_def)
  have keys: "subarray c (c + 40 * min (length ks) N) ?hb = encode_authorities (take (length ks) (ks @ padding))"
    "subarray (c + 40 * length ks) (c + 40 * length ks + 4) ?hb = expected_delay_bytes"
    using ks(3) by (simp_all add: hb subarray_def front auths min_absorb1 expected_delay_bytes_def)
  have at_iff: "scheduled_change_at B ?hb (length pre) (length ks) c' \<longleftrightarrow> c' = c" for c'
    using at scheduled_change_at_unique(2) [OF at _ pos(2,2)] by blast
  have wf: "wf_header (length ?hb) header" and S: "length ?hb < 2 ^ 32"
    using len by (simp_all add: wf_header_def)
  have "verify_epoch_end_header B N (40 * N + 4) header hash (length ks) (length pre) (ks @ padding) =
      Some () \<longleftrightarrow> c + 40 * N + 4 \<le> length ?hb"
    unfolding verify_epoch_end_header_iff [OF wf S pubkeys] at_iff using pos keys by blast
  also have "\<dots> \<longleftrightarrow> 40 * (N - length ks) \<le> length post"
    using total ks(3) by (auto simp: diff_mult_distrib2)
  finally show ?thesis .
qed

end

text \<open>Which rotations are accepted, and the commitment they return.\<close>

context plonky2x_gadgets
begin

lemma rotate_iff:
  assumes "wf_pubkeys N (new_pubkeys rot)" and "0 < N"
  defines "header_hash \<equiv> hash_encoded_header B (target_header rot)"
  shows "rotate_set B N (40 * N + 4) set_id set_hash rot j = Some c \<longleftrightarrow>
    verify_simple_justification B N (epoch_end_block_number rot) header_hash set_id set_hash j =
      Some () \<and>
    verify_epoch_end_header B N (40 * N + 4) (target_header rot) header_hash
      (target_header_num_authorities rot) (next_authority_set_start_position rot) (new_pubkeys rot) =
      Some () \<and>
    target_header_num_authorities rot \<noteq> 0 \<and>
    c = chain_hash (curta_sha256 B) (take (target_header_num_authorities rot) (new_pubkeys rot))"
  using compute_authority_set_commitment_eq [of "new_pubkeys rot" N] assms
  by (auto simp: rotate_set_def const_simps bind_eq_Some_conv Let_def wf_pubkeys_def mult.commute)

lemma rotate_accepted:
  assumes "wf_header S (target_header rot)" and "S < 2 ^ 32"
    and "wf_pubkeys N (new_pubkeys rot)" and "0 < N"
    and "target_header_num_authorities rot = num" and "num \<le> N"
    and "rotate_set B N (N * VALIDATOR_LENGTH + DELAY_LENGTH) set_id set_hash rot j = Some commitment"
  shows "\<exists>pos. verify_simple_justification B N (epoch_end_block_number rot)
      (hash_encoded_header B (target_header rot)) set_id set_hash j = Some () \<and>
    reads_change B (header_bytes (target_header rot)) (next_authority_set_start_position rot) num
      (take num (new_pubkeys rot)) pos \<and>
    0 < num \<and> commitment = chain_hash (curta_sha256 B) (take num (new_pubkeys rot)) \<and>
    (unat (header_size (target_header rot)) \<le> S \<and>
       pos + 40 * num + 4 \<le> unat (header_size (target_header rot)) \<longrightarrow>
     hash_encoded_header B (target_header rot) =
       blake2b_256 (take (unat (header_size (target_header rot))) (header_bytes (target_header rot))) \<and>
     reads_change B (take (unat (header_size (target_header rot))) (header_bytes (target_header rot)))
       (next_authority_set_start_position rot) num (take num (new_pubkeys rot)) pos)"
proof -
  have "rotate_set B N (40 * N + 4) set_id set_hash rot j = Some commitment"
    using assms(7) by (simp add: const_simps mult.commute)
  with assms(5) rotate_iff [OF assms(3,4), of set_id set_hash j commitment]
  have just: "verify_simple_justification B N (epoch_end_block_number rot)
      (hash_encoded_header B (target_header rot)) set_id set_hash j = Some ()"
    and header: "verify_epoch_end_header B N (40 * N + 4) (target_header rot)
      (hash_encoded_header B (target_header rot)) num (next_authority_set_start_position rot)
      (new_pubkeys rot) = Some ()"
    and commitment: "commitment = chain_hash (curta_sha256 B) (take num (new_pubkeys rot))"
    by simp_all
  have "hash_encoded_header B (target_header rot) =
      blake2b_256 (take (unat (header_size (target_header rot))) (header_bytes (target_header rot)))"
    if "unat (header_size (target_header rot)) \<le> S"
    using that assms(1) by (simp add: hash_encoded_header_def wf_header_def curta_blake2b_variable)
  with accepted_header_change [OF assms(1-3) header assms(6)] just commitment show ?thesis
    by blast
qed

lemma rotate_encoded:
  assumes header:
      "header_bytes (target_header rot) = pre @ x # consensus_log (scheduled_change auths) @ post"
    and "auths \<noteq> []" and "length auths \<le> N" and "new_pubkeys rot = auths @ padding"
    and pubkeys: "wf_pubkeys N (new_pubkeys rot)"
    and "length (header_bytes (target_header rot)) < 2 ^ 32"
    and "target_header_num_authorities rot = length auths"
    and "next_authority_set_start_position rot = length pre"
  shows "rotate_set B N (N * VALIDATOR_LENGTH + DELAY_LENGTH) set_id set_hash rot j =
    (if verify_simple_justification B N (epoch_end_block_number rot)
        (hash_encoded_header B (target_header rot)) set_id set_hash j = Some () \<and>
        40 * (N - length auths) \<le> length post
     then Some (chain_hash (curta_sha256 B) auths) else None)"
proof -
  have auths: "list_all (\<lambda>k. length k = 32) auths" and "0 < N"
    using assms(2-5) by (cases N; simp add: wf_pubkeys_def)+
  note header_ok = verify_epoch_end_header_encoded
    [OF header auths assms(2,3) pubkeys [unfolded assms(4)] assms(6)]
  have "rotate_set B N (40 * N + 4) set_id set_hash rot j = Some c \<longleftrightarrow>
      verify_simple_justification B N (epoch_end_block_number rot)
        (hash_encoded_header B (target_header rot)) set_id set_hash j = Some () \<and>
      40 * (N - length auths) \<le> length post \<and> c = chain_hash (curta_sha256 B) auths" for c
    using rotate_iff [OF pubkeys \<open>0 < N\<close>, of set_id set_hash j c] header_ok assms(2,4,7,8) by simp
  note ok = this
  show ?thesis
    using ok by (cases "rotate_set B N (40 * N + 4) set_id set_hash rot j")
      (auto simp: const_simps mult.commute)
qed

lemma rotate_accepts:
  assumes "header_bytes (target_header rot) = pre @ x # consensus_log (scheduled_change auths) @ post"
    and "auths \<noteq> []" and "length auths \<le> N" and "new_pubkeys rot = auths @ padding"
    and "wf_pubkeys N (new_pubkeys rot)"
    and "length (header_bytes (target_header rot)) < 2 ^ 32" and "40 * N \<le> length post"
    and "target_header_num_authorities rot = length auths"
    and "next_authority_set_start_position rot = length pre"
    and "verify_simple_justification B N (epoch_end_block_number rot)
      (hash_encoded_header B (target_header rot)) set_id set_hash j = Some ()"
  shows "rotate_set B N (N * VALIDATOR_LENGTH + DELAY_LENGTH) set_id set_hash rot j =
    Some (chain_hash (curta_sha256 B) auths)"
  using rotate_encoded [OF assms(1-6,8,9), of set_id set_hash j] assms(7,10)
  by (simp add: diff_mult_distrib2)

end

section \<open>An accepted rotation\<close>

text \<open>
  The header is all zero but for the digest item, so that its demonstration hash is zero; the
  set of the demonstration justification signs it.
\<close>

definition demo_epoch_end_bytes :: bytes where
  "demo_epoch_end_bytes =
     zero32 @ 0 # consensus_log (scheduled_change [replicate 32 8]) @ replicate 80 0"

definition demo_rotate :: RotateStruct where
  "demo_rotate =
     \<lparr>epoch_end_block_number = 5,
      target_header = \<lparr>header_bytes = demo_epoch_end_bytes, header_size = 85\<rparr>,
      target_header_num_authorities = 1,
      next_authority_set_start_position = 32,
      new_pubkeys = [replicate 32 8, zero32]\<rparr>"

lemma length_demo_epoch_end_bytes: "length demo_epoch_end_bytes = 165"
  by (simp add: demo_epoch_end_bytes_def consensus_log_def scheduled_change_def length_scale_compact
      compact_length_def compact_mode_def length_encode_authorities expected_delay_bytes_def)

lemma hash_demo_epoch_end:
  "hash_encoded_header demo_gadgets \<lparr>header_bytes = demo_epoch_end_bytes, header_size = n\<rparr> = zero32"
  if "32 \<le> unat n" "unat n \<le> 165" for n
  using that
  by (simp add: hash_encoded_header_def demo_gadgets_def ref_gadgets_def pad32_def
      demo_epoch_end_bytes_def)

lemma demo_pubkeys_wf: "wf_pubkeys 2 [replicate 32 8, zero32]"
  by (simp add: wf_pubkeys_def)

section \<open>Properties\<close>

text \<open>
  C10: let the header array hold, at the position the prover names, a scheduled change that
  encodes the new authorities. The rotation is accepted exactly if the current authority set has
  justified the header hash and the array goes on long enough behind the change for the window
  of all \<open>N\<close> slots (\<open>40\<close> bytes for each unused slot); it then returns the commitment of exactly
  these authorities.
\<close>

theorem rotate_complete:
  assumes "plonky2x_gadgets B blake2b_256 ed25519_verify"
    and "header_bytes (target_header rot) = pre @ x # consensus_log (scheduled_change auths) @ post"
    and "auths \<noteq> []" and "length auths \<le> N" and "new_pubkeys rot = auths @ padding"
    and "wf_pubkeys N (new_pubkeys rot)"
    and "length (header_bytes (target_header rot)) < 2 ^ 32"
    and "target_header_num_authorities rot = length auths"
    and "next_authority_set_start_position rot = length pre"
  shows "rotate_set B N (N * VALIDATOR_LENGTH + DELAY_LENGTH) set_id set_hash rot j =
    (if verify_simple_justification B N (epoch_end_block_number rot)
        (hash_encoded_header B (target_header rot)) set_id set_hash j = Some () \<and>
        40 * (N - length auths) \<le> length post
     then Some (chain_hash (curta_sha256 B) auths) else None)"
  using plonky2x_gadgets.rotate_encoded [OF assms] .

theorem rotate_complete_witness:
  "rotate_set demo_gadgets 2 84 9 (chain_hash (curta_sha256 demo_gadgets) [replicate 32 7])
     demo_rotate demo_justification =
   Some (chain_hash (curta_sha256 demo_gadgets) [replicate 32 8])"
  using rotate_complete [OF demo_gadgets, where rot = demo_rotate and pre = zero32 and x = 0
      and auths = "[replicate 32 8]" and post = "replicate 80 0" and N = 2
      and padding = "[zero32]" and set_id = 9 and j = demo_justification
      and set_hash = "chain_hash (curta_sha256 demo_gadgets) [replicate 32 7]"]
    length_demo_epoch_end_bytes demo_justification_accepted hash_demo_epoch_end [of 85] demo_pubkeys_wf
  by (simp add: demo_rotate_def const_simps) (simp add: demo_epoch_end_bytes_def)

text \<open>
  C9: if a rotation with at most \<open>N\<close> declared authorities is accepted, then the current
  authority set has justified the hash of the target header, the header array holds a scheduled
  change with the declared number of authorities at the named position, the keys that stand
  there with weight one and a zero delay are the first new keys, and the returned commitment
  is the chained hash of those keys. The array may be longer than the header: only when the
  change ends within the first \<open>header_size\<close> bytes does it stand in the hashed, justified
  bytes, and then it is read from these bytes alone.
\<close>

theorem rotate_sound:
  assumes "plonky2x_gadgets B blake2b_256 ed25519_verify"
    and "wf_header S (target_header rot)" and "S < 2 ^ 32"
    and "wf_pubkeys N (new_pubkeys rot)" and "0 < N"
    and "target_header_num_authorities rot = num" and "num \<le> N"
    and "rotate_set B N (N * VALIDATOR_LENGTH + DELAY_LENGTH) set_id set_hash rot j = Some commitment"
  shows "\<exists>pos. verify_simple_justification B N (epoch_end_block_number rot)
      (hash_encoded_header B (target_header rot)) set_id set_hash j = Some () \<and>
    reads_change B (header_bytes (target_header rot)) (next_authority_set_start_position rot) num
      (take num (new_pubkeys rot)) pos \<and>
    0 < num \<and> commitment = chain_hash (curta_sha256 B) (take num (new_pubkeys rot)) \<and>
    (unat (header_size (target_header rot)) \<le> S \<and>
       pos + 40 * num + 4 \<le> unat (header_size (target_header rot)) \<longrightarrow>
     hash_encoded_header B (target_header rot) =
       blake2b_256 (take (unat (header_size (target_header rot))) (header_bytes (target_header rot))) \<and>
     reads_change B (take (unat (header_size (target_header rot))) (header_bytes (target_header rot)))
       (next_authority_set_start_position rot) num (take num (new_pubkeys rot)) pos)"
  by (rule plonky2x_gadgets.rotate_accepted [OF assms])

lemma demo_rotate_accepted:
  "rotate_set demo_gadgets 2 84 9 (chain_hash (curta_sha256 demo_gadgets) [replicate 32 7])
     demo_rotate demo_justification =
   Some (chain_hash (curta_sha256 demo_gadgets) [replicate 32 8])"
  using plonky2x_gadgets.rotate_accepts [OF demo_gadgets, where rot = demo_rotate and pre = zero32
      and x = 0 and auths = "[replicate 32 8]" and post = "replicate 80 0" and N = 2
      and padding = "[zero32]" and set_id = 9 and j = demo_justification
      and set_hash = "chain_hash (curta_sha256 demo_gadgets) [replicate 32 7]"]
    length_demo_epoch_end_bytes demo_justification_accepted hash_demo_epoch_end [of 85] demo_pubkeys_wf
  by (simp add: demo_rotate_def const_simps) (simp add: demo_epoch_end_bytes_def)

lemma demo_authorities_window: "2 * VALIDATOR_LENGTH + DELAY_LENGTH = 84"
  by (simp add: const_simps)

text \<open>In the demonstration the change ends at byte 85, within the hashed part of the header.\<close>

lemma demo_change_position:
  assumes "reads_change demo_gadgets demo_epoch_end_bytes 32 1 keys pos"
  shows "pos = 41"
proof -
  have "scheduled_change_at demo_gadgets demo_epoch_end_bytes 32 1 41"
    using plonky2x_gadgets.scheduled_change_at_encoded [OF demo_gadgets demo_epoch_end_bytes_def]
      length_demo_epoch_end_bytes
    by (simp add: scheduled_change_def length_encode_authorities expected_delay_bytes_def
        length_scale_compact compact_length_def compact_mode_def)
  from scheduled_change_at_unique(2) [OF this conjunct1 [OF assms [unfolded reads_change_def]]]
  show ?thesis by simp
qed

theorem rotate_sound_witness:
  "reads_change demo_gadgets (take 85 demo_epoch_end_bytes) 32 1 [replicate 32 8] 41"
proof -
  have "wf_header 165 (target_header demo_rotate)" and "(165 :: nat) < 2 ^ 32"
    and "wf_pubkeys 2 (new_pubkeys demo_rotate)" and "(0 :: nat) < 2"
    and "target_header_num_authorities demo_rotate = 1" and "(1 :: nat) \<le> 2"
    using length_demo_epoch_end_bytes demo_pubkeys_wf by (simp_all add: demo_rotate_def wf_header_def)
  from rotate_sound [OF demo_gadgets this demo_rotate_accepted [folded demo_authorities_window]]
  obtain pos where "reads_change demo_gadgets demo_epoch_end_bytes 32 1 [replicate 32 8] pos"
    and "pos \<le> 41 \<longrightarrow> reads_change demo_gadgets (take 85 demo_epoch_end_bytes) 32 1 [replicate 32 8] pos"
    by (auto simp: demo_rotate_def)
  with demo_change_position show ?thesis
    by blast
qed

text \<open>
  C37: nothing ties the position of the scheduled change to the size of the header. The header
  hash covers the first \<open>header_size\<close> bytes only, so a scheduled change written behind
  them is accepted for a header that the current authority set justified: the rotation returns
  the commitment of keys that the justified header does not contain.
\<close>

theorem rotation_reads_behind_the_hashed_bytes:
  assumes "plonky2x_gadgets B blake2b_256 ed25519_verify"
    and "length (committed @ x # consensus_log (scheduled_change auths) @ post) < 2 ^ 32"
    and "auths \<noteq> []" and "wf_pubkeys N (auths @ padding)" and "40 * N \<le> length post"
    and "verify_simple_justification B N block_number (blake2b_256 committed) set_id set_hash j =
      Some ()"
  shows "rotate_set B N (N * VALIDATOR_LENGTH + DELAY_LENGTH) set_id set_hash
    \<lparr>epoch_end_block_number = block_number,
     target_header =
       \<lparr>header_bytes = committed @ x # consensus_log (scheduled_change auths) @ post,
        header_size = of_nat (length committed)\<rparr>,
     target_header_num_authorities = length auths,
     next_authority_set_start_position = length committed,
     new_pubkeys = auths @ padding\<rparr> j =
    Some (chain_hash (curta_sha256 B) auths)"
proof -
  have "unat (of_nat (length committed) :: u32) = length committed"
    using assms(2) by (simp add: unat_of_nat)
  then have "curta_blake2b_variable B
      (committed @ x # consensus_log (scheduled_change auths) @ post) (of_nat (length committed)) =
      blake2b_256 committed"
    by (simp add: plonky2x_gadgets.curta_blake2b_variable [OF assms(1)])
  moreover have "length auths \<le> N"
    using assms(4) by (simp add: wf_pubkeys_def)
  ultimately show ?thesis
    using assms(2-6)
    by (intro plonky2x_gadgets.rotate_accepts [OF assms(1), where pre = committed])
      (simp_all add: hash_encoded_header_def)
qed

theorem rotation_reads_behind_the_hashed_bytes_witness:
  "rotate_set demo_gadgets 2 84 9 (chain_hash (curta_sha256 demo_gadgets) [replicate 32 7])
    \<lparr>epoch_end_block_number = 5,
     target_header = \<lparr>header_bytes = demo_epoch_end_bytes, header_size = 32\<rparr>,
     target_header_num_authorities = 1,
     next_authority_set_start_position = 32,
     new_pubkeys = [replicate 32 8, zero32]\<rparr> demo_justification =
   Some (chain_hash (curta_sha256 demo_gadgets) [replicate 32 8])"
  using rotation_reads_behind_the_hashed_bytes [OF demo_gadgets, where committed = zero32 and x = 0
      and auths = "[replicate 32 8]" and post = "replicate 80 0" and N = 2
      and padding = "[zero32]" and set_id = 9 and block_number = 5 and j = demo_justification
      and set_hash = "chain_hash (curta_sha256 demo_gadgets) [replicate 32 7]"]
    demo_justification_accepted length_demo_epoch_end_bytes demo_pubkeys_wf
  by (simp add: const_simps demo_epoch_end_bytes_def pad32_def)

end
