(* ===== verification/Fetcher.thy ===== *)
theory Fetcher
  imports Redis_Store Rotation
begin

text \<open>
  \<open>RpcDataFetcher\<close> of \<open>circuits/input/mod.rs\<close>: queries to an Avail node with their retry loop, the
  binary search for the last block an authority set justifies, header ranges and their Merkle
  commitments, the justification of a block and the data of a rotation.
\<close>

section \<open>Connection and single queries\<close>

text \<open>
  What the fetcher keeps of the environment; \<open>avail_connect\<close> tells whether the client connects to
  a URL. The client itself is the argument \<open>N\<close> of the methods.
\<close>

record RpcDataFetcher =
  rf_avail_url :: string
  rf_avail_chain_id :: string

definition RpcDataFetcher_new ::
  "(string \<Rightarrow> bool) \<Rightarrow> (string \<Rightarrow> bool) \<Rightarrow> (string \<Rightarrow> string option) \<Rightarrow> RpcDataFetcher result"
where
  "RpcDataFetcher_new avail_connect redis_open env =
     and_then (expect (env ''AVAIL_URL'') ''AVAIL_URL must be set'') (\<lambda>url.
     and_then (ensure (avail_connect url) unwrap_err) (\<lambda>_.
     and_then (RedisClient_new redis_open env) (\<lambda>_.
     and_then (expect (env ''AVAIL_CHAIN_ID'') ''AVAIL_CHAIN_ID must be set'') (\<lambda>chain_id.
     Inr \<lparr>rf_avail_url = url, rf_avail_chain_id = chain_id\<rparr>))))"

fun refresh_attempts :: "avail_node \<Rightarrow> nat list \<Rightarrow> unit result" where
  "refresh_attempts N [] =
     Inl (Failure ''Failed to connect to Avail client after multiple attempts!'')"
| "refresh_attempts N (i # is) =
     (if system_health N i then Inr ()
      else if new_client N i then Inr ()
      else refresh_attempts N is)"

definition refresh_ws_connection :: "avail_node \<Rightarrow> unit result" where
  "refresh_ws_connection N = refresh_attempts N [0..<MAX_RECONNECT_ATTEMPTS]"

definition connected :: "avail_node \<Rightarrow> unit result" where
  "connected N =
     expect_ok (refresh_ws_connection N) ''Failed to establish connection to Avail WS.''"

definition get_block_hash :: "avail_node \<Rightarrow> u32 \<Rightarrow> bytes result" where
  "get_block_hash N block_number =
     expect (chain_get_block_hash N block_number) ''called `unwrap()` on a missing block hash''"

definition get_header :: "avail_node \<Rightarrow> u32 \<Rightarrow> avail_header result" where
  "get_header N block_number =
     and_then (get_block_hash N block_number) (\<lambda>block_hash.
     expect (chain_get_header N block_hash) ''called `unwrap()` on a missing header'')"

definition get_head :: "avail_node \<Rightarrow> avail_header result" where
  "get_head N =
     and_then (connected N) (\<lambda>_.
     and_then (expect (chain_get_finalized_head N) ''called `unwrap()` on a missing head'')
       (\<lambda>head_block_hash.
     expect (chain_get_header N head_block_hash) ''called `unwrap()` on a missing header''))"

definition get_authority_set_id :: "avail_node \<Rightarrow> u32 \<Rightarrow> u64 result" where
  "get_authority_set_id N block_number =
     and_then (connected N) (\<lambda>_.
     and_then (get_block_hash N block_number) (\<lambda>block_hash.
     expect (current_set_id N block_hash) ''called `unwrap()` on a missing set id''))"

fun authority_keys :: "(bytes \<times> u64) list \<Rightarrow> bytes list \<Rightarrow> bytes list result" where
  "authority_keys [] authorities = Inr authorities"
| "authority_keys ((pub_key, weight) # rest) authorities =
     and_then (ensure (weight = 1) ''The weight of the authority is not 1!'')
       (\<lambda>_. authority_keys rest (authorities @ [pub_key]))"

definition get_authorities :: "avail_node \<Rightarrow> u32 \<Rightarrow> bytes list result" where
  "get_authorities N block_number =
     and_then (connected N) (\<lambda>_.
     and_then (get_block_hash N block_number) (\<lambda>block_hash.
     and_then (expect (grandpa_authorities N block_hash) ''called `unwrap()` on a missing answer'')
       (\<lambda>grandpa_authorities. authority_keys grandpa_authorities [])))"

definition block_authority_set_hash :: "crates \<Rightarrow> avail_node \<Rightarrow> u32 \<Rightarrow> bytes result" where
  "block_authority_set_hash C N block_number =
     and_then (get_authorities N block_number) (\<lambda>authorities.
     let hash_so_far =
       fold (\<lambda>i hash_so_far. sha256 C (hash_so_far @ authorities ! i)) [0..<length authorities] [] in
     and_then (ensure (length hash_so_far = 32) ''H256::from_slice'') (\<lambda>_. Inr hash_so_far))"

section \<open>The last block of an authority set\<close>

text \<open>The midpoint lies in the interval.\<close>

lemma midpoint:
  fixes low high w :: u32
  assumes "low \<le> high" and "checked_add low high = Inr w"
  shows "unat (w div 2) = (unat low + unat high) div 2"
    and "unat low \<le> unat (w div 2)" and "unat (w div 2) \<le> unat high"
proof -
  have "unat w = unat low + unat high"
    using checked_add_Inr [OF assms(2)] by simp
  then show *: "unat (w div 2) = (unat low + unat high) div 2"
    by (simp add: unat_div)
  show "unat low \<le> unat (w div 2)" and "unat (w div 2) \<le> unat high"
    unfolding * using assms(1) by (simp_all add: word_le_nat_alt)
qed

function last_justified_loop :: "avail_node \<Rightarrow> u64 \<Rightarrow> u32 \<Rightarrow> u32 \<Rightarrow> u32 result" where
  "last_justified_loop N target_authority_set_id low high =
     (if low \<le> high then
        and_then (checked_add low high) (\<lambda>sum.
        let mid = sum div 2 in
        and_then (get_authority_set_id N mid) (\<lambda>mid_authority_set_id.
        and_then (checked_add target_authority_set_id 1) (\<lambda>next_id.
        if mid_authority_set_id = next_id then
          (if mid = 0 then Inr mid
           else and_then (get_authority_set_id N (mid - 1)) (\<lambda>prev_authority_set_id.
             if prev_authority_set_id = target_authority_set_id then Inr mid
             else last_justified_loop N target_authority_set_id low (mid - 1)))
        else if mid_authority_set_id < next_id then
          and_then (checked_add mid 1) (\<lambda>low. last_justified_loop N target_authority_set_id low high)
        else
          and_then (checked_sub mid 1) (\<lambda>high. last_justified_loop N target_authority_set_id low high))))
      else Inr 0)"
  by pat_completeness auto

termination
proof (relation "measure (\<lambda>(_, _, low, high). unat high + 1 - unat low)", goal_cases)
  case 1
  then show ?case by simp
next
  case (2 N target low high sum mid mid_id next_id prev)
  note m = midpoint [OF 2(1,2)]
  have "unat (mid - 1) + 1 = unat mid"
    by (rule unat_pred) (use 2 in simp)
  then show ?case using m 2 by simp
next
  case (3 N target low high sum mid mid_id next_id low')
  note m = midpoint [OF 3(1,2)]
  have "unat low' = unat mid + 1"
    using 3 checked_add_Inr [of mid 1 low'] by simp
  then show ?case using m 3 by simp
next
  case (4 N target low high sum mid mid_id next_id high')
  note m = midpoint [OF 4(1,2)]
  have "unat high' + 1 = unat mid"
    using 4 checked_sub_Inr [of mid 1 high'] by (simp add: word_le_nat_alt)
  then show ?case using m 4 by simp
qed

declare last_justified_loop.simps [simp del]

definition last_justified_block :: "avail_node \<Rightarrow> u64 \<Rightarrow> u32 result" where
  "last_justified_block N target_authority_set_id =
     and_then (connected N) (\<lambda>_.
     and_then (get_head N) (\<lambda>head_block.
     last_justified_loop N target_authority_set_id 0 (h_number head_block)))"

section \<open>Epoch ends\<close>

text \<open>
  For set ids \<open>sid\<close> of the blocks up to \<open>head\<close>: \<open>f\<close> is the first block that carries the id
  after \<open>t\<close>, the last one that set \<open>t\<close> justifies.
\<close>

definition epoch_end :: "(nat \<Rightarrow> nat) \<Rightarrow> nat \<Rightarrow> nat \<Rightarrow> nat \<Rightarrow> bool" where
  "epoch_end sid head t f \<longleftrightarrow> 0 < f \<and> f \<le> head \<and> sid f = t + 1 \<and> sid (f - 1) = t"

section \<open>The contract of a node\<close>

text \<open>
  A node that answers for a finalized chain up to the block \<open>head\<close>: block \<open>n\<close> has the hash
  \<open>bh n\<close>, the header \<open>hdr n\<close>, the set id \<open>sid n\<close> in its state, and the authorities
  \<open>auths n\<close> of weight one. The set id starts anywhere, never decreases, and grows by at most
  one from a block to the next.
\<close>

locale avail_chain =
  fixes N :: avail_node and head :: nat and bh :: "nat \<Rightarrow> bytes" and hdr :: "nat \<Rightarrow> avail_header"
    and sid :: "nat \<Rightarrow> nat" and auths :: "nat \<Rightarrow> bytes list"
  assumes reachable: "\<exists>i < MAX_RECONNECT_ATTEMPTS. system_health N i \<or> new_client N i"
    and head_bound: "head < 2 ^ 31"
    and block_hash: "n \<le> head \<Longrightarrow> chain_get_block_hash N (of_nat n) = Some (bh n)"
    and block_header: "n \<le> head \<Longrightarrow> chain_get_header N (bh n) = Some (hdr n)"
    and block_number: "n \<le> head \<Longrightarrow> h_number (hdr n) = of_nat n"
    and finalized_head: "chain_get_finalized_head N = Some (bh head)"
    and block_set_id: "n \<le> head \<Longrightarrow> current_set_id N (bh n) = Some (of_nat (sid n))"
    and set_id_bound: "n \<le> head \<Longrightarrow> sid n + 1 < 2 ^ 64"
    and set_id_mono: "m \<le> n \<Longrightarrow> n \<le> head \<Longrightarrow> sid m \<le> sid n"
    and set_id_step: "n < head \<Longrightarrow> sid (Suc n) \<le> Suc (sid n)"
    and block_authorities: "n \<le> head \<Longrightarrow> grandpa_authorities N (bh n) = Some (map (\<lambda>k. (k, 1)) (auths n))"
    and authority_length: "n \<le> head \<Longrightarrow> k \<in> set (auths n) \<Longrightarrow> length k = 32"
begin

lemma connected_ok [simp]: "connected N = Inr ()"
proof -
  have "refresh_attempts N is = Inr ()" if "\<exists>i \<in> set is. system_health N i \<or> new_client N i" for "is"
    using that by (induction "is") auto
  moreover have "\<exists>i \<in> set [0..<MAX_RECONNECT_ATTEMPTS]. system_health N i \<or> new_client N i"
    using reachable by auto
  ultimately show ?thesis
    by (simp add: connected_def refresh_ws_connection_def)
qed

lemma get_block_hash_ok: "n \<le> head \<Longrightarrow> get_block_hash N (of_nat n) = Inr (bh n)"
  by (simp add: get_block_hash_def block_hash)

lemma get_header_ok: "n \<le> head \<Longrightarrow> get_header N (of_nat n) = Inr (hdr n)"
  by (simp add: get_header_def get_block_hash_ok block_header)

lemma get_head_ok: "get_head N = Inr (hdr head)"
  by (simp add: get_head_def finalized_head block_header)

lemma get_authority_set_id_ok: "n \<le> head \<Longrightarrow> get_authority_set_id N (of_nat n) = Inr (of_nat (sid n))"
  by (simp add: get_authority_set_id_def get_block_hash_ok block_set_id)

lemma authority_keys_ok: "authority_keys (map (\<lambda>k. (k, 1)) ks) acc = Inr (acc @ ks)"
  by (induction ks arbitrary: acc) simp_all

lemma get_authorities_ok: "n \<le> head \<Longrightarrow> get_authorities N (of_nat n) = Inr (auths n)"
  by (simp add: get_authorities_def get_block_hash_ok block_authorities authority_keys_ok)

text \<open>One round of the search, on numbers.\<close>

lemma last_justified_step:
  assumes "a \<le> b" "b \<le> head" "t + 1 < 2 ^ 64"
  defines "m \<equiv> (a + b) div 2"
  shows "last_justified_loop N (of_nat t) (of_nat a) (of_nat b) =
    (if sid m = t + 1 then
       (if m = 0 then Inr 0
        else if sid (m - 1) = t then Inr (of_nat m)
        else last_justified_loop N (of_nat t) (of_nat a) (of_nat (m - 1)))
     else if sid m < t + 1 then last_justified_loop N (of_nat t) (of_nat (m + 1)) (of_nat b)
     else if m = 0 then Inl (Panic ''attempt to subtract with overflow'')
     else last_justified_loop N (of_nat t) (of_nat a) (of_nat (m - 1)))"
proof -
  have m: "m \<le> head" "m \<le> b"
    using assms by auto
  have small: "unat (of_nat n :: u32) = n" if "n \<le> 2 * head" for n
    using that head_bound by (intro unat_of_nat_small) simp
  have le: "(of_nat a :: u32) \<le> of_nat b"
    using assms by (simp add: word_le_nat_alt small)
  have add: "checked_add (of_nat a :: u32) (of_nat b) = Inr (of_nat (a + b))"
    using assms head_bound by (simp add: checked_add_def small)
  have div2: "(of_nat (a + b) :: u32) div 2 = of_nat m"
    using assms by (simp only: word_unat_eq_iff unat_div small m_def) (simp add: small)
  have zero: "(of_nat m :: u32) = 0 \<longleftrightarrow> m = 0"
    using m small [of m] by (simp add: word_unat_eq_iff)
  have pred: "(of_nat m :: u32) - 1 = of_nat (m - 1)" if "m \<noteq> 0"
    using that by (cases m) simp_all
  have next_id: "checked_add (of_nat t :: u64) 1 = Inr (of_nat (t + 1))"
    using assms(3) unat_of_nat_small [of t, where 'a = 64] by (simp add: checked_add_def)
  have ids: "(of_nat (sid n) :: u64) = of_nat i \<longleftrightarrow> sid n = i" "(of_nat (sid n) :: u64) < of_nat i \<longleftrightarrow> sid n < i"
    if "n \<le> head" "i < 2 ^ 64" for n i
    using that set_id_bound [of n] unat_of_nat_small [of "sid n", where 'a = 64]
      unat_of_nat_small [of i, where 'a = 64] by (simp_all add: word_unat_eq_iff word_less_nat_alt)
  have succ: "checked_add (of_nat m :: u32) 1 = Inr (of_nat (m + 1))"
    using m head_bound by (simp add: checked_add_def small)
  have sub: "checked_sub (of_nat m :: u32) 1 =
      (if m = 0 then Inl (Panic ''attempt to subtract with overflow'') else Inr (of_nat (m - 1)))"
    using m pred by (auto simp: checked_sub_def word_le_nat_alt small)
  have m': "m - 1 \<le> head" and t: "t + 1 < 2 ^ 64" "t < 2 ^ 64"
    using m assms(3) by auto
  have prev: "get_authority_set_id N (of_nat (m - 1)) = Inr (of_nat (sid (m - 1)))"
    using m' by (rule get_authority_set_id_ok)
  show ?thesis
    unfolding last_justified_loop.simps [of N "of_nat t" "of_nat a" "of_nat b"] le if_True add
      and_then_Inr div2 Let_def get_authority_set_id_ok [OF m(1)] next_id ids [OF m(1) t(1)] zero succ sub
    by (cases "m = 0") (simp_all only: le prev pred and_then_Inr and_then_Inl if_True if_False simp_thms
        ids(1) [OF m' t(2)], simp_all)
qed

lemma last_justified_loop_found:
  assumes f: "epoch_end sid head t f"
  shows "a \<le> f \<Longrightarrow> f \<le> b \<Longrightarrow> b \<le> head \<Longrightarrow>
    last_justified_loop N (of_nat t) (of_nat a) (of_nat b) = Inr (of_nat f)"
proof (induction "b + 1 - a" arbitrary: a b rule: less_induct)
  case less
  define m where "m = (a + b) div 2"
  have m: "a \<le> m" "m \<le> b"
    using less.prems by (auto simp: m_def)
  have t: "t + 1 < 2 ^ 64"
    using f set_id_bound [of f] by (simp add: epoch_end_def)
  note step = last_justified_step [of a b t, folded m_def]
  consider "m = f" | "m < f" | "f < m"
    by linarith
  then show ?case
  proof cases
    case 1
    then show ?thesis
      using step less.prems t f by (auto simp: epoch_end_def)
  next
    case 2
    then have "m \<le> f - 1" "f - 1 \<le> head"
      using f by (auto simp: epoch_end_def)
    from set_id_mono [OF this] have "sid m \<le> t"
      using f by (simp add: epoch_end_def)
    moreover have "last_justified_loop N (of_nat t) (of_nat (m + 1)) (of_nat b) = Inr (of_nat f)"
      using 2 m less.prems by (intro less.hyps) auto
    ultimately show ?thesis
      using step less.prems t by simp
  next
    case 3
    then have "t + 1 \<le> sid (m - 1)" "t + 1 \<le> sid m"
      using set_id_mono [of f "m - 1"] set_id_mono [of f m] f m less.prems by (auto simp: epoch_end_def)
    moreover have "last_justified_loop N (of_nat t) (of_nat a) (of_nat (m - 1)) = Inr (of_nat f)"
      using 3 m less.prems by (intro less.hyps) auto
    ultimately show ?thesis
      using step less.prems t 3 by simp
  qed
qed

lemma last_justified_loop_none:
  assumes t: "sid head \<le> t" "t + 1 < 2 ^ 64"
  shows "a \<le> b + 1 \<Longrightarrow> b \<le> head \<Longrightarrow> last_justified_loop N (of_nat t) (of_nat a) (of_nat b) = Inr 0"
proof (induction "b + 1 - a" arbitrary: a rule: less_induct)
  case less
  show ?case
  proof (cases "a \<le> b")
    case True
    define m where "m = (a + b) div 2"
    have m: "a \<le> m" "m \<le> b"
      using True by (auto simp: m_def)
    have "sid m \<le> t"
      using set_id_mono [of m head] m less.prems t by simp
    moreover have "last_justified_loop N (of_nat t) (of_nat (m + 1)) (of_nat b) = Inr 0"
      using m less.prems by (intro less.hyps) auto
    ultimately show ?thesis
      using last_justified_step [of a b t, folded m_def] True less.prems t(2) by simp
  next
    case False
    then have "a = b + 1"
      using less.prems by simp
    moreover have "\<not> (of_nat (b + 1) :: u32) \<le> of_nat b"
      unfolding word_le_nat_alt
      using less.prems head_bound unat_of_nat_small [of "b + 1", where 'a = 32]
        unat_of_nat_small [of b, where 'a = 32] by simp
    ultimately show ?thesis
      by (simp only: last_justified_loop.simps [of N "of_nat t" "of_nat (b + 1)" "of_nat b"] if_False)
  qed
qed

lemma epoch_end_unique: "epoch_end sid head t f \<Longrightarrow> epoch_end sid head t g \<Longrightarrow> f = g"
proof -
  have "\<not> f < g" if "epoch_end sid head t f" "epoch_end sid head t g" for f g
  proof
    assume "f < g"
    then have "f \<le> g - 1" "g - 1 \<le> head"
      using that by (auto simp: epoch_end_def)
    from set_id_mono [OF this] show False
      using that by (simp add: epoch_end_def)
  qed
  then show "epoch_end sid head t f \<Longrightarrow> epoch_end sid head t g \<Longrightarrow> f = g"
    by (meson linorder_neqE_nat)
qed

lemma epoch_end_exists:
  assumes "sid 0 \<le> t" and "t < sid head"
  shows "\<exists>f. epoch_end sid head t f"
proof -
  define f where "f = (LEAST n. t < sid n)"
  have f: "t < sid f" "f \<le> head"
    unfolding f_def using assms(2) by (auto intro: LeastI Least_le)
  then have "f \<noteq> 0"
    using assms(1) by (cases f) auto
  then have "\<not> t < sid (f - 1)"
    unfolding f_def by (intro not_less_Least) simp
  moreover have "f - 1 < head"
    using f \<open>f \<noteq> 0\<close> by simp
  from set_id_step [OF this] have "sid f \<le> Suc (sid (f - 1))"
    using \<open>f \<noteq> 0\<close> by simp
  ultimately have "epoch_end sid head t f"
    using f \<open>f \<noteq> 0\<close> unfolding epoch_end_def by linarith
  then show ?thesis ..
qed

lemma last_justified_block_eq:
  assumes "t + 1 < 2 ^ 64"
  shows "sid head \<le> t \<Longrightarrow> last_justified_block N (of_nat t) = Inr 0"
    and "epoch_end sid head t f \<Longrightarrow> last_justified_block N (of_nat t) = Inr (of_nat f)"
  using last_justified_loop_none [of t 0 head] last_justified_loop_found [of t f 0 head] assms
  by (simp_all add: last_justified_block_def get_head_ok block_number epoch_end_def)

lemma prev_block:
  assumes "0 < f" and "f \<le> head"
  shows "checked_sub (of_nat f :: u32) 1 = Inr (of_nat (f - 1))"
  using assms head_bound unat_of_nat_small [of f, where 'a = 32]
  by (subst checked_sub_ok) (simp_all add: word_le_nat_alt of_nat_diff)

lemma next_set_id: "n \<le> head \<Longrightarrow> checked_add (of_nat (sid n) :: u64) 1 = Inr (of_nat (sid n + 1))"
  using set_id_bound [of n] unat_of_nat_small [of "sid n", where 'a = 64] by (simp add: checked_add_def)

lemma last_justified_cases:
  assumes "sid 0 \<le> t" and "t + 1 < 2 ^ 64"
  obtains (none) "sid head \<le> t" "last_justified_block N (of_nat t) = Inr 0"
  | (found) f where "epoch_end sid head t f" "last_justified_block N (of_nat t) = Inr (of_nat f)"
proof (cases "sid head \<le> t")
  case True
  with last_justified_block_eq(1) [OF assms(2)] none show thesis by blast
next
  case False
  with epoch_end_exists [OF assms(1)] last_justified_block_eq(2) [OF assms(2)] found show thesis
    by (meson not_le)
qed

lemma of_nat_block_eq: "m \<le> head \<Longrightarrow> n \<le> head \<Longrightarrow> (of_nat m :: u32) = of_nat n \<longleftrightarrow> m = n"
  using head_bound unat_of_nat_small [of m, where 'a = 32] unat_of_nat_small [of n, where 'a = 32]
  by (simp add: word_unat_eq_iff)

end

section \<open>A node for a given chain\<close>

definition chain_node ::
  "nat \<Rightarrow> (nat \<Rightarrow> bytes) \<Rightarrow> (nat \<Rightarrow> avail_header) \<Rightarrow> (nat \<Rightarrow> nat) \<Rightarrow> (nat \<Rightarrow> bytes list) \<Rightarrow>
   (u32 \<Rightarrow> bytes option) \<Rightarrow> avail_node"
where
  "chain_node head bh hdr sid auths proofs =
     (let block = (\<lambda>h. find (\<lambda>n. bh n = h) [0..<Suc head]) in
     \<lparr>system_health = \<lambda>_. True,
      new_client = \<lambda>_. True,
      chain_get_block_hash = \<lambda>n. if unat n \<le> head then Some (bh (unat n)) else None,
      chain_get_header = \<lambda>h. map_option hdr (block h),
      chain_get_finalized_head = Some (bh head),
      current_set_id = \<lambda>h. map_option (\<lambda>n. of_nat (sid n)) (block h),
      grandpa_authorities = \<lambda>h. map_option (\<lambda>n. map (\<lambda>k. (k, 1)) (auths n)) (block h),
      grandpa_proveFinality = proofs\<rparr>)"

lemma chain_node:
  assumes "head < 2 ^ 31" and "inj_on bh {..head}"
    and "\<And>n. n \<le> head \<Longrightarrow> h_number (hdr n) = of_nat n"
    and "\<And>n. n \<le> head \<Longrightarrow> sid n + 1 < 2 ^ 64"
    and "\<And>m n. m \<le> n \<Longrightarrow> n \<le> head \<Longrightarrow> sid m \<le> sid n"
    and "\<And>n. n < head \<Longrightarrow> sid (Suc n) \<le> Suc (sid n)"
    and "\<And>n k. n \<le> head \<Longrightarrow> k \<in> set (auths n) \<Longrightarrow> length k = 32"
  shows "avail_chain (chain_node head bh hdr sid auths proofs) head bh hdr sid auths"
proof -
  have small: "unat (of_nat n :: u32) = n" if "n \<le> head" for n
    using that assms(1) by (auto intro: unat_of_nat_small)
  have block: "find (\<lambda>m. bh m = bh n) [0..<Suc head] = Some n" if "n \<le> head" for n
  proof -
    have "find (\<lambda>m. bh m = bh n) [0..<Suc head] \<noteq> None"
      unfolding find_None_iff using that by (auto simp: less_Suc_eq_le simp del: upt_Suc)
    then obtain m where m: "find (\<lambda>m. bh m = bh n) [0..<Suc head] = Some m"
      by blast
    then have "bh m = bh n \<and> m < Suc head"
      by (auto simp: find_Some_iff simp del: upt_Suc)
    then show ?thesis
      using m that inj_onD [OF assms(2), of m n] by simp
  qed
  show ?thesis
    by unfold_locales (use assms in \<open>auto simp: chain_node_def small block MAX_RECONNECT_ATTEMPTS_def
        simp del: upt_Suc intro: exI [of _ 0]\<close>)
qed

text \<open>
  A chain of twenty blocks in which every fifth block ends an epoch. The hash of a block is read
  off its number, which follows the parent hash in the encoding.
\<close>

definition demo_block_hash :: "nat \<Rightarrow> bytes" where
  "demo_block_hash n = pad32 (scale_compact (of_nat n))"

definition demo_avail_header :: "nat \<Rightarrow> avail_header" where
  "demo_avail_header n =
     \<lparr>h_parent_hash = (if n = 0 then zero32 else demo_block_hash (n - 1)), h_number = of_nat n,
      h_state_root = zero32, h_extrinsics_root = zero32,
      h_logs = (if n mod 5 = 0
        then [Consensus [70, 82, 78, 75] (scheduled_change [replicate 32 7])] else []),
      h_extension = zero32, h_data_root = zero32\<rparr>"

lemma demo_block_hash_eq: "n < 64 \<Longrightarrow> demo_block_hash n = of_nat (4 * n) # replicate 31 0"
  unfolding demo_block_hash_def pad32_def scale_compact_def
  using unat_of_nat_small [of n, where 'a = 32] by (simp del: of_nat_mult)

lemma demo_block_hash_inj:
  assumes "k < 64"
  shows "inj_on demo_block_hash {..k}"
proof (rule inj_onI)
  fix m n :: nat
  assume m: "m \<in> {..k}" and n: "n \<in> {..k}" and "demo_block_hash m = demo_block_hash n"
  then have "(of_nat (4 * m) :: byte) = of_nat (4 * n)"
    using assms by (simp add: demo_block_hash_eq)
  then have "unat (of_nat (4 * m) :: byte) = unat (of_nat (4 * n) :: byte)"
    by (rule arg_cong)
  then show "m = n"
    using m n assms by (simp add: unat_of_nat_byte del: of_nat_mult)
qed

definition demo_node :: avail_node where
  "demo_node =
     chain_node 20 demo_block_hash demo_avail_header (\<lambda>n. n div 5) (\<lambda>_. [replicate 32 7]) (\<lambda>_. Some [])"

interpretation demon: avail_chain demo_node 20 demo_block_hash demo_avail_header "\<lambda>n. n div 5"
  "\<lambda>_. [replicate 32 7]"
  unfolding demo_node_def
  by (rule chain_node)
    (auto simp: demo_avail_header_def div_le_mono intro: div_le_mono demo_block_hash_inj)

section \<open>Properties\<close>

text \<open>
  C28: on a chain whose set ids never decrease and grow by at most one per block, the binary
  search ends without a panic for every set id that the genesis block does not exceed: it
  returns the last block the set justifies, the one block whose state has the next id and whose
  parent's state has this id, and zero when no finalized block has a greater id. It visits at
  most the blocks up to the finalized head.
\<close>

theorem last_justified_block_correct:
  assumes "avail_chain N head bh hdr sid auths" and "t + 1 < 2 ^ 64" and "sid 0 \<le> t"
  shows "(sid head \<le> t \<longrightarrow> last_justified_block N (of_nat t) = Inr 0) \<and>
    (t < sid head \<longrightarrow>
      (\<exists>!f. epoch_end sid head t f) \<and>
      (\<forall>f. epoch_end sid head t f \<longrightarrow> last_justified_block N (of_nat t) = Inr (of_nat f)))"
  using avail_chain.last_justified_block_eq [OF assms(1,2)]
    avail_chain.epoch_end_exists [OF assms(1,3)] avail_chain.epoch_end_unique [OF assms(1)] by blast

theorem last_justified_block_correct_witness:
  "last_justified_block demo_node (of_nat 1) = Inr (of_nat 10) \<and>
   last_justified_block demo_node (of_nat 4) = Inr 0"
proof
  show "last_justified_block demo_node (of_nat 1) = Inr (of_nat 10)"
    by (rule last_justified_block_correct [OF demon.avail_chain_axioms, THEN conjunct2, THEN mp,
          THEN conjunct2, THEN spec, THEN mp]) (simp_all add: epoch_end_def)
  show "last_justified_block demo_node (of_nat 4) = Inr 0"
    by (rule last_justified_block_correct [OF demon.avail_chain_axioms, THEN conjunct1, THEN mp])
      simp_all
qed

end
