(* ===== verification/Header_Data.thy ===== *)
theory Header_Data
  imports Fetcher
begin

text \<open>
  The part of \<open>RpcDataFetcher\<close> that serves header ranges: \<open>get_block_headers_range\<close> in batches,
  \<open>get_merkle_root_commitments\<close> over them, and the hint of the map jobs,
  \<open>HeaderRangeFetcherHint\<close> of \<open>circuits/builder/subchain_verification.rs\<close>.
\<close>

section \<open>Definitions\<close>

definition MAX_CONCURRENT_WS_REQUESTS :: u32 where
  "MAX_CONCURRENT_WS_REQUESTS = 200"

function headers_range_loop ::
  "avail_node \<Rightarrow> u32 \<Rightarrow> u32 \<Rightarrow> avail_header list \<Rightarrow> avail_header list result"
where
  "headers_range_loop N curr_block end_block_number headers =
     (if curr_block \<le> end_block_number then
        and_then (checked_add curr_block MAX_CONCURRENT_WS_REQUESTS) (\<lambda>x.
        and_then (checked_sub x 1) (\<lambda>batch_end.
        let end_block = min batch_end end_block_number in
        and_then (checked_add end_block 1) (\<lambda>stop.
        and_then (traverse (get_header N) (map of_nat [unat curr_block..<unat stop])) (\<lambda>headers_batch.
        and_then (checked_add curr_block MAX_CONCURRENT_WS_REQUESTS) (\<lambda>curr_block.
        headers_range_loop N curr_block end_block_number (headers @ headers_batch))))))
      else Inr headers)"
  by pat_completeness auto
termination
proof (relation "measure (\<lambda>(_, curr, stop, _). unat stop + 1 - unat curr)", goal_cases)
  case 1
  then show ?case by simp
next
  case (2 N curr stop headers x y z w batch curr')
  have "unat curr' = unat curr + 200"
    using checked_add_Inr(1) [of curr MAX_CONCURRENT_WS_REQUESTS curr'] 2
    by (simp add: MAX_CONCURRENT_WS_REQUESTS_def)
  then show ?case
    using 2(1) by (simp add: word_le_nat_alt)
qed

declare headers_range_loop.simps [simp del]

definition get_block_headers_range ::
  "avail_node \<Rightarrow> u32 \<Rightarrow> u32 \<Rightarrow> avail_header list result"
where
  "get_block_headers_range N start_block_number end_block_number =
     and_then (connected N) (\<lambda>_. headers_range_loop N start_block_number end_block_number [])"

definition get_merkle_root_commitments ::
  "crates \<Rightarrow> avail_node \<Rightarrow> u32 \<Rightarrow> u32 \<Rightarrow> u32 \<Rightarrow> (bytes \<times> bytes) result"
where
  "get_merkle_root_commitments C N header_range_commitment_tree_size start stop =
     and_then (ensure (count_ones (unat header_range_commitment_tree_size) = 1) ''assertion failed'') (\<lambda>_.
     and_then (checked_sub stop start) (\<lambda>len.
     if header_range_commitment_tree_size < len then Inl (Panic ''Range too large!'')
     else
       and_then (checked_add start 1) (\<lambda>first.
       and_then (get_block_headers_range N first stop) (\<lambda>headers.
       let padding =
         replicate (unat header_range_commitment_tree_size - length headers) zero32;
         data_root_leaves = map h_data_root headers @ padding;
         state_root_leaves = map h_state_root headers @ padding in
       Inr (get_merkle_root (sha256 C) state_root_leaves,
            get_merkle_root (sha256 C) data_root_leaves)))))"

text \<open>The padded variable for one header, and the hint of a map job.\<close>

definition header_variable :: "crates \<Rightarrow> nat \<Rightarrow> avail_header \<Rightarrow> EncodedHeader result" where
  "header_variable C header_length header =
     (let header_bytes = encode_header C header; header_size = length header_bytes in
      if header_length < header_size then Inl (Panic ''header size is greater than the maximum'')
      else Inr \<lparr>header_bytes = header_bytes @ replicate (header_length - header_size) 0,
                header_size = of_nat header_size\<rparr>)"

definition header_range_hint ::
  "crates \<Rightarrow> avail_node \<Rightarrow> nat \<Rightarrow> nat \<Rightarrow> u32 \<Rightarrow> u32 \<Rightarrow> u32 \<Rightarrow> EncodedHeader list result"
where
  "header_range_hint C N header_length max_headers start last_block max_block =
     (let last_block = min last_block max_block in
      and_then (if start \<le> last_block
          then get_block_headers_range N start last_block else Inr []) (\<lambda>headers.
      and_then (traverse (header_variable C header_length) headers) (\<lambda>header_variables.
      Inr (header_variables @
        replicate (max_headers - length headers) (empty_header header_length)))))"

section \<open>Ranges of a chain\<close>

context avail_chain
begin

lemma small_u32: "n < 2 ^ 32 \<Longrightarrow> unat (of_nat n :: u32) = n"
  by (intro unat_of_nat_small) simp

lemma traverse_get_header:
  assumes "e \<le> head"
  shows "traverse (get_header N) (map of_nat [a..<e + 1]) = Inr (map hdr [a..<e + 1])"
proof -
  have "traverse (get_header N) (map of_nat [a..<e + 1]) =
      Inr (map (\<lambda>n. hdr (unat n)) (map (of_nat :: nat \<Rightarrow> u32) [a..<e + 1]))"
  proof (rule traverse_Inr)
    fix x :: u32 assume "x \<in> set (map of_nat [a..<e + 1])"
    then obtain n where "x = of_nat n" "n \<le> head"
      using assms by auto
    then show "get_header N x = Inr (hdr (unat x))"
      using get_header_ok [of n] small_u32 [of n] head_bound by simp
  qed
  moreover have "map (\<lambda>n. hdr (unat n)) (map (of_nat :: nat \<Rightarrow> u32) [a..<e + 1]) = map hdr [a..<e + 1]"
    using assms head_bound small_u32 by (auto simp del: upt_Suc)
  ultimately show ?thesis by simp
qed

lemma headers_range_loop_step:
  assumes "a \<le> b" and "b \<le> head" and "e = min (a + 199) b"
  shows "headers_range_loop N (of_nat a) (of_nat b) acc =
    headers_range_loop N (of_nat (a + 200)) (of_nat b) (acc @ map hdr [a..<e + 1])"
proof -
  have b: "b < 2 ^ 31"
    using assms(2) head_bound by simp
  have le: "(of_nat a :: u32) \<le> of_nat b"
    using assms(1) b by (simp add: word_le_nat_alt small_u32)
  have add: "checked_add (of_nat a) MAX_CONCURRENT_WS_REQUESTS = Inr (of_nat (a + 200))"
    using assms(1) b by (simp add: checked_add_def MAX_CONCURRENT_WS_REQUESTS_def small_u32)
  have sub: "checked_sub (of_nat (a + 200) :: u32) 1 = Inr (of_nat (a + 199))"
    using assms(1) b small_u32 [of "a + 200"] by (subst checked_sub_ok) (simp_all add: word_le_nat_alt)
  have m: "min (of_nat (a + 199)) (of_nat b) = (of_nat e :: u32)"
    using assms(1,3) b small_u32 [of "a + 199"] small_u32 [of b]
    by (auto simp: min_def word_le_nat_alt simp del: of_nat_add)
  have stop: "checked_add (of_nat e :: u32) 1 = Inr (of_nat (e + 1))"
    using assms(1,3) b small_u32 [of e] by (simp add: checked_add_def)
  have range: "[unat (of_nat a :: u32)..<unat (of_nat (e + 1) :: u32)] = [a..<e + 1]"
    using assms(1,3) b small_u32 [of a] small_u32 [of "e + 1"] by (simp del: of_nat_add of_nat_Suc upt_Suc)
  have batch: "traverse (get_header N) (map of_nat [a..<e + 1]) = Inr (map hdr [a..<e + 1])"
    using assms(2,3) by (intro traverse_get_header) simp
  show ?thesis
    by (subst headers_range_loop.simps)
      (simp only: le if_True add sub m stop range batch and_then_Inr Let_def)
qed

lemma headers_range_loop_ok:
  assumes "b \<le> head"
  shows "a \<le> 2 * 2 ^ 31 \<Longrightarrow> a \<le> b + 201 \<Longrightarrow>
    headers_range_loop N (of_nat a) (of_nat b) acc = Inr (acc @ map hdr [a..<b + 1])"
proof (induction "b + 1 - a" arbitrary: a acc rule: less_induct)
  case less
  have b: "b < 2 ^ 31"
    using assms head_bound by simp
  show ?case
  proof (cases "a \<le> b")
    case False
    then have "\<not> (of_nat a :: u32) \<le> of_nat b"
      using less.prems b by (simp add: word_le_nat_alt small_u32)
    then show ?thesis
      using False by (subst headers_range_loop.simps) simp
  next
    case True
    have "headers_range_loop N (of_nat a) (of_nat b) acc =
        Inr ((acc @ map hdr [a..<min (a + 199) b + 1]) @ map hdr [a + 200..<b + 1])"
      unfolding headers_range_loop_step [OF True assms refl] using True b by (intro less.hyps) auto
    also have "map hdr [a..<min (a + 199) b + 1] @ map hdr [a + 200..<b + 1] = map hdr [a..<b + 1]"
    proof (cases "a + 199 \<le> b")
      case True
      then have e: "min (a + 199) b + 1 = a + 200"
        by simp
      have "[a..<a + 200] @ [a + 200..<b + 1] = [a..<b + 1]"
        using True by (intro upt_join) auto
      then show ?thesis
        by (simp only: e flip: map_append)
    next
      case False
      then show ?thesis by (simp add: min_def del: upt_Suc)
    qed
    ultimately show ?thesis by simp
  qed
qed

lemma get_block_headers_range_ok:
  assumes "b \<le> head" and "a \<le> b + 1"
  shows "get_block_headers_range N (of_nat a) (of_nat b) = Inr (map hdr [a..<b + 1])"
  using headers_range_loop_ok [of b a "[]"] assms head_bound by (simp add: get_block_headers_range_def)

lemma get_merkle_root_commitments_ok:
  assumes "k < 32" and "a \<le> b" and "b \<le> head" and "b - a \<le> 2 ^ k"
  shows "get_merkle_root_commitments C N (of_nat (2 ^ k)) (of_nat a) (of_nat b) =
    Inr (merkle_tree (sha256 C) k
           (map (\<lambda>n. h_state_root (hdr n)) [a + 1..<b + 1] @ replicate (2 ^ k - (b - a)) zero32),
         merkle_tree (sha256 C) k
           (map (\<lambda>n. h_data_root (hdr n)) [a + 1..<b + 1] @ replicate (2 ^ k - (b - a)) zero32))"
proof -
  have size: "unat (of_nat (2 ^ k) :: u32) = 2 ^ k"
    using assms(1) power_strict_increasing [of k 32 "2 :: nat"] by (intro unat_of_nat_small) simp
  have small: "unat (of_nat n :: u32) = n" if "n \<le> head" for n
    using that head_bound by (intro unat_of_nat_small) simp
  have sub: "checked_sub (of_nat b :: u32) (of_nat a) = Inr (of_nat (b - a))"
    using assms small [of a] small [of b] by (subst checked_sub_ok) (simp_all add: word_le_nat_alt of_nat_diff)
  have fits: "\<not> (of_nat (2 ^ k) :: u32) < of_nat (b - a)"
    using assms size small [of "b - a"] by (simp add: word_less_nat_alt not_less del: of_nat_power)
  have first: "checked_add (of_nat a :: u32) 1 = Inr (of_nat (a + 1))"
    using assms small [of a] head_bound by (simp add: checked_add_def)
  have headers: "get_block_headers_range N (of_nat (a + 1)) (of_nat b) = Inr (map hdr [a + 1..<b + 1])"
    using assms by (intro get_block_headers_range_ok) auto
  have root: "get_merkle_root (sha256 C) (map f (map hdr [a + 1..<b + 1]) @ replicate (2 ^ k - (b - a)) zero32) =
      merkle_tree (sha256 C) k (map (\<lambda>n. f (hdr n)) [a + 1..<b + 1] @ replicate (2 ^ k - (b - a)) zero32)" for f
  proof -
    let ?ls = "map f (map hdr [a + 1..<b + 1]) @ replicate (2 ^ k - (b - a)) zero32"
    have len: "length ?ls = 2 ^ k"
      using assms(2,4) by (simp del: upt_Suc)
    moreover have "next_power_of_two (2 ^ k) = 2 ^ k"
      using next_power_of_two_least [of "2 ^ k" k] next_power_of_two_ge [of "2 ^ k"] by simp
    moreover have "?ls \<noteq> []"
      using len by (metis length_0_conv power_not_zero zero_neq_numeral)
    ultimately have "get_merkle_root (sha256 C) ?ls =
        merkle_tree (sha256 C) k (?ls @ replicate (2 ^ k - length ?ls) zero32)"
      by (intro get_merkle_root_eq) simp_all
    then show ?thesis
      unfolding len by (simp add: comp_def del: upt_Suc)
  qed
  have "get_merkle_root_commitments C N (of_nat (2 ^ k)) (of_nat a) (of_nat b) =
      Inr (get_merkle_root (sha256 C)
             (map h_state_root (map hdr [a + 1..<b + 1]) @ replicate (2 ^ k - (b - a)) zero32),
           get_merkle_root (sha256 C)
             (map h_data_root (map hdr [a + 1..<b + 1]) @ replicate (2 ^ k - (b - a)) zero32))"
    unfolding get_merkle_root_commitments_def size sub and_then_Inr first headers
    using fits by (simp add: Let_def del: upt_Suc)
  then show ?thesis
    unfolding root .
qed

end

section \<open>Properties\<close>

text \<open>
  C29: the batched download of a header range returns the headers of exactly the blocks from the
  first to the last, in order, for every range that ends at or before the finalized head.
\<close>

theorem headers_range_exact:
  assumes "avail_chain N head bh hdr sid auths" and "b \<le> head" and "a \<le> b + 1"
  shows "get_block_headers_range N (of_nat a) (of_nat b) = Inr (map hdr [a..<b + 1])"
  using avail_chain.get_block_headers_range_ok [OF assms] .

theorem headers_range_exact_witness:
  "get_block_headers_range demo_node (of_nat 3) (of_nat 6) = Inr (map demo_avail_header [3..<6 + 1])"
  by (rule headers_range_exact [OF demon.avail_chain_axioms]) simp_all

text \<open>
  C30: the commitments the host computes for a block range are the roots of the perfect trees of
  the given size over the state roots and data roots of the blocks after the first up to the
  last, padded with empty leaves.
\<close>

theorem host_commitments_correct:
  assumes "avail_chain N head bh hdr sid auths"
    and "k < 32" and "a \<le> b" and "b \<le> head" and "b - a \<le> 2 ^ k"
    and "sha256 C = curta_sha256 B"
  shows "get_merkle_root_commitments C N (of_nat (2 ^ k)) (of_nat a) (of_nat b) =
    Inr (padded_root B k (map (\<lambda>n. h_state_root (hdr n)) [a + 1..<b + 1]),
         padded_root B k (map (\<lambda>n. h_data_root (hdr n)) [a + 1..<b + 1]))"
  using avail_chain.get_merkle_root_commitments_ok [OF assms(1-5), of C] assms(6)
  by (simp add: padded_root_def del: upt_Suc)

definition demo_crates :: crates where
  "demo_crates = ref_crates (\<lambda>bs. bs) (\<lambda>bs. bs) (\<lambda>key msg sig. take 32 sig = key) (\<lambda>_. None) (\<lambda>_. None)"

lemma demo_crates: "host_crates demo_crates"
  unfolding demo_crates_def by (rule refc.host_crates_axioms)

lemma demo_hashes: "sha256 demo_crates = curta_sha256 demo_gadgets" "blake2_256 demo_crates = pad32"
  by (simp_all add: demo_crates_def ref_crates_def demo_gadgets_def ref_gadgets_def)

theorem host_commitments_correct_witness:
  "\<exists>roots. get_merkle_root_commitments demo_crates demo_node (of_nat (2 ^ 2)) (of_nat 3) (of_nat 6) = Inr roots"
  using host_commitments_correct [OF demon.avail_chain_axioms _ _ _ _ demo_hashes(1), of 2 3 6] by simp

end
