(* ===== verification/Justification_Data.thy ===== *)
theory Justification_Data
  imports Header_Data
begin

text \<open>
  The part of \<open>RpcDataFetcher\<close> that serves justifications, \<open>get_justification_data\<close> and
  \<open>get_justification_from_block\<close> of \<open>circuits/input/mod.rs\<close>, and the hint of the circuits,
  \<open>HintSimpleJustification\<close> of \<open>circuits/builder/justification.rs\<close>. The lemmas show what every
  justification that leaves the hint satisfies, and that the circuit accepts it.
\<close>

section \<open>Definitions\<close>

text \<open>The signatures of a finality proof are verified and collected by public key.\<close>

fun collect_signatures ::
  "crates \<Rightarrow> bytes \<Rightarrow> SignedPrecommit list \<Rightarrow> (bytes \<rightharpoonup> bytes) \<Rightarrow> (bytes \<rightharpoonup> bytes) result"
where
  "collect_signatures C signed_message [] pubkey_bytes_to_signature = Inr pubkey_bytes_to_signature"
| "collect_signatures C signed_message (p # ps) pubkey_bytes_to_signature =
     and_then (verify_signature (verifying_key C) (ed25519_check C) (signer_id p) signed_message
         (signature p)) (\<lambda>_.
     collect_signatures C signed_message ps (pubkey_bytes_to_signature(signer_id p \<mapsto> signature p)))"

text \<open>One slot per authority, in the order of the authority set.\<close>

record authority_slots =
  slot_signed :: "bool list"
  slot_signatures :: "bytes list"
  slot_pubkeys :: "bytes list"
  slot_weight :: u64

fun fill_slots ::
  "crates \<Rightarrow> (bytes \<rightharpoonup> bytes) \<Rightarrow> bytes list \<Rightarrow> authority_slots \<Rightarrow> authority_slots result"
where
  "fill_slots C pubkey_bytes_to_signature [] s = Inr s"
| "fill_slots C pubkey_bytes_to_signature (k # ks) s =
     and_then (expect (edwards_from_slice C k) unwrap_err) (\<lambda>pubkey.
     case pubkey_bytes_to_signature k of
       Some valid_signature \<Rightarrow>
         and_then (checked_add (slot_weight s) 1) (\<lambda>w.
         fill_slots C pubkey_bytes_to_signature ks
           \<lparr>slot_signed = slot_signed s @ [True],
            slot_signatures = slot_signatures s @ [valid_signature],
            slot_pubkeys = slot_pubkeys s @ [pubkey], slot_weight = w\<rparr>)
     | None \<Rightarrow>
         fill_slots C pubkey_bytes_to_signature ks
           \<lparr>slot_signed = slot_signed s @ [False],
            slot_signatures = slot_signatures s @ [DUMMY_SIGNATURE C],
            slot_pubkeys = slot_pubkeys s @ [pubkey], slot_weight = slot_weight s\<rparr>)"

fun count_signed :: "bool list \<Rightarrow> u64 \<Rightarrow> u64 result" where
  "count_signed [] voting_weight = Inr voting_weight"
| "count_signed (validator_signed # rest) voting_weight =
     (if validator_signed then and_then (checked_add voting_weight 1) (count_signed rest)
      else count_signed rest voting_weight)"

text \<open>The two branches: an epoch end block, and any other block.\<close>

definition finality_proof_data ::
  "crates \<Rightarrow> avail_node \<Rightarrow> nat \<Rightarrow> u32 \<Rightarrow> SimpleJustificationData result"
where
  "finality_proof_data C N VALIDATOR_SET_SIZE_MAX block_number =
     and_then (expect (grandpa_proveFinality N block_number)
         unwrap_err) (\<lambda>encoded_finality_proof.
     and_then (expect (decode_finality_proof C encoded_finality_proof)
         unwrap_err) (\<lambda>finality_proof.
     and_then (expect (decode_grandpa_justification C (fp_justification finality_proof))
         unwrap_err) (\<lambda>justification.
     and_then (checked_sub block_number 1) (\<lambda>prev_block.
     and_then (get_authority_set_id N prev_block) (\<lambda>authority_set_id.
     and_then (get_authorities N prev_block) (\<lambda>authorities_pubkey_bytes.
     if VALIDATOR_SET_SIZE_MAX < length authorities_pubkey_bytes then
       Inl (Panic ''Too many authorities'')
     else
       and_then (index (precommits (commit justification)) 0) (\<lambda>first.
       let signed_message = encode_signed_message C (PrecommitMessage (precommit first))
         (round justification) authority_set_id in
       and_then (collect_signatures C signed_message (precommits (commit justification)) Map.empty)
         (\<lambda>pubkey_bytes_to_signature.
       and_then (fill_slots C pubkey_bytes_to_signature authorities_pubkey_bytes
           \<lparr>slot_signed = [], slot_signatures = [], slot_pubkeys = [], slot_weight = 0\<rparr>) (\<lambda>s.
       Inr \<lparr>sd_pubkeys = slot_pubkeys s, sd_signatures = slot_signatures s,
            sd_validator_signed = slot_signed s, sd_signed_message = signed_message,
            sd_voting_weight = slot_weight s,
            sd_num_authorities = of_nat (length authorities_pubkey_bytes)\<rparr>)))))))))"

definition stored_data ::
  "crates \<Rightarrow> ('db, 'j) redis \<Rightarrow> string \<Rightarrow> 'db \<Rightarrow> u32 \<Rightarrow> SimpleJustificationData result"
where
  "stored_data C R avail_chain_id db block_number =
     and_then (get_justification R avail_chain_id block_number db) (\<lambda>stored.
     and_then (count_signed (sj_validator_signed stored) 0) (\<lambda>voting_weight.
     and_then (traverse (\<lambda>pubkey. expect (edwards_from_slice C pubkey)
         unwrap_err) (sj_pubkeys stored)) (\<lambda>pubkeys.
     Inr \<lparr>sd_pubkeys = pubkeys, sd_signatures = sj_signatures stored,
          sd_validator_signed = sj_validator_signed stored,
          sd_signed_message = sj_signed_message stored,
          sd_voting_weight = voting_weight,
          sd_num_authorities = of_nat (sj_num_authorities stored)\<rparr>)))"

definition get_justification_data ::
  "crates \<Rightarrow> avail_node \<Rightarrow> ('db, 'j) redis \<Rightarrow> string \<Rightarrow> 'db \<Rightarrow> nat \<Rightarrow> u32 \<Rightarrow>
   SimpleJustificationData result"
where
  "get_justification_data C N R avail_chain_id db VALIDATOR_SET_SIZE_MAX block_number =
     and_then (connected N) (\<lambda>_.
     and_then (get_authority_set_id N block_number) (\<lambda>curr_authority_set_id.
     and_then (checked_sub block_number 1) (\<lambda>prev_block.
     and_then (get_authority_set_id N prev_block) (\<lambda>prev_authority_set_id.
     and_then (checked_add prev_authority_set_id 1) (\<lambda>next_authority_set_id.
     if curr_authority_set_id = next_authority_set_id
     then finality_proof_data C N VALIDATOR_SET_SIZE_MAX block_number
     else stored_data C R avail_chain_id db block_number)))))"

text \<open>The first loop of the padding, over the real authorities.\<close>

fun take_slots ::
  "SimpleJustificationData \<Rightarrow> nat list \<Rightarrow> (bytes \<times> bytes \<times> bool) list result"
where
  "take_slots data [] = Inr []"
| "take_slots data (i # is) =
     and_then (index (sd_pubkeys data) i) (\<lambda>pubkey.
     and_then (index (sd_signatures data) i) (\<lambda>signature.
     and_then (ensure (length signature = 64) unwrap_err) (\<lambda>_.
     and_then (index (sd_validator_signed data) i) (\<lambda>signed.
     and_then (take_slots data is) (\<lambda>slots. Inr ((pubkey, signature, signed) # slots))))))"

definition get_justification_from_block ::
  "crates \<Rightarrow> avail_node \<Rightarrow> ('db, 'j) redis \<Rightarrow> string \<Rightarrow> 'db \<Rightarrow> nat \<Rightarrow> u32 \<Rightarrow>
   CircuitJustification result"
where
  "get_justification_from_block C N R avail_chain_id db VALIDATOR_SET_SIZE_MAX block_number =
     and_then (get_justification_data C N R avail_chain_id db VALIDATOR_SET_SIZE_MAX block_number) (\<lambda>data.
     and_then (checked_sub block_number 1) (\<lambda>prev_block.
     and_then (get_authority_set_id N prev_block) (\<lambda>current_authority_set_id.
     let current_authority_set_hash = compute_authority_set_hash (sha256 C) (sd_pubkeys data) in
     and_then (checked_mul (sd_voting_weight data) 3) (\<lambda>lhs.
     and_then (checked_mul (sd_num_authorities data) 2) (\<lambda>rhs.
     if lhs < rhs then Inl (Panic ''Not enough voting power'')
     else
       and_then (take_slots data [0..<unat (sd_num_authorities data)]) (\<lambda>slots.
       let num_padding = VALIDATOR_SET_SIZE_MAX - unat (sd_num_authorities data) in
       and_then (if num_padding = 0 then Inr (DUMMY_PUBLIC_KEY C)
           else expect (edwards_from_slice C (DUMMY_PUBLIC_KEY C))
             unwrap_err) (\<lambda>dummy.
       Inr \<lparr>cj_authority_set_id = current_authority_set_id,
            cj_signed_message = sd_signed_message data,
            cj_validator_signed = map (\<lambda>(_, _, v). v) slots @ replicate num_padding False,
            cj_pubkeys = map (\<lambda>(k, _, _). k) slots @ replicate num_padding dummy,
            cj_signatures = map (\<lambda>(_, s, _). s) slots @ replicate num_padding (DUMMY_SIGNATURE C),
            cj_num_authorities = unat (sd_num_authorities data),
            cj_current_authority_set_hash = current_authority_set_hash\<rparr>)))))))"

text \<open>The hint of the circuits.\<close>

fun verify_marked :: "crates \<Rightarrow> CircuitJustification \<Rightarrow> nat list \<Rightarrow> unit result" where
  "verify_marked C data [] = Inr ()"
| "verify_marked C data (i # is) =
     and_then (index (cj_validator_signed data) i) (\<lambda>signed.
     if \<not> signed then verify_marked C data is
     else
       and_then (index (cj_pubkeys data) i) (\<lambda>pubkey.
       and_then (index (cj_signatures data) i) (\<lambda>signature.
       and_then (verify_signature (verifying_key C) (ed25519_check C) pubkey (cj_signed_message data)
           signature) (\<lambda>_.
       verify_marked C data is))))"

definition signature_value :: "crates \<Rightarrow> bytes \<Rightarrow> eddsa_signature result" where
  "signature_value C sig =
     and_then (index_range sig 0 32) (\<lambda>r.
     and_then (expect (edwards_from_slice C r) unwrap_err) (\<lambda>r.
     and_then (index_range sig 32 64) (\<lambda>s.
     Inr \<lparr>sig_r = r, sig_s = from_le_bytes s\<rparr>)))"

definition HintSimpleJustification ::
  "crates \<Rightarrow> avail_node \<Rightarrow> ('db, 'j) redis \<Rightarrow> string \<Rightarrow> 'db \<Rightarrow> nat \<Rightarrow> u32 \<Rightarrow> u64 \<Rightarrow>
   JustificationStruct result"
where
  "HintSimpleJustification C N R avail_chain_id db NUM_AUTHORITIES block_number authority_set_id =
     and_then (expect_ok
         (get_justification_from_block C N R avail_chain_id db NUM_AUTHORITIES block_number)
         ''Failed to get justification'') (\<lambda>data.
     if cj_authority_set_id data \<noteq> authority_set_id then
       Inl (Panic ''Authority set id does not match'')
     else if length (cj_signed_message data) \<noteq> ENCODED_PRECOMMIT_LENGTH then
       Inl (Panic ''Encoded precommit is not the correct length'')
     else
       and_then (verify_marked C data [0..<cj_num_authorities data]) (\<lambda>_.
       and_then (traverse (signature_value C) (cj_signatures data)) (\<lambda>signatures.
       Inr \<lparr>js_encoded_precommit = cj_signed_message data,
            js_validator_signed = cj_validator_signed data,
            js_signatures = signatures,
            js_pubkeys = cj_pubkeys data,
            js_num_authorities = of_nat (cj_num_authorities data)\<rparr>)))"

section \<open>What the loops compute\<close>

lemma count_signed_Inr:
  "count_signed flags w = Inr w' \<Longrightarrow> unat w' = unat w + length (filter id flags)"
  by (induction flags arbitrary: w) (auto elim!: and_then_Inr_E dest: checked_add_Inr split: if_splits)

lemma map_nth_upt: "n \<le> length xs \<Longrightarrow> map ((!) xs) [0..<n] = take n xs"
  by (auto intro: nth_equalityI)

lemma take_slots_Inr:
  "take_slots data is = Inr slots \<Longrightarrow>
     slots = map (\<lambda>i. (sd_pubkeys data ! i, sd_signatures data ! i, sd_validator_signed data ! i)) is \<and>
     (\<forall>i \<in> set is. i < length (sd_pubkeys data) \<and> i < length (sd_signatures data) \<and>
        i < length (sd_validator_signed data) \<and> length (sd_signatures data ! i) = 64)"
  by (induction "is" arbitrary: slots)
    (auto elim!: and_then_Inr_E simp: index_def ensure_eq_Inr split: if_splits)

lemma take_slots_ok:
  assumes "\<And>i. i \<in> set is \<Longrightarrow> i < length (sd_pubkeys data) \<and> i < length (sd_signatures data) \<and>
      i < length (sd_validator_signed data) \<and> length (sd_signatures data ! i) = 64"
  shows "take_slots data is =
    Inr (map (\<lambda>i. (sd_pubkeys data ! i, sd_signatures data ! i, sd_validator_signed data ! i)) is)"
  using assms by (induction "is") simp_all

lemma verify_signature_Inr:
  "verify_signature vk ck key msg sig = Inr u \<longleftrightarrow> vk key \<and> ck key msg sig"
  by (auto simp: verify_signature_def and_then_eq_Inr ensure_eq_Inr)

lemma verify_marked_Inr:
  "verify_marked C data is = Inr u \<longleftrightarrow>
     (\<forall>i \<in> set is. i < length (cj_validator_signed data) \<and>
        (cj_validator_signed data ! i \<longrightarrow>
           i < length (cj_pubkeys data) \<and> i < length (cj_signatures data) \<and>
           verifying_key C (cj_pubkeys data ! i) \<and>
           ed25519_check C (cj_pubkeys data ! i) (cj_signed_message data) (cj_signatures data ! i)))"
  by (induction "is") (auto simp: index_def and_then_eq_Inr verify_signature_Inr split: if_splits)

lemma collect_signatures_ok:
  assumes "\<forall>p \<in> set ps. verifying_key C (signer_id p) \<and> ed25519_check C (signer_id p) msg (signature p)"
  shows "collect_signatures C msg ps m = Inr (m ++ map_of (rev (map (\<lambda>p. (signer_id p, signature p)) ps)))"
  using assms
proof (induction ps arbitrary: m)
  case Nil
  then show ?case by simp
next
  case (Cons p ps)
  then have "verify_signature (verifying_key C) (ed25519_check C) (signer_id p) msg (signature p) = Inr ()"
    by (simp add: verify_signature_Inr)
  with Cons show ?case by simp
qed

text \<open>The signature in the circuit's form.\<close>

definition split_signature :: "bytes \<Rightarrow> eddsa_signature" where
  "split_signature sig = \<lparr>sig_r = take 32 sig, sig_s = from_le_bytes (subarray 32 64 sig)\<rparr>"

context host_crates
begin

lemma signature_value_ok: "length sig = 64 \<Longrightarrow> signature_value C sig = Inr (split_signature sig)"
  by (simp add: signature_value_def split_signature_def index_range_def edwards_from_slice subarray_def)

lemma fill_slots_ok:
  assumes "\<forall>k \<in> set ks. length k = 32" and "unat (slot_weight s) + length ks < 2 ^ 64"
  shows "fill_slots C m ks s = Inr
    \<lparr>slot_signed = slot_signed s @ map (\<lambda>k. m k \<noteq> None) ks,
     slot_signatures = slot_signatures s @ map (\<lambda>k. case m k of Some x \<Rightarrow> x | None \<Rightarrow> DUMMY_SIGNATURE C) ks,
     slot_pubkeys = slot_pubkeys s @ ks,
     slot_weight = slot_weight s + of_nat (length (filter (\<lambda>k. m k \<noteq> None) ks))\<rparr>"
  using assms
proof (induction ks arbitrary: s)
  case Nil
  then show ?case by simp
next
  case (Cons k ks)
  show ?case
  proof (cases "m k")
    case None
    with Cons show ?thesis by (simp add: edwards_from_slice)
  next
    case (Some x)
    have add: "checked_add (slot_weight s) 1 = Inr (slot_weight s + 1)"
      using Cons.prems by (intro checked_add_ok) simp
    then have "unat (slot_weight s + 1) = unat (slot_weight s) + 1"
      using checked_add_Inr(1) [OF add] by simp
    with Some Cons add show ?thesis
      by (simp add: edwards_from_slice add.assoc)
  qed
qed

lemma fill_slots_Inr:
  assumes "fill_slots C m ks s = Inr s'"
  shows "slot_pubkeys s' = slot_pubkeys s @ ks \<and> (\<forall>k \<in> set ks. length k = 32) \<and>
    length (slot_signed s') = length (slot_signed s) + length ks \<and>
    unat (slot_weight s') + length (filter id (slot_signed s)) =
      unat (slot_weight s) + length (filter id (slot_signed s'))"
  using assms
proof (induction ks arbitrary: s)
  case Nil
  then show ?case by simp
next
  case (Cons k ks)
  show ?case
  proof (cases "m k")
    case None
    from Cons.prems have "length k = 32" and rest: "fill_slots C m ks
        \<lparr>slot_signed = slot_signed s @ [False], slot_signatures = slot_signatures s @ [DUMMY_SIGNATURE C],
         slot_pubkeys = slot_pubkeys s @ [k], slot_weight = slot_weight s\<rparr> = Inr s'"
      by (auto simp: None edwards_from_slice and_then_eq_Inr expect_eq_Inr split: if_splits)
    then show ?thesis using Cons.IH [OF rest] by simp
  next
    case (Some x)
    from Cons.prems obtain w where "length k = 32" and w: "checked_add (slot_weight s) 1 = Inr w"
        and rest: "fill_slots C m ks
        \<lparr>slot_signed = slot_signed s @ [True], slot_signatures = slot_signatures s @ [x],
         slot_pubkeys = slot_pubkeys s @ [k], slot_weight = w\<rparr> = Inr s'"
      by (auto simp: Some edwards_from_slice and_then_eq_Inr expect_eq_Inr split: if_splits)
    then show ?thesis using Cons.IH [OF rest] checked_add_Inr(1) [OF w] by simp
  qed
qed

lemma get_justification_data_Inr:
  assumes "get_justification_data C N R chain db M n = Inr data"
  shows "\<forall>k \<in> set (sd_pubkeys data). length k = 32"
    and "unat (sd_voting_weight data) = length (filter id (sd_validator_signed data))"
proof -
  consider "finality_proof_data C N M n = Inr data" | "stored_data C R chain db n = Inr data"
    using assms by (auto simp: get_justification_data_def elim!: and_then_Inr_E split: if_splits)
  then have "(\<forall>k \<in> set (sd_pubkeys data). length k = 32) \<and>
    unat (sd_voting_weight data) = length (filter id (sd_validator_signed data))"
  proof cases
    case 1
    then obtain m ks s where f: "fill_slots C m ks
        \<lparr>slot_signed = [], slot_signatures = [], slot_pubkeys = [], slot_weight = 0\<rparr> = Inr s"
        and d: "sd_pubkeys data = slot_pubkeys s" "sd_validator_signed data = slot_signed s"
        "sd_voting_weight data = slot_weight s"
      by (auto simp: finality_proof_data_def Let_def elim!: and_then_Inr_E split: if_splits)
    then show ?thesis
      using fill_slots_Inr [OF f] by simp
  next
    case 2
    then obtain stored :: StoredJustificationData and w ks where cnt: "count_signed (sj_validator_signed stored) 0 = Inr w"
        and keys: "traverse (\<lambda>k. expect (edwards_from_slice C k) unwrap_err) (sj_pubkeys stored) = Inr ks"
        and data: "data = \<lparr>sd_pubkeys = ks, sd_signatures = sj_signatures stored,
          sd_validator_signed = sj_validator_signed stored, sd_signed_message = sj_signed_message stored,
          sd_voting_weight = w, sd_num_authorities = of_nat (sj_num_authorities stored)\<rparr>"
      by (auto simp: stored_data_def and_then_eq_Inr)
    have "length (ks ! i) = 32" if "i < length ks" for i
      using traverse_nth [OF keys, of i] traverse_length [OF keys] that
      by (auto simp: expect_eq_Inr edwards_from_slice split: if_splits)
    then show ?thesis
      using count_signed_Inr [OF cnt] data by (auto simp: in_set_conv_nth)
  qed
  then show "\<forall>k \<in> set (sd_pubkeys data). length k = 32"
    and "unat (sd_voting_weight data) = length (filter id (sd_validator_signed data))"
    by blast+
qed

text \<open>The arrays of a justification from a block, all three of one length.\<close>

lemma get_justification_from_block_Inr:
  assumes "get_justification_from_block C N R chain db M n = Inr cj"
  defines "num \<equiv> cj_num_authorities cj"
  shows "length (cj_validator_signed cj) = num + (M - num)"
    and "length (cj_pubkeys cj) = num + (M - num)" and "length (cj_signatures cj) = num + (M - num)"
    and "\<forall>k \<in> set (cj_pubkeys cj). length k = 32" and "\<forall>s \<in> set (cj_signatures cj). length s = 64"
    and "\<forall>i < num + (M - num). num \<le> i \<longrightarrow> \<not> cj_validator_signed cj ! i"
proof -
  obtain data slots where data: "get_justification_data C N R chain db M n = Inr data"
      and num: "num = unat (sd_num_authorities data)"
      and slots: "take_slots data [0..<num] = Inr slots"
      and cj: "cj_validator_signed cj = map (\<lambda>(_, _, v). v) slots @ replicate (M - num) False"
        "cj_pubkeys cj = map (\<lambda>(k, _, _). k) slots @ replicate (M - num) (DUMMY_PUBLIC_KEY C)"
        "cj_signatures cj = map (\<lambda>(_, s, _). s) slots @ replicate (M - num) (DUMMY_SIGNATURE C)"
    using assms(1) unfolding num_def
    by (auto simp: get_justification_from_block_def Let_def edwards_from_slice expect_eq_Inr
        elim!: and_then_Inr_E split: if_splits)
  have s: "slots = map (\<lambda>i. (sd_pubkeys data ! i, sd_signatures data ! i, sd_validator_signed data ! i))
        [0..<num]"
      and i: "\<forall>i < num. i < length (sd_pubkeys data) \<and> length (sd_signatures data ! i) = 64"
    using take_slots_Inr [OF slots] by auto
  show "length (cj_validator_signed cj) = num + (M - num)"
    and "length (cj_pubkeys cj) = num + (M - num)" and "length (cj_signatures cj) = num + (M - num)"
    and "\<forall>i < num + (M - num). num \<le> i \<longrightarrow> \<not> cj_validator_signed cj ! i"
    by (auto simp: cj s nth_append)
  show "\<forall>k \<in> set (cj_pubkeys cj). length k = 32" and "\<forall>s \<in> set (cj_signatures cj). length s = 64"
    using i get_justification_data_Inr(1) [OF data] length_dummy by (auto simp: cj s)
qed

text \<open>The functional behaviour on data with one entry per authority.\<close>

lemma get_justification_from_block_ok:
  assumes data: "get_justification_data C N R chain db M n = Inr data"
    and prev: "checked_sub n 1 = Inr p" "get_authority_set_id N p = Inr set_id"
    and num: "unat (sd_num_authorities data) = num" "num < 2 ^ 30"
    and len: "length (sd_pubkeys data) = num" "length (sd_signatures data) = num"
      "length (sd_validator_signed data) = num" "\<forall>s \<in> set (sd_signatures data). length s = 64"
  shows "get_justification_from_block C N R chain db M n =
    (if 3 * length (filter id (sd_validator_signed data)) < 2 * num
     then Inl (Panic ''Not enough voting power'')
     else Inr \<lparr>cj_authority_set_id = set_id, cj_signed_message = sd_signed_message data,
       cj_validator_signed = sd_validator_signed data @ replicate (M - num) False,
       cj_pubkeys = sd_pubkeys data @ replicate (M - num) (DUMMY_PUBLIC_KEY C),
       cj_signatures = sd_signatures data @ replicate (M - num) (DUMMY_SIGNATURE C),
       cj_num_authorities = num,
       cj_current_authority_set_hash = compute_authority_set_hash (sha256 C) (sd_pubkeys data)\<rparr>)"
proof -
  let ?w = "length (filter id (sd_validator_signed data))"
  have w: "unat (sd_voting_weight data) = ?w" "?w \<le> num"
    using get_justification_data_Inr(2) [OF data] len(3)
      length_filter_le [of id "sd_validator_signed data"] by simp_all
  have mul: "checked_mul (sd_voting_weight data) 3 = Inr (sd_voting_weight data * 3)"
    "checked_mul (sd_num_authorities data) 2 = Inr (sd_num_authorities data * 2)"
    using num w by (simp_all add: checked_mul_def)
  have less: "sd_voting_weight data * 3 < sd_num_authorities data * 2 \<longleftrightarrow> 3 * ?w < 2 * num"
    using num w by (simp add: word_less_nat_alt unat_word_ariths mult.commute)
  have slots: "take_slots data [0..<num] = Inr (map (\<lambda>i. (sd_pubkeys data ! i, sd_signatures data ! i,
      sd_validator_signed data ! i)) [0..<num])"
    using len by (subst take_slots_ok) simp_all
  show ?thesis
    unfolding get_justification_from_block_def data and_then_Inr prev Let_def mul less num(1) slots
    using len by (simp add: edwards_from_slice length_dummy comp_def map_nth_upt)
qed

lemma HintSimpleJustification_Inr:
  assumes "HintSimpleJustification C N R chain db M n set_id = Inr j"
    and "length (js_validator_signed j) = M" and "M < 2 ^ 32"
  obtains sigs where "wf_justification M j" "unat (js_num_authorities j) \<le> M"
    "\<forall>i < M. unat (js_num_authorities j) \<le> i \<longrightarrow> \<not> js_validator_signed j ! i"
    "length sigs = M" "js_signatures j = map split_signature sigs"
    "\<forall>i < M. length (sigs ! i) = 64 \<and> (js_validator_signed j ! i \<longrightarrow>
      ed25519_check C (js_pubkeys j ! i) (js_encoded_precommit j) (sigs ! i))"
proof -
  obtain cj sigs where cj: "get_justification_from_block C N R chain db M n = Inr cj"
      and len: "length (cj_signed_message cj) = ENCODED_PRECOMMIT_LENGTH"
      and marked: "verify_marked C cj [0..<cj_num_authorities cj] = Inr ()"
      and sigs: "traverse (signature_value C) (cj_signatures cj) = Inr sigs"
      and j: "j = \<lparr>js_encoded_precommit = cj_signed_message cj,
        js_validator_signed = cj_validator_signed cj, js_signatures = sigs,
        js_pubkeys = cj_pubkeys cj, js_num_authorities = of_nat (cj_num_authorities cj)\<rparr>"
    using assms(1)
    by (auto simp: HintSimpleJustification_def expect_ok_eq_Inr elim!: and_then_Inr_E split: if_splits)
  note c = get_justification_from_block_Inr [OF cj]
  have num: "cj_num_authorities cj \<le> M"
    using c(1) assms(2) by (simp add: j)
  then have un: "unat (of_nat (cj_num_authorities cj) :: u32) = cj_num_authorities cj"
    using assms(3) by (intro unat_of_nat_small) simp
  have "sigs = map split_signature (cj_signatures cj)"
    using sigs traverse_Inr [of "cj_signatures cj" "signature_value C" split_signature]
      signature_value_ok c(5) by simp
  then show thesis
    using c num un len marked
    by (intro that [of "cj_signatures cj"])
      (auto simp: j wf_justification_def wf_pubkeys_def list_all_iff verify_marked_Inr not_le)
qed

end

section \<open>Properties\<close>

text \<open>
  C20: every justification that leaves the hint with the array length of the circuit has the shape
  of the circuit's type: all arrays of that length, 32-byte keys, a 53-byte message, at most as
  many authorities as slots. No slot behind the declared authorities is marked, and each marked
  slot carries a signature that the host has verified over the message. A prover that uses this
  hint therefore meets the precondition under which an accepted justification is a supermajority.
\<close>

theorem hint_justification_well_formed:
  assumes "host_crates C"
    and "HintSimpleJustification C N R chain db M n set_id = Inr j"
    and "length (js_validator_signed j) = M" and "M < 2 ^ 32"
  shows "wf_justification M j \<and> unat (js_num_authorities j) \<le> M \<and>
    (\<forall>i < M. unat (js_num_authorities j) \<le> i \<longrightarrow> \<not> js_validator_signed j ! i) \<and>
    (\<forall>i < M. js_validator_signed j ! i \<longrightarrow>
       (\<exists>sig. length sig = 64 \<and> js_signatures j ! i = split_signature sig \<and>
          ed25519_check C (js_pubkeys j ! i) (js_encoded_precommit j) sig))"
  by (rule host_crates.HintSimpleJustification_Inr [OF assms]) auto

definition demo_db :: mem_db where
  "demo_db = empty_db\<lparr>mem_json := (\<lambda>_. None)(justification_key ''avail'' 6 \<mapsto>
     \<lparr>sj_block_number = 6, sj_signed_message = encode_precommit (demo_block_hash 6) 6 1 1,
      sj_pubkeys = [replicate 32 7], sj_signatures = [replicate 64 7],
      sj_validator_signed = [True], sj_num_authorities = 1\<rparr>)\<rparr>"

definition demo_hint :: JustificationStruct where
  "demo_hint =
     \<lparr>js_encoded_precommit = encode_precommit (demo_block_hash 6) 6 1 1,
      js_validator_signed = [True, False],
      js_signatures = [split_signature (replicate 64 7), split_signature (replicate 64 0)],
      js_pubkeys = [replicate 32 7, zero32],
      js_num_authorities = 1\<rparr>"

lemma demo_set_ids:
  "get_authority_set_id demo_node 6 = Inr 1" "get_authority_set_id demo_node 5 = Inr 1"
  using demon.get_authority_set_id_ok [of 6] demon.get_authority_set_id_ok [of 5] by simp_all

lemma length_demo_block_hash [simp]: "length (demo_block_hash n) = 32"
  by (simp add: demo_block_hash_def)

lemma demo_stored_justification:
  "HintSimpleJustification demo_crates demo_node mem_redis ''avail'' demo_db 2 6 1 = Inr demo_hint"
proof -
  have prev: "checked_sub (6 :: u32) 1 = Inr 5"
    by (simp add: checked_sub_def)
  have next_id: "checked_add (1 :: u64) 1 = Inr 2"
    by (simp add: checked_add_def)
  have store: "get_justification mem_redis ''avail'' 6 demo_db =
      Inr \<lparr>sj_block_number = 6, sj_signed_message = encode_precommit (demo_block_hash 6) 6 1 1,
        sj_pubkeys = [replicate 32 7], sj_signatures = [replicate 64 7],
        sj_validator_signed = [True], sj_num_authorities = 1\<rparr>"
    by (simp add: get_justification_def demo_db_def connection_def get_connection_def
        MAX_RECONNECT_ATTEMPTS_def mem_redis_def upt_rec)
  have data: "get_justification_data demo_crates demo_node mem_redis ''avail'' demo_db 2 6 =
      Inr \<lparr>sd_pubkeys = [replicate 32 7], sd_signatures = [replicate 64 7], sd_validator_signed = [True],
        sd_signed_message = encode_precommit (demo_block_hash 6) 6 1 1,
        sd_voting_weight = 1, sd_num_authorities = 1\<rparr>"
    by (simp add: get_justification_data_def demo_set_ids prev next_id stored_data_def store
        checked_add_def host_crates.edwards_from_slice [OF demo_crates])
  show ?thesis
    by (simp add: HintSimpleJustification_def get_justification_from_block_def data prev demo_set_ids
        checked_mul_def host_crates.edwards_from_slice [OF demo_crates]
        host_crates.signature_value_ok [OF demo_crates] host_crates.length_dummy [OF demo_crates]
        verify_signature_def demo_hint_def encode_precommit_def ENCODED_PRECOMMIT_LENGTH_def)
      (simp add: demo_crates_def ref_crates_def)
qed

theorem hint_justification_well_formed_witness:
  "wf_justification 2 demo_hint \<and> \<not> js_validator_signed demo_hint ! 1"
  using hint_justification_well_formed [OF demo_crates demo_stored_justification]
  by (simp add: demo_hint_def)

end
