(* ===== verification/Rotate_Data.thy ===== *)
theory Rotate_Data
  imports Justification_Data
begin

text \<open>
  The data of a rotation: \<open>get_header_rotate\<close> of \<open>circuits/input/mod.rs\<close>, which locates the
  scheduled change in the digest of an epoch end header, and \<open>RotateHint\<close> of
  \<open>circuits/rotate.rs\<close>. The lemmas show which bytes of the encoded header the position names.
\<close>

section \<open>Definitions\<close>

function chunks_exact :: "nat \<Rightarrow> 'a list \<Rightarrow> 'a list list" where
  "chunks_exact n xs =
     (if n = 0 \<or> length xs < n then [] else take n xs # chunks_exact n (drop n xs))"
  by pat_completeness auto
termination
  by (relation "measure (\<lambda>(_, xs). length xs)") auto

declare chunks_exact.simps [simp del]

fun check_authority_chunks :: "bytes list \<Rightarrow> bytes list \<Rightarrow> nat \<Rightarrow> nat \<Rightarrow> nat result" where
  "check_authority_chunks new_authorities [] i cursor = Inr cursor"
| "check_authority_chunks new_authorities (authority_chunk # chunks) i cursor =
     (let pubkey = take PUBKEY_LENGTH authority_chunk;
          weight = drop PUBKEY_LENGTH authority_chunk in
      and_then (index new_authorities i) (\<lambda>authority.
      and_then (ensure (pubkey = authority) ''assertion `left == right` failed'') (\<lambda>_.
      and_then (ensure (weight = [1, 0, 0, 0, 0, 0, 0, 0]) ''assertion `left == right` failed'') (\<lambda>_.
      check_authority_chunks new_authorities chunks (i + 1) (cursor + VALIDATOR_LENGTH)))))"

fun check_delay :: "bytes \<Rightarrow> nat list \<Rightarrow> unit result" where
  "check_delay delay [] = Inr ()"
| "check_delay delay (i # is) =
     and_then (index delay i) (\<lambda>d.
     and_then (ensure (d = 0) ''assertion `left == right` failed'') (\<lambda>_.
     check_delay delay is))"

definition check_scheduled_change :: "bytes list \<Rightarrow> nat \<Rightarrow> bytes \<Rightarrow> unit result" where
  "check_scheduled_change new_authorities encoded_num_authorities_len value =
     and_then (index value 0) (\<lambda>flag.
     and_then (ensure (flag = 1) ''assertion `left == right` failed'') (\<lambda>_.
     let cursor = 1 + encoded_num_authorities_len in
     and_then (index_range value cursor (length value)) (\<lambda>authorities_bytes.
     and_then (check_authority_chunks new_authorities (chunks_exact VALIDATOR_LENGTH authorities_bytes)
         0 cursor) (\<lambda>cursor.
     and_then (index_range value cursor (length value)) (\<lambda>delay.
     check_delay delay [0..<DELAY_LENGTH])))))"

text \<open>
  The loop over the digest: the position of the first log of the engine \<open>FRNK\<close>, counted from
  the given position, or \<open>None\<close> when there is none.
\<close>

fun find_scheduled_change ::
  "crates \<Rightarrow> bytes list \<Rightarrow> nat \<Rightarrow> digest_item list \<Rightarrow> nat \<Rightarrow> nat option result"
where
  "find_scheduled_change C new_authorities encoded_num_authorities_len [] position = Inr None"
| "find_scheduled_change C new_authorities encoded_num_authorities_len (log # logs) position =
     (let encoded_log = encode_log C log;
          skip = find_scheduled_change C new_authorities encoded_num_authorities_len logs
            (position + length encoded_log) in
      case log of
        Consensus consensus_id value \<Rightarrow>
          if consensus_id = [70, 82, 78, 75] then
            and_then (check_scheduled_change new_authorities encoded_num_authorities_len value)
              (\<lambda>_. Inr (Some position))
          else skip
      | OtherItem _ \<Rightarrow> skip)"

definition get_header_rotate ::
  "crates \<Rightarrow> avail_node \<Rightarrow> nat \<Rightarrow> nat \<Rightarrow> u32 \<Rightarrow> HeaderRotateData result"
where
  "get_header_rotate C N HEADER_LENGTH VALIDATOR_SET_SIZE_MAX epoch_end_block =
     and_then (get_authority_set_id N epoch_end_block) (\<lambda>epoch_end_block_authority_set_id.
     and_then (checked_sub epoch_end_block 1) (\<lambda>prev_block.
     and_then (get_authority_set_id N prev_block) (\<lambda>prev_authority_set_id.
     and_then (checked_sub epoch_end_block_authority_set_id 1) (\<lambda>expected.
     and_then (ensure (expected = prev_authority_set_id) ''assertion `left == right` failed'') (\<lambda>_.
     and_then (get_header N epoch_end_block) (\<lambda>header.
     let header_bytes = encode_header C header; header_size = length header_bytes in
     if HEADER_LENGTH < header_size then Inl (Panic ''header size is greater than HEADER_LENGTH'')
     else
     let header_bytes = header_bytes @ replicate (HEADER_LENGTH - header_size) 0 in
     and_then (get_authorities N epoch_end_block) (\<lambda>new_authorities.
     let num_authorities = length new_authorities;
         encoded_num_authorities_len = length (encode_compact C (of_nat num_authorities));
         scheduled_change_message_length =
           1 + encoded_num_authorities_len + (40 * num_authorities) + DELAY_LENGTH;
         encoded_scheduled_change_message_length_size =
           length (encode_compact C (of_nat scheduled_change_message_length));
         number_encoded = encode_compact C epoch_end_block;
         position = 0 + (HASH_SIZE + length number_encoded + HASH_SIZE + HASH_SIZE) in
     and_then (find_scheduled_change C new_authorities encoded_num_authorities_len (h_logs header) position)
       (\<lambda>found.
     case found of
       None \<Rightarrow> Inl (Panic ''should be an epoch end block, but did not find corresponding consensus log!'')
     | Some position \<Rightarrow>
         let new_authority_set_hash = compute_authority_set_hash (sha256 C) new_authorities in
         and_then (traverse (\<lambda>k. expect (edwards_from_slice C k) unwrap_err)
             (new_authorities @
              replicate (VALIDATOR_SET_SIZE_MAX - length new_authorities) (DUMMY_PUBLIC_KEY C)))
           (\<lambda>padded_pubkeys.
         let prefix_length = CONSENSUS_ENGINE_ID_PREFIX_LENGTH
               + encoded_scheduled_change_message_length_size + 1 + encoded_num_authorities_len;
             end_position = position + prefix_length + ((32 + 8) * length new_authorities) + 4 in
         Inr \<lparr>rd_header_bytes = header_bytes, rd_header_size = header_size,
              rd_num_authorities = length new_authorities, rd_start_position = position,
              rd_end_position = end_position, rd_new_authority_set_hash = new_authority_set_hash,
              rd_padded_pubkeys = padded_pubkeys\<rparr>)))))))))"

definition RotateHint ::
  "crates \<Rightarrow> avail_node \<Rightarrow> nat \<Rightarrow> nat \<Rightarrow> u64 \<Rightarrow> RotateStruct result"
where
  "RotateHint C N HEADER_LENGTH max_authority_set_size authority_set_id =
     and_then (last_justified_block N authority_set_id) (\<lambda>epoch_end_block_nb.
     and_then (get_header_rotate C N HEADER_LENGTH max_authority_set_size epoch_end_block_nb) (\<lambda>rotate_data.
     if max_authority_set_size < rd_num_authorities rotate_data then
       Inl (Panic ''The number of authorities is greater than the maximum authority set size.'')
     else
       Inr \<lparr>epoch_end_block_number = epoch_end_block_nb,
            target_header = \<lparr>header_bytes = rd_header_bytes rotate_data,
              header_size = of_nat (rd_header_size rotate_data)\<rparr>,
            target_header_num_authorities = rd_num_authorities rotate_data,
            next_authority_set_start_position = rd_start_position rotate_data,
            new_pubkeys = rd_padded_pubkeys rotate_data\<rparr>))"

section \<open>The check of a scheduled change\<close>

lemma chunks_exact_authorities:
  assumes "list_all (\<lambda>k. length k = 32) ks" and "length rest < 40"
  shows "chunks_exact 40 (encode_authorities ks @ rest) = map (\<lambda>k. k @ expected_weight_bytes) ks"
  using assms
proof (induction ks)
  case Nil
  then show ?case by (subst chunks_exact.simps) (simp add: encode_authorities_def)
next
  case (Cons k ks)
  have "length (k @ expected_weight_bytes) = 40"
    using Cons.prems by (simp add: expected_weight_bytes_def)
  then show ?case
    using Cons by (subst chunks_exact.simps) (simp add: encode_authorities_def)
qed

lemma check_authority_chunks_ok:
  assumes "list_all (\<lambda>k. length k = 32) auths" and "ks = drop i auths"
  shows "check_authority_chunks auths (map (\<lambda>k. k @ expected_weight_bytes) ks) i c =
    Inr (c + 40 * length ks)"
  using assms(2)
proof (induction ks arbitrary: i c)
  case Nil
  then show ?case by simp
next
  case (Cons k ks)
  from Cons.prems have i: "i < length auths"
    by (cases "i < length auths") simp_all
  then have k: "auths ! i = k" and ks: "ks = drop (i + 1) auths"
    using Cons.prems by (simp_all add: Cons_nth_drop_Suc [symmetric])
  have "length k = 32"
    using assms(1) i k by (auto simp: list_all_length)
  then show ?case
    using Cons.IH [OF ks, of "c + 40"] i k
    by (simp add: Let_def const_simps expected_weight_bytes_def)
qed

lemma check_scheduled_change_ok:
  assumes "list_all (\<lambda>k. length k = 32) ks"
  shows "check_scheduled_change ks (length (scale_compact (of_nat (length ks)))) (scheduled_change ks) = Inr ()"
proof -
  let ?n = "scale_compact (of_nat (length ks))" and ?d = "expected_delay_bytes"
  have d: "?d = [0, 0, 0, 0]"
    by (simp add: expected_delay_bytes_def DELAY_LENGTH_def numeral_eq_Suc)
  have msg: "index_range (scheduled_change ks) (1 + length ?n) (length (scheduled_change ks)) =
      Inr (encode_authorities ks @ ?d)"
    by (simp add: index_range_def scheduled_change_def subarray_def)
  have chunks: "chunks_exact VALIDATOR_LENGTH (encode_authorities ks @ ?d) =
      map (\<lambda>k. k @ expected_weight_bytes) ks"
    unfolding const_values by (rule chunks_exact_authorities [OF assms]) (simp add: d)
  have delay: "index_range (scheduled_change ks) (1 + length ?n + 40 * length ks)
      (length (scheduled_change ks)) = Inr ?d"
    using length_encode_authorities [OF assms]
    by (simp add: index_range_def scheduled_change_def subarray_def)
  have "check_delay ?d [0..<DELAY_LENGTH] = Inr ()"
    by (simp add: d DELAY_LENGTH_def upt_rec numeral_eq_Suc)
  then show ?thesis
    unfolding check_scheduled_change_def Let_def msg and_then_Inr chunks
      check_authority_chunks_ok [OF assms, of ks 0, simplified] delay
    by (simp add: scheduled_change_def)
qed

end
