(* ===== verification/Circuits.thy ===== *)
theory Circuits
  imports Subchain Rotation
begin

text \<open>
  The two circuits, \<open>circuits/header_range.rs\<close> and \<open>circuits/rotate.rs\<close>, as functions from the
  public inputs and the hinted values to the public outputs, with the end-to-end statements
  that follow from the gadgets.
\<close>

section \<open>Definitions\<close>

text \<open>The values read from and written to the EVM, in their order.\<close>

record HeaderRangeInput =
  hr_trusted_block :: u32
  hr_trusted_header_hash :: bytes
  hr_authority_set_id :: u64
  hr_authority_set_hash :: bytes
  hr_target_block :: u32

record HeaderRangeOutput =
  hr_target_header_hash :: bytes
  hr_state_root_commitment :: bytes
  hr_data_root_commitment :: bytes

definition header_range_circuit ::
  "plonky2x \<Rightarrow> subchain_mapreduce \<Rightarrow> nat \<Rightarrow> nat \<Rightarrow> (u32 list \<Rightarrow> EncodedHeader list) \<Rightarrow>
   JustificationStruct \<Rightarrow> HeaderRangeInput \<Rightarrow> HeaderRangeOutput option"
where
  "header_range_circuit B mapreduce max_authority_set_size max_num_headers headers_hint
     justification evm = do {
     let trusted_block = hr_trusted_block evm;
     let trusted_header_hash = hr_trusted_header_hash evm;
     let authority_set_id = hr_authority_set_id evm;
     let authority_set_hash = hr_authority_set_hash evm;
     let target_block = hr_target_block evm;
     subchain_output \<leftarrow> verify_subchain B mapreduce headers_hint max_num_headers
       trusted_block trusted_header_hash target_block;
     _ \<leftarrow> verify_simple_justification B max_authority_set_size target_block
       (target_header_hash subchain_output) authority_set_id authority_set_hash justification;
     Some \<lparr>hr_target_header_hash = target_header_hash subchain_output,
           hr_state_root_commitment = state_root_merkle_root subchain_output,
           hr_data_root_commitment = data_root_merkle_root subchain_output\<rparr>
   }"

definition rotate_circuit ::
  "plonky2x \<Rightarrow> nat \<Rightarrow> nat \<Rightarrow> RotateStruct \<Rightarrow> JustificationStruct \<Rightarrow> u64 \<Rightarrow> bytes \<Rightarrow> bytes option"
where
  "rotate_circuit B max_authority_set_size max_subarray_size rotate_hint justification
     authority_set_id authority_set_hash = do {
     let rotate_var = rotate_hint;
     new_authority_set_hash \<leftarrow> rotate_set B max_authority_set_size max_subarray_size
       authority_set_id authority_set_hash rotate_var justification;
     Some new_authority_set_hash
   }"

section \<open>Lemmas\<close>

lemma header_range_circuit_iff:
  "header_range_circuit B mr N M hint j evm = Some out \<longleftrightarrow>
    (\<exists>sub. verify_subchain B mr hint M (hr_trusted_block evm) (hr_trusted_header_hash evm)
        (hr_target_block evm) = Some sub \<and>
      verify_simple_justification B N (hr_target_block evm) (target_header_hash sub)
        (hr_authority_set_id evm) (hr_authority_set_hash evm) j = Some () \<and>
      out = \<lparr>hr_target_header_hash = target_header_hash sub,
        hr_state_root_commitment = state_root_merkle_root sub,
        hr_data_root_commitment = data_root_merkle_root sub\<rparr>)"
  by (auto simp: header_range_circuit_def bind_eq_Some_conv Let_def)

text \<open>The preconditions of \<open>supermajority_of_trusted_set\<close>, for a trusted set \<open>auths\<close>.\<close>

definition trusted_set_assumptions ::
  "plonky2x \<Rightarrow> nat \<Rightarrow> JustificationStruct \<Rightarrow> bytes list \<Rightarrow> bool"
where
  "trusted_set_assumptions B N j auths \<longleftrightarrow>
     wf_justification N j \<and> 0 < N \<and> N < 2 ^ 30 \<and>
     unat (js_num_authorities j) \<le> N \<and> auths \<noteq> [] \<and> (\<forall>k \<in> set auths. length k = 32) \<and>
     inj_on (curta_sha256 B)
       (set (chain_inputs (curta_sha256 B) [] (take (unat (js_num_authorities j)) (js_pubkeys j)))
        \<union> set (chain_inputs (curta_sha256 B) [] auths)) \<and>
     (\<forall>i < N. unat (js_num_authorities j) \<le> i \<longrightarrow> \<not> js_validator_signed j ! i)"

text \<open>More than two thirds of \<open>auths\<close> have signed one precommit for the block.\<close>

definition finalized ::
  "(bytes \<Rightarrow> bytes \<Rightarrow> eddsa_signature \<Rightarrow> bool) \<Rightarrow> bytes list \<Rightarrow> eddsa_signature list \<Rightarrow>
   bytes \<Rightarrow> u32 \<Rightarrow> u64 \<Rightarrow> bool"
where
  "finalized ed25519_verify auths sigs block_hash block_number set_id \<longleftrightarrow>
     (\<exists>round. 2 * length auths < 3 * card {i. i < length auths \<and>
        ed25519_verify (auths ! i) (encode_precommit block_hash block_number round set_id) (sigs ! i)})"

context plonky2x_gadgets
begin

lemma justification_finalizes:
  assumes "trusted_set_assumptions B N j auths" and "length block_hash = 32"
    and "verify_simple_justification B N block_number block_hash set_id
      (chain_hash (curta_sha256 B) auths) j = Some ()"
  shows "finalized ed25519_verify auths (js_signatures j) block_hash block_number set_id"
  using supermajority_of_trusted_set [of N j block_hash auths block_number set_id] assms
  unfolding finalized_def trusted_set_assumptions_def by blast

lemma length_header_hash:
  assumes "unat (header_size h) \<le> length (header_bytes h)"
  shows "length (hash_encoded_header B h) = 32"
  using assms by (simp add: hash_encoded_header_def curta_blake2b_variable length_blake2b)

lemma rotate_circuit_accepted:
  assumes "wf_header S (target_header rot)" and "S < 2 ^ 32"
    and "unat (header_size (target_header rot)) \<le> S"
    and "wf_pubkeys N (new_pubkeys rot)"
    and "target_header_num_authorities rot = num" and "num \<le> N"
    and "authority_set_hash = chain_hash (curta_sha256 B) auths"
    and "trusted_set_assumptions B N j auths"
    and "rotate_circuit B N (N * VALIDATOR_LENGTH + DELAY_LENGTH) rot j authority_set_id
      authority_set_hash = Some new_hash"
  shows "finalized ed25519_verify auths (js_signatures j) (hash_encoded_header B (target_header rot))
      (epoch_end_block_number rot) authority_set_id"
    and "\<exists>pos. scheduled_change_at B (header_bytes (target_header rot))
        (next_authority_set_start_position rot) num pos \<and>
      subarray pos (pos + 40 * num) (header_bytes (target_header rot)) =
        encode_authorities (take num (new_pubkeys rot))"
    and "new_hash = chain_hash (curta_sha256 B) (take num (new_pubkeys rot))"
proof -
  have N: "0 < N"
    using assms(8) by (simp add: trusted_set_assumptions_def)
  have "rotate_set B N (40 * N + 4) authority_set_id authority_set_hash rot j = Some new_hash"
    using assms(9) by (simp add: rotate_circuit_def bind_eq_Some_conv const_simps mult.commute)
  note acc = this [unfolded rotate_iff [OF assms(4) N]]
  have "length (hash_encoded_header B (target_header rot)) = 32"
    using assms(1,3) by (intro length_header_hash) (simp add: wf_header_def)
  then show "finalized ed25519_verify auths (js_signatures j) (hash_encoded_header B (target_header rot))
      (epoch_end_block_number rot) authority_set_id"
    using acc assms(7) by (intro justification_finalizes [OF assms(8)]) auto
  show "\<exists>pos. scheduled_change_at B (header_bytes (target_header rot))
        (next_authority_set_start_position rot) num pos \<and>
      subarray pos (pos + 40 * num) (header_bytes (target_header rot)) =
        encode_authorities (take num (new_pubkeys rot))"
    and "new_hash = chain_hash (curta_sha256 B) (take num (new_pubkeys rot))"
    using acc verify_epoch_end_header_iff [OF assms(1,2,4)] assms(5,6) by (auto simp: min_absorb1)
qed

end

context subchain_gadgets
begin

text \<open>
  The headers that decide: one for each block after the trusted one up to the target.
\<close>

lemma header_range_circuit_chain:
  assumes k: "next_power_of_two (max_num_headers div 8) = 2 ^ k"
    and hint: "\<forall>nums. length nums = 8 \<longrightarrow> length (hint nums) = 8"
    and bound: "unat (hr_trusted_block evm) + 1 + 8 * 2 ^ k < 2 ^ 32" and target: "hr_target_block evm \<noteq> 0"
    and ok: "header_range_circuit B mapreduce N max_num_headers hint j evm = Some out"
    and hs: "hs = take (unat (hr_target_block evm) - unat (hr_trusted_block evm)) (hinted hint 0 k)"
  shows "length hs = unat (hr_target_block evm) - unat (hr_trusted_block evm)" and "hs \<noteq> []"
    and "linked B (hr_trusted_header_hash evm) (unat (hr_trusted_block evm) + 1) hs"
    and "hr_target_header_hash out = hash_encoded_header B (last hs)"
    and "verify_simple_justification B N (hr_target_block evm) (hr_target_header_hash out)
      (hr_authority_set_id evm) (hr_authority_set_hash evm) j = Some ()"
    and "hr_state_root_commitment out = padded_root B (3 + k) (map (state_root_of B) hs)"
    and "hr_data_root_commitment out = padded_root B (3 + k) (map (data_root_of B) hs)"
proof -
  obtain sub where sub: "verify_subchain B mapreduce hint max_num_headers
        (hr_trusted_block evm) (hr_trusted_header_hash evm) (hr_target_block evm) = Some sub"
      and just: "verify_simple_justification B N (hr_target_block evm) (target_header_hash sub)
        (hr_authority_set_id evm) (hr_authority_set_hash evm) j = Some ()"
      and out: "out = \<lparr>hr_target_header_hash = target_header_hash sub,
        hr_state_root_commitment = state_root_merkle_root sub,
        hr_data_root_commitment = data_root_merkle_root sub\<rparr>"
    using ok unfolding header_range_circuit_iff by blast
  note s = verify_subchain_accepted [OF k hint [rule_format] bound target sub, folded hs]
  show "hs \<noteq> []"
    using s(1,2) by (auto simp: word_less_nat_alt)
  show "length hs = unat (hr_target_block evm) - unat (hr_trusted_block evm)"
    "linked B (hr_trusted_header_hash evm) (unat (hr_trusted_block evm) + 1) hs"
    "hr_target_header_hash out = hash_encoded_header B (last hs)"
    "hr_state_root_commitment out = padded_root B (3 + k) (map (state_root_of B) hs)"
    "hr_data_root_commitment out = padded_root B (3 + k) (map (data_root_of B) hs)"
    using s out by simp_all
  show "verify_simple_justification B N (hr_target_block evm) (hr_target_header_hash out)
      (hr_authority_set_id evm) (hr_authority_set_hash evm) j = Some ()"
    using just out by simp
qed

text \<open>With a trusted set behind the authority set hash the target is final.\<close>

lemma header_range_circuit_accepted:
  assumes k: "next_power_of_two (max_num_headers div 8) = 2 ^ k"
    and hint: "\<forall>nums. length nums = 8 \<longrightarrow> length (hint nums) = 8"
    and bound: "unat (hr_trusted_block evm) + 1 + 8 * 2 ^ k < 2 ^ 32" and target: "hr_target_block evm \<noteq> 0"
    and set: "hr_authority_set_hash evm = chain_hash (curta_sha256 B) auths" "trusted_set_assumptions B N j auths"
    and ok: "header_range_circuit B mapreduce N max_num_headers hint j evm = Some out"
    and hs: "hs = take (unat (hr_target_block evm) - unat (hr_trusted_block evm)) (hinted hint 0 k)"
    and size: "\<forall>h \<in> set hs. unat (header_size h) \<le> length (header_bytes h)"
  shows "length hs = unat (hr_target_block evm) - unat (hr_trusted_block evm)" and "hs \<noteq> []"
    and "linked B (hr_trusted_header_hash evm) (unat (hr_trusted_block evm) + 1) hs"
    and "hr_target_header_hash out = hash_encoded_header B (last hs)"
    and "finalized ed25519_verify auths (js_signatures j) (hr_target_header_hash out)
      (hr_target_block evm) (hr_authority_set_id evm)"
    and "hr_state_root_commitment out = padded_root B (3 + k) (map (state_root_of B) hs)"
    and "hr_data_root_commitment out = padded_root B (3 + k) (map (data_root_of B) hs)"
proof -
  note s = header_range_circuit_chain [OF k hint bound target ok hs]
  have "length (hr_target_header_hash out) = 32"
    using size last_in_set [OF s(2)] s(4) length_header_hash by simp
  then show "finalized ed25519_verify auths (js_signatures j) (hr_target_header_hash out)
      (hr_target_block evm) (hr_authority_set_id evm)"
    using s(5) set(1) by (intro justification_finalizes [OF set(2)]) simp_all
qed (use header_range_circuit_chain [OF k hint bound target ok hs] in simp_all)

end

lemma demo_trusted_set: "trusted_set_assumptions demo_gadgets 2 demo_justification [replicate 32 7]"
  using demo_justification_wf
  by (simp add: trusted_set_assumptions_def demo_justification_def less_2_cases_iff)

section \<open>Properties\<close>

text \<open>
  C1: when the header range circuit accepts, the returned target hash closes a chain of headers
  that starts at the trusted header hash and has exactly one header for each block after the
  trusted one up to the target, the two commitments are the roots of the padded trees over the
  state and data roots of these headers, and the justification passes its check against the
  authority set hash. More than two thirds of an authority set behind that hash have signed a
  precommit for the target under \<open>trusted_set_assumptions\<close>: the declared number of authorities
  fits the slots, SHA-256 does not collide on the two sets, and the slots behind the declared
  number are not marked as signed. The circuit itself does not check the last of these, and C36
  shows that without it an accepted justification need not have a single signature of the set.
\<close>

theorem header_range_sound:
  assumes "subchain_gadgets B blake2b_256 ed25519_verify mapreduce"
    and "next_power_of_two (max_num_headers div HEADERS_PER_MAP) = 2 ^ k"
    and "\<forall>nums. length nums = HEADERS_PER_MAP \<longrightarrow> length (headers_hint nums) = HEADERS_PER_MAP"
    and "\<forall>nums. \<forall>h \<in> set (headers_hint nums). unat (header_size h) \<le> length (header_bytes h)"
    and "unat (hr_trusted_block evm) + 1 + HEADERS_PER_MAP * 2 ^ k < 2 ^ 32"
    and "hr_target_block evm \<noteq> 0"
    and "header_range_circuit B mapreduce N max_num_headers headers_hint j evm = Some out"
  shows "\<exists>hs. length hs = unat (hr_target_block evm) - unat (hr_trusted_block evm) \<and> hs \<noteq> [] \<and>
    hs = take (length hs) (hinted headers_hint 0 k) \<and>
    linked B (hr_trusted_header_hash evm) (unat (hr_trusted_block evm) + 1) hs \<and>
    hr_target_header_hash out = hash_encoded_header B (last hs) \<and>
    hr_state_root_commitment out = padded_root B (3 + k) (map (state_root_of B) hs) \<and>
    hr_data_root_commitment out = padded_root B (3 + k) (map (data_root_of B) hs) \<and>
    verify_simple_justification B N (hr_target_block evm) (hr_target_header_hash out)
      (hr_authority_set_id evm) (hr_authority_set_hash evm) j = Some () \<and>
    (\<forall>auths. hr_authority_set_hash evm = chain_hash (curta_sha256 B) auths \<and>
       trusted_set_assumptions B N j auths \<longrightarrow>
       finalized ed25519_verify auths (js_signatures j) (hr_target_header_hash out)
         (hr_target_block evm) (hr_authority_set_id evm))"
proof -
  define hs where "hs = take (unat (hr_target_block evm) - unat (hr_trusted_block evm))
    (hinted headers_hint 0 k)"
  have k: "next_power_of_two (max_num_headers div 8) = 2 ^ k"
    and hint: "\<forall>nums. length nums = 8 \<longrightarrow> length (headers_hint nums) = 8"
    and bound: "unat (hr_trusted_block evm) + 1 + 8 * 2 ^ k < 2 ^ 32"
    using assms(2,3,5) by (simp_all add: HEADERS_PER_MAP_def)
  have "set (hinted headers_hint r i) \<subseteq> (\<Union>nums. set (headers_hint nums))" for r i
    by (induction i arbitrary: r) auto
  then have size: "\<forall>h \<in> set hs. unat (header_size h) \<le> length (header_bytes h)"
    using assms(4) by (fastforce simp: hs_def dest!: in_set_takeD)
  note s = subchain_gadgets.header_range_circuit_chain [OF assms(1) k hint bound assms(6,7) hs_def]
  note f = subchain_gadgets.header_range_circuit_accepted(5)
    [OF assms(1) k hint bound assms(6) _ _ assms(7) hs_def size]
  have "hs = take (length hs) (hinted headers_hint 0 k)"
    by (simp add: hs_def min_def)
  with s f show ?thesis
    by (intro exI [of _ hs]) blast
qed

lemma demo_header_range:
  "header_range_circuit demo_gadgets ref_mapreduce 2 8 (honest_headers 100 demo_header 3 5)
    demo_justification
    \<lparr>hr_trusted_block = 3, hr_trusted_header_hash = zero32, hr_authority_set_id = 9,
     hr_authority_set_hash = chain_hash (curta_sha256 demo_gadgets) [replicate 32 7],
     hr_target_block = 5\<rparr> =
   Some \<lparr>hr_target_header_hash = zero32,
     hr_state_root_commitment = padded_root demo_gadgets 3 [zero32, zero32],
     hr_data_root_commitment = padded_root demo_gadgets 3 [zero32, zero32]\<rparr>"
  unfolding header_range_circuit_iff using demo_subchain demo_justification_accepted by simp

theorem header_range_sound_witness:
  "\<exists>hs. length hs = unat (5 :: u32) - unat (3 :: u32) \<and> linked demo_gadgets zero32 (unat (3 :: u32) + 1) hs \<and>
     finalized demo_verify [replicate 32 7] (js_signatures demo_justification) zero32 5 9"
proof -
  have "\<forall>nums. length nums = HEADERS_PER_MAP \<longrightarrow>
      length (honest_headers 100 demo_header 3 5 nums) = HEADERS_PER_MAP"
    and "\<forall>nums. \<forall>h \<in> set (honest_headers 100 demo_header 3 5 nums).
      unat (header_size h) \<le> length (header_bytes h)"
    by (auto simp: honest_headers_def demo_header_def empty_header_def)
  from header_range_sound [OF demo_subchain_gadgets demo_range_jobs this _ _ demo_header_range]
  show ?thesis using demo_trusted_set by (auto simp: HEADERS_PER_MAP_def)
qed

text \<open>
  C2: when the rotate circuit accepts with at most \<open>N\<close> declared new authorities, the
  justification passes its check for the hash of the target header at the epoch end block, and
  the new authority set hash is the chained hash of exactly the keys that a scheduled change in
  the header array lists. The array may be longer than the header: a change that ends within the
  first \<open>header_size\<close> bytes stands in the bytes the hash covers, and one behind them does not
  (C37). More than two thirds of an authority set behind the trusted hash have signed a precommit
  for the header under \<open>trusted_set_assumptions\<close>, which contain that no slot behind the declared
  number of authorities is marked as signed (C36 shows that this is needed).
\<close>

theorem rotate_circuit_sound:
  assumes "plonky2x_gadgets B blake2b_256 ed25519_verify"
    and "wf_header S (target_header rot)" and "S < 2 ^ 32"
    and "unat (header_size (target_header rot)) \<le> S"
    and "wf_pubkeys N (new_pubkeys rot)" and "0 < N"
    and "target_header_num_authorities rot = num" and "num \<le> N"
    and "rotate_circuit B N (N * VALIDATOR_LENGTH + DELAY_LENGTH) rot j authority_set_id
      authority_set_hash = Some new_hash"
  shows "verify_simple_justification B N (epoch_end_block_number rot)
      (hash_encoded_header B (target_header rot)) authority_set_id authority_set_hash j = Some () \<and>
    (\<forall>auths. authority_set_hash = chain_hash (curta_sha256 B) auths \<and>
       trusted_set_assumptions B N j auths \<longrightarrow>
       finalized ed25519_verify auths (js_signatures j) (hash_encoded_header B (target_header rot))
         (epoch_end_block_number rot) authority_set_id) \<and>
    hash_encoded_header B (target_header rot) =
      blake2b_256 (take (unat (header_size (target_header rot))) (header_bytes (target_header rot))) \<and>
    (\<exists>pos. reads_change B (header_bytes (target_header rot))
        (next_authority_set_start_position rot) num (take num (new_pubkeys rot)) pos \<and>
      (pos + 40 * num + 4 \<le> unat (header_size (target_header rot)) \<longrightarrow>
       reads_change B (take (unat (header_size (target_header rot))) (header_bytes (target_header rot)))
         (next_authority_set_start_position rot) num (take num (new_pubkeys rot)) pos)) \<and>
    new_hash = chain_hash (curta_sha256 B) (take num (new_pubkeys rot))"
proof -
  have set: "rotate_set B N (N * VALIDATOR_LENGTH + DELAY_LENGTH) authority_set_id authority_set_hash
      rot j = Some new_hash"
    using assms(9) by (simp add: rotate_circuit_def)
  have hash: "hash_encoded_header B (target_header rot) =
      blake2b_256 (take (unat (header_size (target_header rot))) (header_bytes (target_header rot)))"
    using assms(2,4) by (simp add: hash_encoded_header_def wf_header_def
        plonky2x_gadgets.curta_blake2b_variable [OF assms(1)])
  have "length (hash_encoded_header B (target_header rot)) = 32"
    using assms(2,4) by (intro plonky2x_gadgets.length_header_hash [OF assms(1)]) (simp add: wf_header_def)
  note final = plonky2x_gadgets.justification_finalizes [OF assms(1) _ this]
  show ?thesis
    using plonky2x_gadgets.rotate_accepted [OF assms(1-3,5-8) set] assms(4) final hash by blast
qed

lemma demo_rotate_circuit:
  "rotate_circuit demo_gadgets 2 (2 * VALIDATOR_LENGTH + DELAY_LENGTH) demo_rotate demo_justification 9
     (chain_hash (curta_sha256 demo_gadgets) [replicate 32 7]) =
   Some (chain_hash (curta_sha256 demo_gadgets) [replicate 32 8])"
  using demo_rotate_accepted by (simp add: rotate_circuit_def const_simps)

theorem rotate_circuit_sound_witness:
  "finalized demo_verify [replicate 32 7] (js_signatures demo_justification) zero32 5 9 \<and>
   reads_change demo_gadgets (take 85 demo_epoch_end_bytes) 32 1 [replicate 32 8] 41"
proof -
  have "wf_header 165 (target_header demo_rotate)" and "(165 :: nat) < 2 ^ 32"
    and "unat (header_size (target_header demo_rotate)) \<le> 165"
    and "wf_pubkeys 2 (new_pubkeys demo_rotate)" and "(0 :: nat) < 2"
    and "target_header_num_authorities demo_rotate = 1" and "(1 :: nat) \<le> 2"
    using length_demo_epoch_end_bytes demo_pubkeys_wf by (simp_all add: demo_rotate_def wf_header_def)
  from rotate_circuit_sound [OF demo_gadgets this demo_rotate_circuit]
  obtain pos where "reads_change demo_gadgets demo_epoch_end_bytes 32 1 [replicate 32 8] pos"
    and "pos \<le> 41 \<longrightarrow> reads_change demo_gadgets (take 85 demo_epoch_end_bytes) 32 1 [replicate 32 8] pos"
    and "finalized demo_verify [replicate 32 7] (js_signatures demo_justification) zero32 5 9"
    using hash_demo_epoch_end [of 85] demo_trusted_set by (auto simp: demo_rotate_def)
  with demo_change_position show ?thesis
    by blast
qed

end
