(* ===== verification/Prover.thy ===== *)
theory Prover
  imports Rotate_Data Circuits
begin

text \<open>
  The honest prover: the hints of the circuits, run against a node that serves a chain, supply
  values that the constraints accept. The locale \<open>chain_prover\<close> brings the contracts of the
  node, the crates and the gadgets together, and states that both sides compute the same hashes
  and that the node's headers form a chain.
\<close>

section \<open>Definitions\<close>

text \<open>The headers that the hint of a map job supplies for the relative block numbers of the job.\<close>

definition fetched_headers ::
  "crates \<Rightarrow> avail_node \<Rightarrow> plonky2x \<Rightarrow> nat \<Rightarrow> SubchainVerificationCtx \<Rightarrow> u32 list \<Rightarrow> EncodedHeader list"
where
  "fetched_headers C N B max_header_size map_ctx map_relative_block_nums =
     (let batch_start_block = u32_add B (global_start_block map_ctx) (map_relative_block_nums ! 0);
          batch_end_block = u32_add B (global_start_block map_ctx)
            (map_relative_block_nums ! (HEADERS_PER_MAP - 1)) in
      case header_range_hint C N max_header_size HEADERS_PER_MAP batch_start_block batch_end_block
        (global_end_block map_ctx) of
        Inr headers \<Rightarrow> headers
      | Inl _ \<Rightarrow> [])"

text \<open>The padded encoding of a header.\<close>

definition encoded_header :: "crates \<Rightarrow> nat \<Rightarrow> avail_header \<Rightarrow> EncodedHeader" where
  "encoded_header C S h =
     \<lparr>header_bytes = encode_header C h @ replicate (S - length (encode_header C h)) 0,
      header_size = of_nat (length (encode_header C h))\<rparr>"

lemma header_variable_ok:
  "length (encode_header C h) \<le> S \<Longrightarrow> header_variable C S h = Inr (encoded_header C S h)"
  by (simp add: header_variable_def encoded_header_def Let_def)

lemma batch_tree_cong:
  assumes "\<And>r'. r \<le> r' \<Longrightarrow> r' + 8 \<le> r + 8 * 2 ^ k \<Longrightarrow> f (relative_nums r' 0) = f' (relative_nums r' 0)"
  shows "batch_tree 8 f g k (relative_nums r k) = batch_tree 8 f' g k (relative_nums r k)"
  using assms
proof (induction k arbitrary: r)
  case 0
  then show ?case by simp
next
  case (Suc k)
  have "batch_tree 8 f g k (relative_nums r k) = batch_tree 8 f' g k (relative_nums r k)"
    and "batch_tree 8 f g k (relative_nums (r + 8 * 2 ^ k) k) =
      batch_tree 8 f' g k (relative_nums (r + 8 * 2 ^ k) k)"
    by (intro Suc; simp)+
  then show ?case
    by (simp add: relative_nums_Suc)
qed

section \<open>Finality proofs\<close>

text \<open>The node has a finality proof for block \<open>f\<close> that decodes to the justification.\<close>

definition proves_finality :: "crates \<Rightarrow> avail_node \<Rightarrow> nat \<Rightarrow> GrandpaJustification \<Rightarrow> bool" where
  "proves_finality C N f justification \<longleftrightarrow>
     (\<exists>enc pr. grandpa_proveFinality N (of_nat f) = Some enc \<and>
        decode_finality_proof C enc = Some pr \<and>
        decode_grandpa_justification C (fp_justification pr) = Some justification)"

text \<open>All precommits are signed, and the first one, which stands for all, is for the block.\<close>

definition signed_precommits ::
  "crates \<Rightarrow> bytes \<Rightarrow> u32 \<Rightarrow> u64 \<Rightarrow> GrandpaJustification \<Rightarrow> bool"
where
  "signed_precommits C block_hash block_number set_id justification \<longleftrightarrow>
     precommits (commit justification) \<noteq> [] \<and>
     precommit (hd (precommits (commit justification))) =
       \<lparr>target_hash = block_hash, target_number = block_number\<rparr> \<and>
     (\<forall>p \<in> set (precommits (commit justification)).
        verifying_key C (signer_id p) \<and> length (signature p) = 64 \<and>
        ed25519_check C (signer_id p)
          (encode_precommit block_hash block_number (round justification) set_id) (signature p))"

definition num_signers :: "GrandpaJustification \<Rightarrow> bytes list \<Rightarrow> nat" where
  "num_signers justification keys =
     length (filter (\<lambda>k. k \<in> signer_id ` set (precommits (commit justification))) keys)"

text \<open>The map from keys to signatures that the host builds of a justification.\<close>

definition votes :: "GrandpaJustification \<Rightarrow> bytes \<Rightarrow> bytes option" where
  "votes justification = map_of (rev (map (\<lambda>p. (signer_id p, signature p)) (precommits (commit justification))))"

lemma votes_dom: "votes justification k \<noteq> None \<longleftrightarrow> k \<in> signer_id ` set (precommits (commit justification))"
  using map_of_eq_None_iff [of "rev (map (\<lambda>p. (signer_id p, signature p)) (precommits (commit justification)))" k]
  by (auto simp: votes_def image_iff)

lemma votes_SomeD:
  "votes justification k = Some x \<Longrightarrow>
     \<exists>p \<in> set (precommits (commit justification)). signer_id p = k \<and> signature p = x"
  using map_of_SomeD [of "rev (map (\<lambda>p. (signer_id p, signature p)) (precommits (commit justification)))" k x]
  by (auto simp: votes_def)

text \<open>A justification for the block by more than two thirds of the given keys, in \<open>M\<close> slots.\<close>

definition supermajority ::
  "nat \<Rightarrow> JustificationStruct \<Rightarrow> bytes \<Rightarrow> u32 \<Rightarrow> u64 \<Rightarrow> bytes list \<Rightarrow> bool"
where
  "supermajority M j block_hash block_number set_id keys \<longleftrightarrow>
     length (js_validator_signed j) = M \<and> 0 < M \<and> M < 2 ^ 30 \<and>
     (\<exists>rnd. js_encoded_precommit j = encode_precommit block_hash block_number rnd set_id) \<and>
     keys \<noteq> [] \<and> take (unat (js_num_authorities j)) (js_pubkeys j) = keys \<and>
     2 * unat (js_num_authorities j) < 3 * length (filter id (js_validator_signed j))"

text \<open>
  What the prover needs to have for a target \<open>b\<close>: at the end of an epoch a finality proof that
  more than two thirds of the set have signed, and inside an epoch a stored justification whose
  marked slots are valid signatures of more than two thirds.
\<close>

definition finality_proof_served ::
  "crates \<Rightarrow> avail_node \<Rightarrow> (nat \<Rightarrow> nat) \<Rightarrow> nat \<Rightarrow> bytes \<Rightarrow> bytes list \<Rightarrow> nat \<Rightarrow> nat \<Rightarrow> bool"
where
  "finality_proof_served C N sid head hash A t b \<longleftrightarrow> epoch_end sid head t b \<and>
     (\<exists>just. proves_finality C N b just \<and> signed_precommits C hash (of_nat b) (of_nat t) just \<and>
        2 * length A < 3 * num_signers just A)"

definition justification_stored ::
  "crates \<Rightarrow> ('db, 'j) redis \<Rightarrow> string \<Rightarrow> 'db \<Rightarrow> (nat \<Rightarrow> nat) \<Rightarrow> bytes \<Rightarrow> bytes list \<Rightarrow> nat \<Rightarrow> nat \<Rightarrow> bool"
where
  "justification_stored C R chain db sid hash A t b \<longleftrightarrow> sid b = t \<and>
     (\<exists>stored rnd signed. get_justification R chain (of_nat b) db = Inr stored \<and>
        sj_signed_message stored = encode_precommit hash (of_nat b) rnd (of_nat t) \<and>
        sj_pubkeys stored = A \<and> sj_num_authorities stored = length A \<and>
        sj_validator_signed stored = map signed A \<and> 2 * length A < 3 * length (filter signed A) \<and>
        length (sj_signatures stored) = length A \<and> (\<forall>s \<in> set (sj_signatures stored). length s = 64) \<and>
        (\<forall>i < length A. signed (A ! i) \<longrightarrow> verifying_key C (A ! i) \<and>
           ed25519_check C (A ! i) (sj_signed_message stored) (sj_signatures stored ! i)))"

lemma count_signed_ok:
  "unat w + length (filter id flags) < 2 ^ 64 \<Longrightarrow> \<exists>w'. count_signed flags w = Inr w'"
proof (induction flags arbitrary: w)
  case Nil
  then show ?case by simp
next
  case (Cons b flags)
  show ?case
  proof (cases b)
    case True
    then have add: "checked_add w 1 = Inr (w + 1)"
      using Cons.prems by (intro checked_add_ok) (simp add: id_def)
    then have "unat (w + 1) + length (filter id flags) < 2 ^ 64"
      using checked_add_Inr(1) [OF add] Cons.prems True by (simp add: id_def)
    from Cons.IH [OF this] show ?thesis using True add by simp
  next
    case False
    then show ?thesis using Cons by (simp add: id_def)
  qed
qed

section \<open>The contract of chain, crates and gadgets together\<close>

locale chain_prover =
  avail_chain N head bh hdr sid auths + host_crates C +
  subchain_gadgets B blake2b_256 ed25519_verify mapreduce
  for N head bh hdr sid auths C B blake2b_256 ed25519_verify mapreduce +
  assumes same_sha256: "sha256 C = curta_sha256 B"
    and same_blake2b: "blake2_256 C = blake2b_256"
    and same_ed25519:
      "length sig = 64 \<Longrightarrow> ed25519_check C key msg sig \<Longrightarrow> ed25519_verify key msg (split_signature sig)"
    and header_hash: "n \<le> head \<Longrightarrow> bh n = blake2b_256 (encode_header C (hdr n))"
    and parent_hash: "n < head \<Longrightarrow> h_parent_hash (hdr (Suc n)) = bh n"
    and header_wf: "n \<le> head \<Longrightarrow> wf_avail_header (hdr n)"
begin

lemma length_bh: "n \<le> head \<Longrightarrow> length (bh n) = 32"
  by (simp add: header_hash length_blake2b)

lemma hash_encoded:
  assumes "n \<le> head" and "length (encode_header C (hdr n)) \<le> S" and "S < 2 ^ 32"
  shows "hash_encoded_header B (encoded_header C S (hdr n)) = bh n"
proof -
  have "unat (of_nat (length (encode_header C (hdr n))) :: u32) = length (encode_header C (hdr n))"
    using assms by (intro unat_of_nat_small) simp
  then show ?thesis
    using hash_encoded_header_padded [of "encoded_header C S (hdr n)" "encode_header C (hdr n)"
        "replicate (S - length (encode_header C (hdr n))) 0"] assms
    by (simp add: encoded_header_def header_hash)
qed

text \<open>A header with the bytes of block \<open>n\<close>, whatever follows them.\<close>

lemma header_of_block:
  assumes n: "n \<le> head" and h: "header_bytes h = encode_header C (hdr n) @ padding"
    "unat (header_size h) = length (encode_header C (hdr n))"
  shows "header_of B h = Some \<lparr>hv_block_number = of_nat n,
    hv_parent_hash = h_parent_hash (hdr n), hv_state_root = h_state_root (hdr n),
    hv_data_root = h_data_root (hdr n)\<rparr>"
proof -
  let ?h = "hdr n" and ?e = "encode_header C (hdr n)"
  define ext where "ext = take (length (h_extension ?h) - 32) (h_extension ?h)"
  define mid where "mid = h_extrinsics_root ?h @ scale_compact (of_nat (length (h_logs ?h))) @
    concat (map (encode_log C) (h_logs ?h)) @ ext"
  have wf: "wf_avail_header ?h"
    using header_wf n by simp
  then have "h_extension ?h = ext @ h_data_root ?h"
    by (metis append_take_drop_id ext_def wf_avail_header_def)
  then have e: "?e = h_parent_hash ?h @ scale_compact (of_nat n) @ h_state_root ?h @ mid @ h_data_root ?h"
    using block_number [OF n] by (simp add: encode_header mid_def)
  have "unat (header_size h) = 32 + compact_length (of_nat n) + 32 + length mid + 32"
    using wf h(2) by (simp add: e wf_avail_header_def length_scale_compact)
  then show ?thesis
    unfolding header_of_def
    using wf h(1) by (intro decode_header_layout [where mid = mid and padding = padding])
      (simp_all add: e wf_avail_header_def)
qed

lemma header_of_encoded:
  assumes "n \<le> head" and "length (encode_header C (hdr n)) \<le> S" "S < 2 ^ 32"
  shows "header_of B (encoded_header C S (hdr n)) = Some \<lparr>hv_block_number = of_nat n,
    hv_parent_hash = h_parent_hash (hdr n), hv_state_root = h_state_root (hdr n),
    hv_data_root = h_data_root (hdr n)\<rparr>"
  using assms by (intro header_of_block) (simp_all add: encoded_header_def unat_of_nat_small)

text \<open>The blocks after \<open>a\<close> up to \<open>b\<close>, encoded, form a linked chain.\<close>

abbreviation encoded_blocks :: "nat \<Rightarrow> nat \<Rightarrow> nat \<Rightarrow> EncodedHeader list" where
  "encoded_blocks S a b \<equiv> map (\<lambda>n. encoded_header C S (hdr n)) [a + 1..<b + 1]"

lemma encoded_blocks_linked:
  assumes b: "b \<le> head" and S: "\<And>n. n \<le> b \<Longrightarrow> length (encode_header C (hdr n)) \<le> S" "S < 2 ^ 32"
  shows "linked B (bh a) (a + 1) (encoded_blocks S a b)"
  unfolding linked_iff_nth
proof (intro allI impI)
  fix i assume i: "i < length (encoded_blocks S a b)"
  let ?n = "a + 1 + i"
  have n: "?n \<le> b" "?n \<le> head" "?n - 1 < head"
    using i b by (auto simp del: upt_Suc)
  have nth: "encoded_blocks S a b ! i = encoded_header C S (hdr ?n)"
    using i by (simp add: nth_map del: upt_Suc)
  have un: "unat (of_nat ?n :: u32) = ?n"
    using n head_bound by (intro unat_of_nat_small) simp
  have parent: "h_parent_hash (hdr ?n) = bh (a + i)"
    using parent_hash [OF n(3)] by simp
  have prev: "hash_encoded_header B (encoded_blocks S a b ! (i - 1)) = bh (a + i)" if "i \<noteq> 0"
  proof -
    have "encoded_blocks S a b ! (i - 1) = encoded_header C S (hdr (a + i))"
      using i that by (simp add: nth_map del: upt_Suc)
    then show ?thesis
      using hash_encoded [of "a + i" S] n S by simp
  qed
  show "\<exists>v. header_of B (encoded_blocks S a b ! i) = Some v \<and> unat (hv_block_number v) = a + 1 + i \<and>
      hv_parent_hash v = (if i = 0 then bh a else hash_encoded_header B (encoded_blocks S a b ! (i - 1)))"
    unfolding nth using header_of_encoded [OF n(2) S(1) [OF n(1)] S(2)] un parent prev by simp
qed

lemma encoded_blocks_roots:
  assumes "b \<le> head" and "\<And>n. n \<le> b \<Longrightarrow> length (encode_header C (hdr n)) \<le> S" "S < 2 ^ 32"
  shows "map (state_root_of B) (encoded_blocks S a b) = map (\<lambda>n. h_state_root (hdr n)) [a + 1..<b + 1]"
    and "map (data_root_of B) (encoded_blocks S a b) = map (\<lambda>n. h_data_root (hdr n)) [a + 1..<b + 1]"
  using assms header_of_encoded by (auto simp: state_root_of_def data_root_of_def less_Suc_eq_le)

text \<open>The hint of a job is what the honest prover supplies.\<close>

lemma header_variables_ok:
  assumes "\<And>n. n \<in> set ns \<Longrightarrow> length (encode_header C (hdr n)) \<le> S"
  shows "traverse (header_variable C S) (map hdr ns) = Inr (map (encoded_header C S) (map hdr ns))"
  using assms by (intro traverse_Inr) (auto simp: header_variable_ok)

lemma header_range_hint_ok:
  assumes T: "T \<le> head" and S: "\<And>n. n \<le> T \<Longrightarrow> length (encode_header C (hdr n)) \<le> S"
    and g: "g + r + 8 < 2 ^ 32"
  shows "header_range_hint C N S 8 (of_nat (g + r + 1)) (of_nat (g + r + 8)) (of_nat T) =
    Inr (honest_headers S (\<lambda>n. encoded_header C S (hdr n)) g T (relative_nums r 0))"
proof -
  define e where "e = min (g + r + 8) T"
  have small: "unat (of_nat n :: u32) = n" if "n < 2 ^ 32" for n
    using that by (intro unat_of_nat_small) simp
  have T32: "T < 2 ^ 32"
    using T head_bound by simp
  have m: "min (of_nat (g + r + 8)) (of_nat T) = (of_nat e :: u32)"
    using small [OF g] small [OF T32] by (auto simp: min_def e_def word_le_nat_alt simp del: of_nat_add)
  have le: "(of_nat (g + r + 1) :: u32) \<le> of_nat e \<longleftrightarrow> g + r + 1 \<le> e"
    using g T32 small [of "g + r + 1"] small [of e] by (simp add: word_le_nat_alt e_def del: of_nat_add)
  have headers: "(if (of_nat (g + r + 1) :: u32) \<le> of_nat e
      then get_block_headers_range N (of_nat (g + r + 1)) (of_nat e) else Inr []) =
      Inr (map hdr [g + r + 1..<e + 1])"
  proof (cases "g + r + 1 \<le> e")
    case True
    then show ?thesis
      using get_block_headers_range_ok [of e "g + r + 1"] T le by (simp only: if_True) (simp add: e_def)
  next
    case False
    then show ?thesis
      unfolding le by simp
  qed
  have vars: "traverse (header_variable C S) (map hdr [g + r + 1..<e + 1]) =
      Inr (map (encoded_header C S) (map hdr [g + r + 1..<e + 1]))"
    using S by (intro header_variables_ok) (auto simp: e_def simp del: upt_Suc)
  have nums: "unat (of_nat (r + 1 + i) :: u32) = r + 1 + i" if "i < 8" for i
    using that g by (intro small) simp
  have "honest_headers S (\<lambda>n. encoded_header C S (hdr n)) g T (relative_nums r 0) =
      map (encoded_header C S) (map hdr [g + r + 1..<e + 1]) @
      replicate (8 - length [g + r + 1..<e + 1]) (empty_header S)"
    by (rule nth_equalityI)
      (use nums in \<open>auto simp: honest_headers_def relative_nums_def nth_append e_def add.assoc
        simp del: upt_Suc of_nat_add\<close>)
  then show ?thesis
    unfolding header_range_hint_def Let_def m headers and_then_Inr vars by simp
qed

lemma fetched_headers_ok:
  assumes "T \<le> head" and "\<And>n. n \<le> T \<Longrightarrow> length (encode_header C (hdr n)) \<le> S" and g: "g + r + 8 < 2 ^ 32"
  shows "fetched_headers C N B S \<lparr>global_start_block = of_nat g, global_end_block = of_nat T\<rparr>
      (relative_nums r 0) =
    honest_headers S (\<lambda>n. encoded_header C S (hdr n)) g T (relative_nums r 0)"
proof -
  have small: "unat (of_nat n :: u32) = n" if "n \<le> g + r + 8" for n
    using that g by (intro unat_of_nat_small) simp
  have add: "u32_add B (of_nat g) (of_nat n) = of_nat (g + n)" if "n \<le> r + 8" for n
    using that g small [of n] small [of g] by (subst u32_add_exact) simp_all
  have "relative_nums r 0 ! 0 = of_nat (r + 1)" "relative_nums r 0 ! 7 = of_nat (r + 8)"
    by (simp_all add: relative_nums_def nth_map add.commute del: upt_Suc of_nat_add)
  then show ?thesis
    using header_range_hint_ok [OF assms] add [of "r + 1"] add [of "r + 8"]
    by (simp add: fetched_headers_def HEADERS_PER_MAP_def add.assoc del: of_nat_add)
qed

lemma length_encode_header: "n \<le> head \<Longrightarrow> 69 \<le> length (encode_header C (hdr n))"
  using header_wf [of n] by (simp add: encode_header wf_avail_header_def)

text \<open>The subchain of the encoded blocks, and the one the hint supplies.\<close>

lemma verify_subchain_blocks:
  assumes k: "next_power_of_two (M div 8) = 2 ^ k" and bound: "a + 1 + 8 * 2 ^ k < 2 ^ 32"
    and range: "a < b" "b \<le> head" "b \<le> a + 8 * 2 ^ k"
    and S: "\<And>n. n \<le> b \<Longrightarrow> length (encode_header C (hdr n)) \<le> S" "S < 2 ^ 32"
  shows "verify_subchain B mapreduce (honest_headers S (\<lambda>n. encoded_header C S (hdr n)) a b) M
      (of_nat a) (bh a) (of_nat b) =
    Some \<lparr>target_header_hash = bh b,
      state_root_merkle_root = padded_root B (3 + k) (map (\<lambda>n. h_state_root (hdr n)) [a + 1..<b + 1]),
      data_root_merkle_root = padded_root B (3 + k) (map (\<lambda>n. h_data_root (hdr n)) [a + 1..<b + 1])\<rparr>"
proof -
  let ?H = "\<lambda>n. encoded_header C S (hdr n)"
  have un: "unat (of_nat a :: u32) = a" "unat (of_nat b :: u32) = b"
    using range head_bound by (auto intro!: unat_of_nat_small)
  have "verify_subchain B mapreduce (honest_headers S ?H a b) M (of_nat a) (bh a) (of_nat b) =
      Some \<lparr>target_header_hash = hash_encoded_header B (?H b),
      state_root_merkle_root = padded_root B (3 + k) (map (state_root_of B) (encoded_blocks S a b)),
      data_root_merkle_root = padded_root B (3 + k) (map (data_root_of B) (encoded_blocks S a b))\<rparr>"
    using verify_subchain_honest [OF k, of "of_nat a" S "of_nat b" "bh a" ?H, unfolded un] bound range
      encoded_blocks_linked [OF range(2) S, of a] length_encode_header [of b] S(1) [of b]
    by (simp add: word_less_nat_alt un del: upt_Suc)
  also have "hash_encoded_header B (?H b) = bh b"
    using range S by (intro hash_encoded) auto
  also note encoded_blocks_roots(1) [OF range(2) S, of a]
  also note encoded_blocks_roots(2) [OF range(2) S, of a]
  finally show ?thesis .
qed

lemma verify_subchain_fetched:
  assumes k: "next_power_of_two (M div 8) = 2 ^ k" and bound: "a + 1 + 8 * 2 ^ k < 2 ^ 32"
    and range: "a < b" "b \<le> head" "b \<le> a + 8 * 2 ^ k"
    and S: "\<And>n. n \<le> b \<Longrightarrow> length (encode_header C (hdr n)) \<le> S" "S < 2 ^ 32"
  shows "verify_subchain B mapreduce
      (fetched_headers C N B S \<lparr>global_start_block = of_nat a, global_end_block = of_nat b\<rparr>) M
      (of_nat a) (bh a) (of_nat b) =
    Some \<lparr>target_header_hash = bh b,
      state_root_merkle_root = padded_root B (3 + k) (map (\<lambda>n. h_state_root (hdr n)) [a + 1..<b + 1]),
      data_root_merkle_root = padded_root B (3 + k) (map (\<lambda>n. h_data_root (hdr n)) [a + 1..<b + 1])\<rparr>"
proof -
  let ?H = "\<lambda>n. encoded_header C S (hdr n)"
  have "fetched_headers C N B S \<lparr>global_start_block = of_nat a, global_end_block = of_nat b\<rparr>
        (relative_nums r 0) = honest_headers S ?H a b (relative_nums r 0)"
    if "r + 8 \<le> 8 * 2 ^ k" for r
    using that bound by (intro fetched_headers_ok [OF range(2) S(1)]) auto
  then have "verify_subchain B mapreduce
      (fetched_headers C N B S \<lparr>global_start_block = of_nat a, global_end_block = of_nat b\<rparr>) M
      (of_nat a) (bh a) (of_nat b) =
      verify_subchain B mapreduce (honest_headers S ?H a b) M (of_nat a) (bh a) (of_nat b)"
    unfolding verify_subchain_tree [OF k]
    by (intro arg_cong2 [where f = Option.bind] batch_tree_cong) simp_all
  then show ?thesis
    using verify_subchain_blocks [OF k bound range S] by simp
qed

text \<open>A justification from the hint is accepted when it speaks of the block and has the votes.\<close>

lemma hint_accepted:
  assumes hint: "HintSimpleJustification C N R chain db M n set_id = Inr j"
    and M: "length (js_validator_signed j) = M" "0 < M" "M < 2 ^ 30"
    and msg: "js_encoded_precommit j = encode_precommit hash n rnd set_id" "length hash = 32"
    and num: "js_num_authorities j \<noteq> 0"
  shows "verify_simple_justification B M n hash set_id
      (chain_hash (curta_sha256 B) (take (unat (js_num_authorities j)) (js_pubkeys j))) j = Some () \<longleftrightarrow>
    2 * unat (js_num_authorities j) < 3 * length (filter id (js_validator_signed j))"
proof (rule HintSimpleJustification_Inr [OF hint M(1)])
  show "M < 2 ^ 32"
    using M by simp
next
  fix sigs
  assume j: "wf_justification M j" "unat (js_num_authorities j) \<le> M"
    and sigs: "length sigs = M" "js_signatures j = map split_signature sigs"
    and ok: "\<forall>i < M. length (sigs ! i) = 64 \<and> (js_validator_signed j ! i \<longrightarrow>
      ed25519_check C (js_pubkeys j ! i) (js_encoded_precommit j) (sigs ! i))"
  have "unat (js_num_authorities j) < 2 ^ 31"
    using j(2) M(3) by simp
  note acc = verify_simple_justification_iff [OF j(1) M(2,3) this msg(2)]
  have "\<forall>i < M. js_validator_signed j ! i \<longrightarrow>
      ed25519_verify (js_pubkeys j ! i) (js_encoded_precommit j) (js_signatures j ! i)"
    using ok sigs same_ed25519 by simp
  then show ?thesis
    unfolding acc using num msg(1) by auto
qed

lemma vote_signatures:
  assumes "\<forall>p \<in> set (precommits (commit just)). verifying_key C (signer_id p) \<and> length (signature p) = 64 \<and>
      ed25519_check C (signer_id p) msg (signature p)"
  defines "sigs \<equiv> \<lambda>A. map (\<lambda>k. case votes just k of Some x \<Rightarrow> x | None \<Rightarrow> DUMMY_SIGNATURE C) A"
  shows "length (sigs A) = length A" and "\<forall>s \<in> set (sigs A). length s = 64"
    and "\<forall>i < length A. votes just (A ! i) \<noteq> None \<longrightarrow>
      verifying_key C (A ! i) \<and> ed25519_check C (A ! i) msg (sigs A ! i)"
proof -
  have ran: "length x = 64 \<and> verifying_key C k \<and> ed25519_check C k msg x" if "votes just k = Some x" for k x
    using votes_SomeD [OF that] assms(1) by auto
  then show "length (sigs A) = length A" "\<forall>s \<in> set (sigs A). length s = 64"
      "\<forall>i < length A. votes just (A ! i) \<noteq> None \<longrightarrow>
        verifying_key C (A ! i) \<and> ed25519_check C (A ! i) msg (sigs A ! i)"
    using length_dummy by (auto simp: sigs_def split: option.splits)
qed

lemma finality_proof_data_ok:
  assumes "0 < f" "f \<le> head" and served: "proves_finality C N f just"
    and signed: "signed_precommits C (bh f) (of_nat f) (of_nat (sid (f - 1))) just"
    and A: "A = auths (f - 1)" "length A \<le> M" "M < 2 ^ 30"
  obtains sigs where "length sigs = length A" "\<forall>s \<in> set sigs. length s = 64"
    "\<forall>i < length A. A ! i \<in> signer_id ` set (precommits (commit just)) \<longrightarrow>
       verifying_key C (A ! i) \<and> ed25519_check C (A ! i)
         (encode_precommit (bh f) (of_nat f) (round just) (of_nat (sid (f - 1)))) (sigs ! i)"
    "finality_proof_data C N M (of_nat f) = Inr
       \<lparr>sd_pubkeys = A, sd_signatures = sigs,
        sd_validator_signed = map (\<lambda>k. k \<in> signer_id ` set (precommits (commit just))) A,
        sd_signed_message = encode_precommit (bh f) (of_nat f) (round just) (of_nat (sid (f - 1))),
        sd_voting_weight = of_nat (num_signers just A), sd_num_authorities = of_nat (length A)\<rparr>"
proof -
  let ?ps = "precommits (commit just)"
  let ?msg = "encode_precommit (bh f) (of_nat f) (round just) (of_nat (sid (f - 1)))"
  define sigs where "sigs = map (\<lambda>k. case votes just k of Some x \<Rightarrow> x | None \<Rightarrow> DUMMY_SIGNATURE C) A"
  have ps: "?ps \<noteq> []" "precommit (hd ?ps) = \<lparr>target_hash = bh f, target_number = of_nat f\<rparr>"
    and valid: "\<forall>p \<in> set ?ps. verifying_key C (signer_id p) \<and> length (signature p) = 64 \<and>
      ed25519_check C (signer_id p) ?msg (signature p)"
    using signed by (auto simp: signed_precommits_def)
  have keys: "\<forall>k \<in> set A. length k = 32"
    using authority_length [of "f - 1"] assms(2) A(1) by auto
  have collect: "collect_signatures C ?msg ?ps Map.empty = Inr (votes just)"
    using valid by (simp add: collect_signatures_ok votes_def)
  have fill: "fill_slots C (votes just) A \<lparr>slot_signed = [], slot_signatures = [], slot_pubkeys = [], slot_weight = 0\<rparr> =
      Inr \<lparr>slot_signed = map (\<lambda>k. k \<in> signer_id ` set ?ps) A, slot_signatures = sigs, slot_pubkeys = A,
        slot_weight = of_nat (num_signers just A)\<rparr>"
    using keys A(2,3) fill_slots_ok [of A "\<lparr>slot_signed = [], slot_signatures = [], slot_pubkeys = [],
      slot_weight = 0\<rparr>" "votes just", unfolded votes_dom] by (simp add: sigs_def num_signers_def)
  obtain enc pf where pf: "grandpa_proveFinality N (of_nat f) = Some enc"
      "decode_finality_proof C enc = Some pf" "decode_grandpa_justification C (fp_justification pf) = Some just"
    using served by (auto simp: proves_finality_def)
  have first: "index ?ps 0 = Inr (hd ?ps)"
    using ps(1) by (simp add: hd_conv_nth)
  have prev: "get_authority_set_id N (of_nat (f - 1)) = Inr (of_nat (sid (f - 1)))"
      "get_authorities N (of_nat (f - 1)) = Inr A"
    using assms(2) A(1) by (simp_all add: get_authority_set_id_ok get_authorities_ok del: of_nat_diff)
  have "finality_proof_data C N M (of_nat f) = Inr
       \<lparr>sd_pubkeys = A, sd_signatures = sigs,
        sd_validator_signed = map (\<lambda>k. k \<in> signer_id ` set ?ps) A, sd_signed_message = ?msg,
        sd_voting_weight = of_nat (num_signers just A), sd_num_authorities = of_nat (length A)\<rparr>"
    unfolding finality_proof_data_def pf expect_simps and_then_Inr prev_block [OF assms(1,2)] prev
    using A(2) by (simp add: first ps(2) encode_signed_message collect fill Let_def del: One_nat_def)
  moreover note vote_signatures [OF valid, of A, folded sigs_def, unfolded votes_dom]
  ultimately show thesis
    by (intro that [of sigs]) auto
qed

lemma epoch_end_data:
  assumes f: "epoch_end sid head t f" and served: "proves_finality C N f just"
    and signed: "signed_precommits C (bh f) (of_nat f) (of_nat t) just"
    and A: "A = auths (f - 1)" "length A \<le> M" "M < 2 ^ 30"
  obtains sigs where "length sigs = length A" "\<forall>s \<in> set sigs. length s = 64"
    "\<forall>i < length A. A ! i \<in> signer_id ` set (precommits (commit just)) \<longrightarrow>
       verifying_key C (A ! i) \<and> ed25519_check C (A ! i)
         (encode_precommit (bh f) (of_nat f) (round just) (of_nat t)) (sigs ! i)"
    "get_justification_data C N R chain db M (of_nat f) = Inr
       \<lparr>sd_pubkeys = A, sd_signatures = sigs,
        sd_validator_signed = map (\<lambda>k. k \<in> signer_id ` set (precommits (commit just))) A,
        sd_signed_message = encode_precommit (bh f) (of_nat f) (round just) (of_nat t),
        sd_voting_weight = of_nat (num_signers just A), sd_num_authorities = of_nat (length A)\<rparr>"
proof -
  have fs: "0 < f" "f \<le> head" "sid f = t + 1" "sid (f - 1) = t"
    using f by (auto simp: epoch_end_def)
  have prev: "get_authority_set_id N (of_nat (f - 1)) = Inr (of_nat t)"
    using get_authority_set_id_ok [of "f - 1"] fs by simp
  have next_id: "checked_add (of_nat t :: u64) 1 = Inr (of_nat (t + 1))"
    using next_set_id [of "f - 1"] fs by simp
  have "get_justification_data C N R chain db M (of_nat f) = finality_proof_data C N M (of_nat f)"
    unfolding get_justification_data_def connected_ok and_then_Inr get_authority_set_id_ok [OF fs(2)]
      prev_block [OF fs(1,2)] prev next_id fs(3) by simp
  then show thesis
    using finality_proof_data_ok [OF fs(1,2) served _ A] signed fs(4) that by metis
qed

text \<open>
  The hint on data with one slot per authority: it panics when fewer than two thirds of the slots
  are marked, and otherwise supplies the set with its marks.
\<close>

lemma data_hint:
  fixes R :: "('db, 'j) redis" and chain db
  assumes n: "0 < n" "n \<le> head" "sid (n - 1) = t" and A: "length A \<le> M" "M < 2 ^ 30"
    and sigs: "length sigs = length A" "\<forall>s \<in> set sigs. length s = 64"
      "\<forall>i < length A. P (A ! i) \<longrightarrow> verifying_key C (A ! i) \<and> ed25519_check C (A ! i) msg (sigs ! i)"
    and msg: "msg = encode_precommit (bh n) (of_nat n) rnd (of_nat t)"
    and data: "get_justification_data C N R chain db M (of_nat n) = Inr
       \<lparr>sd_pubkeys = A, sd_signatures = sigs, sd_validator_signed = map P A, sd_signed_message = msg,
        sd_voting_weight = w, sd_num_authorities = of_nat (length A)\<rparr>"
  defines "hint \<equiv> HintSimpleJustification C N R chain db M (of_nat n) (of_nat t)"
  shows "3 * length (filter P A) < 2 * length A \<Longrightarrow> hint = Inl (Panic ''Not enough voting power'')"
    and "2 * length A \<le> 3 * length (filter P A) \<Longrightarrow> \<exists>j. hint = Inr j \<and>
      length (js_validator_signed j) = M \<and> js_num_authorities j = of_nat (length A) \<and>
      take (length A) (js_pubkeys j) = A \<and>
      length (filter id (js_validator_signed j)) = length (filter P A) \<and> js_encoded_precommit j = msg"
proof -
  have prev: "get_authority_set_id N (of_nat (n - 1)) = Inr (of_nat t)"
    using get_authority_set_id_ok [of "n - 1"] n by simp
  have count: "length (filter id (map P A)) = length (filter P A)"
    by (simp add: filter_map comp_def)
  define cj where "cj = \<lparr>cj_authority_set_id = of_nat t, cj_signed_message = msg,
    cj_validator_signed = map P A @ replicate (M - length A) False,
    cj_pubkeys = A @ replicate (M - length A) (DUMMY_PUBLIC_KEY C),
    cj_signatures = sigs @ replicate (M - length A) (DUMMY_SIGNATURE C),
    cj_num_authorities = length A,
    cj_current_authority_set_hash = compute_authority_set_hash (sha256 C) A\<rparr>"
  have block: "get_justification_from_block C N R chain db M (of_nat n) =
      (if 3 * length (filter P A) < 2 * length A then Inl (Panic ''Not enough voting power'') else Inr cj)"
    using get_justification_from_block_ok [OF data prev_block [OF n(1,2)] prev, of "length A"] A sigs(1,2)
    by (simp add: filter_map comp_def unat_of_nat_small cj_def)
  show "hint = Inl (Panic ''Not enough voting power'')" if "3 * length (filter P A) < 2 * length A"
    unfolding hint_def HintSimpleJustification_def block using that by (simp add: expect_ok_def)
  show "\<exists>j. hint = Inr j \<and> length (js_validator_signed j) = M \<and>
      js_num_authorities j = of_nat (length A) \<and> take (length A) (js_pubkeys j) = A \<and>
      length (filter id (js_validator_signed j)) = length (filter P A) \<and>
      js_encoded_precommit j = msg" if votes: "2 * length A \<le> 3 * length (filter P A)"
  proof -
    have "verify_marked C cj [0..<length A] = Inr ()"
      unfolding verify_marked_Inr using sigs by (auto simp: cj_def nth_append)
    moreover have "traverse (signature_value C) (cj_signatures cj) = Inr (map split_signature (cj_signatures cj))"
      using sigs length_dummy by (intro traverse_Inr signature_value_ok) (auto simp: cj_def)
    moreover have "length msg = ENCODED_PRECOMMIT_LENGTH"
      using length_bh [OF n(2)] by (simp add: msg encode_precommit_def ENCODED_PRECOMMIT_LENGTH_def)
    ultimately have "hint = Inr \<lparr>js_encoded_precommit = msg, js_validator_signed = cj_validator_signed cj,
        js_signatures = map split_signature (cj_signatures cj), js_pubkeys = cj_pubkeys cj,
        js_num_authorities = of_nat (length A)\<rparr>"
      unfolding hint_def HintSimpleJustification_def block using votes by (simp add: cj_def)
    then show ?thesis
      using A(1) count by (simp add: cj_def)
  qed
qed

lemma epoch_end_hint:
  fixes R :: "('db, 'j) redis" and chain db
  assumes f: "epoch_end sid head t f" and served: "proves_finality C N f just"
    and signed: "signed_precommits C (bh f) (of_nat f) (of_nat t) just"
    and A: "A = auths (f - 1)" "length A \<le> M" "M < 2 ^ 30"
  defines "hint \<equiv> HintSimpleJustification C N R chain db M (of_nat f) (of_nat t)"
  shows "3 * num_signers just A < 2 * length A \<Longrightarrow> hint = Inl (Panic ''Not enough voting power'')"
    and "2 * length A \<le> 3 * num_signers just A \<Longrightarrow> \<exists>j. hint = Inr j \<and>
      length (js_validator_signed j) = M \<and> js_num_authorities j = of_nat (length A) \<and>
      take (length A) (js_pubkeys j) = A \<and>
      length (filter id (js_validator_signed j)) = num_signers just A \<and>
      js_encoded_precommit j = encode_precommit (bh f) (of_nat f) (round just) (of_nat t)"
proof -
  have fs: "0 < f" "f \<le> head" "sid (f - 1) = t"
    using f by (auto simp: epoch_end_def)
  obtain sigs where sigs: "length sigs = length A" "\<forall>s \<in> set sigs. length s = 64"
      "\<forall>i < length A. A ! i \<in> signer_id ` set (precommits (commit just)) \<longrightarrow>
         verifying_key C (A ! i) \<and> ed25519_check C (A ! i)
           (encode_precommit (bh f) (of_nat f) (round just) (of_nat t)) (sigs ! i)"
      and data: "get_justification_data C N R chain db M (of_nat f) = Inr
         \<lparr>sd_pubkeys = A, sd_signatures = sigs,
          sd_validator_signed = map (\<lambda>k. k \<in> signer_id ` set (precommits (commit just))) A,
          sd_signed_message = encode_precommit (bh f) (of_nat f) (round just) (of_nat t),
          sd_voting_weight = of_nat (num_signers just A), sd_num_authorities = of_nat (length A)\<rparr>"
    using epoch_end_data [OF f served signed A] .
  note hint = data_hint [OF fs A(2,3) sigs refl data]
  show "hint = Inl (Panic ''Not enough voting power'')" if "3 * num_signers just A < 2 * length A"
    unfolding hint_def using that by (intro hint(1)) (simp add: num_signers_def)
  show "\<exists>j. hint = Inr j \<and> length (js_validator_signed j) = M \<and>
      js_num_authorities j = of_nat (length A) \<and> take (length A) (js_pubkeys j) = A \<and>
      length (filter id (js_validator_signed j)) = num_signers just A \<and>
      js_encoded_precommit j = encode_precommit (bh f) (of_nat f) (round just) (of_nat t)"
    if "2 * length A \<le> 3 * num_signers just A"
    unfolding hint_def num_signers_def using that by (intro hint(2)) (simp add: num_signers_def)
qed

text \<open>Inside an epoch the data is the stored justification.\<close>

lemma stored_justification_data:
  assumes n: "0 < n" "n \<le> head" "sid n = sid (n - 1)"
    and A: "length A \<le> M" "M < 2 ^ 30" "\<forall>k \<in> set A. length k = 32"
    and stored: "get_justification R chain (of_nat n) db = Inr stored"
      "sj_pubkeys stored = A" "sj_validator_signed stored = map P A" "sj_num_authorities stored = length A"
  shows "\<exists>w. get_justification_data C N R chain db M (of_nat n) = Inr
    \<lparr>sd_pubkeys = A, sd_signatures = sj_signatures stored, sd_validator_signed = map P A,
     sd_signed_message = sj_signed_message stored,
     sd_voting_weight = w, sd_num_authorities = of_nat (length A)\<rparr>"
proof -
  have ids: "get_authority_set_id N (of_nat n) = Inr (of_nat (sid n))"
      "get_authority_set_id N (of_nat (n - 1)) = Inr (of_nat (sid n))"
    using get_authority_set_id_ok [of n] get_authority_set_id_ok [of "n - 1"] n by simp_all
  have same: "(of_nat (sid n) :: u64) \<noteq> of_nat (sid n + 1)"
    by simp
  have "length (filter P A) < 2 ^ 64"
    by (rule le_less_trans [OF length_filter_le]) (use A(1,2) in simp)
  then obtain w where w: "count_signed (map P A) 0 = Inr w"
    using count_signed_ok [of 0 "map P A"] by auto
  have keys: "traverse (\<lambda>pubkey. expect (edwards_from_slice C pubkey) unwrap_err) A = Inr A"
    using A(3) traverse_Inr [of A "\<lambda>pubkey. expect (edwards_from_slice C pubkey) unwrap_err" "\<lambda>k. k"]
    by (simp add: edwards_from_slice)
  show ?thesis
    unfolding get_justification_data_def connected_ok and_then_Inr ids prev_block [OF n(1,2)]
      next_set_id [OF n(2)] stored_data_def stored
    using same w keys by (simp del: of_nat_add of_nat_Suc One_nat_def)
qed

text \<open>With either of them the hint returns a justification by a supermajority.\<close>

lemma hint_supermajority:
  fixes R :: "('db, 'j) redis" and chain db
  assumes j: "HintSimpleJustification C N R chain db M (of_nat n) (of_nat t) = Inr j \<and>
      length (js_validator_signed j) = M \<and> js_num_authorities j = of_nat (length A) \<and>
      take (length A) (js_pubkeys j) = A \<and> length (filter id (js_validator_signed j)) = m \<and>
      js_encoded_precommit j = encode_precommit hash (of_nat n) rnd (of_nat t)"
    and A: "length A \<le> M" "M < 2 ^ 30" "2 * length A < 3 * m" "m \<le> length A"
  shows "supermajority M j hash (of_nat n) (of_nat t) A"
proof -
  have "unat (js_num_authorities j) = length A"
    using A(1,2) j by (simp add: unat_of_nat_small)
  moreover have "A \<noteq> []" "0 < M"
    using A by auto
  ultimately show ?thesis
    using j A(2,3) by (auto simp: supermajority_def)
qed

lemma stored_justification_hint:
  fixes R :: "('db, 'j) redis" and chain db
  assumes n: "0 < n" "n \<le> head" "sid (n - 1) = t"
    and A: "length A \<le> M" "M < 2 ^ 30" "\<forall>k \<in> set A. length k = 32"
    and stored: "justification_stored C R chain db sid hash A t n" and hash: "hash = bh n"
  shows "\<exists>j. HintSimpleJustification C N R chain db M (of_nat n) (of_nat t) = Inr j \<and>
    supermajority M j hash (of_nat n) (of_nat t) A"
proof -
  obtain stored rnd P where s: "sid n = t" "get_justification R chain (of_nat n) db = Inr stored"
      "sj_signed_message stored = encode_precommit (bh n) (of_nat n) rnd (of_nat t)"
      "sj_pubkeys stored = A" "sj_num_authorities stored = length A"
      "sj_validator_signed stored = map P A" "2 * length A < 3 * length (filter P A)"
      "length (sj_signatures stored) = length A" "\<forall>s \<in> set (sj_signatures stored). length s = 64"
      "\<forall>i < length A. P (A ! i) \<longrightarrow> verifying_key C (A ! i) \<and>
         ed25519_check C (A ! i) (sj_signed_message stored) (sj_signatures stored ! i)"
    using stored unfolding justification_stored_def hash by blast
  have same: "sid n = sid (n - 1)"
    using s(1) n(3) by simp
  obtain w where "get_justification_data C N R chain db M (of_nat n) = Inr
      \<lparr>sd_pubkeys = A, sd_signatures = sj_signatures stored, sd_validator_signed = map P A,
       sd_signed_message = sj_signed_message stored,
       sd_voting_weight = w, sd_num_authorities = of_nat (length A)\<rparr>"
    using stored_justification_data [OF n(1,2) same A s(2,4,6,5)] by blast
  from data_hint(2) [OF n A(1,2) s(8,9,10,3) this] s(7)
  obtain j where j: "HintSimpleJustification C N R chain db M (of_nat n) (of_nat t) = Inr j \<and>
      length (js_validator_signed j) = M \<and> js_num_authorities j = of_nat (length A) \<and>
      take (length A) (js_pubkeys j) = A \<and>
      length (filter id (js_validator_signed j)) = length (filter P A) \<and>
      js_encoded_precommit j = sj_signed_message stored"
    by auto
  show ?thesis
    using hint_supermajority [OF j [unfolded s(3)] A(1,2) s(7) length_filter_le] j hash by blast
qed

lemma served_target_hint:
  fixes R :: "('db, 'j) redis" and chain db
  assumes n: "0 < n" "n \<le> head" "sid (n - 1) = t"
    and A: "A = auths (n - 1)" "length A \<le> M" "M < 2 ^ 30"
    and served: "finality_proof_served C N sid head (bh n) A t n \<or>
      justification_stored C R chain db sid (bh n) A t n"
  shows "\<exists>j. HintSimpleJustification C N R chain db M (of_nat n) (of_nat t) = Inr j \<and>
    supermajority M j (bh n) (of_nat n) (of_nat t) A"
proof -
  have keys: "\<forall>k \<in> set A. length k = 32"
    using authority_length [of "n - 1"] n(2) A(1) by auto
  have "\<exists>j. HintSimpleJustification C N R chain db M (of_nat n) (of_nat t) = Inr j \<and>
    supermajority M j (bh n) (of_nat n) (of_nat t) A" if fp: "finality_proof_served C N sid head (bh n) A t n"
  proof -
    obtain just where f: "epoch_end sid head t n" "proves_finality C N n just"
        "signed_precommits C (bh n) (of_nat n) (of_nat t) just" "2 * length A < 3 * num_signers just A"
      using fp unfolding finality_proof_served_def by blast
    have "num_signers just A \<le> length A"
      by (simp add: num_signers_def)
    note sup = hint_supermajority [OF _ A(2,3) f(4) this, of R chain db n t _ "bh n" "round just"]
    show ?thesis
      using epoch_end_hint(2) [OF f(1-3) A less_imp_le [OF f(4)], of R chain db] sup by blast
  qed
  with served stored_justification_hint [OF n A(2,3) keys _ refl, of R chain db] show ?thesis
    by blast
qed

text \<open>The scheduled change of an epoch end header, and where its log starts.\<close>

lemma find_scheduled_change_ok:
  assumes "\<forall>l \<in> set pre. \<forall>v. l \<noteq> Consensus [70, 82, 78, 75] v" and "list_all (\<lambda>k. length k = 32) ks"
  shows "find_scheduled_change C ks (length (scale_compact (of_nat (length ks))))
      (pre @ Consensus [70, 82, 78, 75] (scheduled_change ks) # post) p =
    Inr (Some (p + length (concat (map (encode_log C) pre))))"
  using assms(1)
proof (induction pre arbitrary: p)
  case Nil
  then show ?case
    using check_scheduled_change_ok [OF assms(2)] by (simp add: Let_def)
next
  case (Cons l pre)
  then show ?case
    by (cases l) (auto simp: Let_def add.assoc)
qed

lemma get_header_rotate_ok:
  assumes f: "epoch_end sid head t f"
    and logs: "h_logs (hdr f) = pre @ Consensus [70, 82, 78, 75] (scheduled_change (auths f)) # post"
      "\<forall>l \<in> set pre. \<forall>v. l \<noteq> Consensus [70, 82, 78, 75] v"
    and S: "length (encode_header C (hdr f)) \<le> S" and M: "length (auths f) \<le> M"
  obtains data where "get_header_rotate C N S M (of_nat f) = Inr data"
    "rd_header_bytes data = header_bytes (encoded_header C S (hdr f))"
    "rd_header_size data = length (encode_header C (hdr f))"
    "rd_num_authorities data = length (auths f)"
    "rd_start_position data = 96 + compact_length (of_nat f) + length (concat (map (encode_log C) pre))"
    "rd_padded_pubkeys data = auths f @ replicate (M - length (auths f)) (DUMMY_PUBLIC_KEY C)"
proof -
  have fs: "0 < f" "f \<le> head" "sid f = t + 1" "sid (f - 1) = t"
    using f by (auto simp: epoch_end_def)
  have keys: "list_all (\<lambda>k. length k = 32) (auths f)"
    using authority_length [of f] fs by (simp add: list_all_iff)
  have ids: "get_authority_set_id N (of_nat f) = Inr (of_nat (t + 1))"
    "get_authority_set_id N (of_nat (f - 1)) = Inr (of_nat t)"
    using get_authority_set_id_ok [of f] get_authority_set_id_ok [of "f - 1"] fs by simp_all
  have t: "checked_sub (of_nat (t + 1) :: u64) 1 = Inr (of_nat t)"
    using set_id_bound [of f] fs unat_of_nat_small [of "t + 1", where 'a = 64]
    by (subst checked_sub_ok) (simp_all add: word_le_nat_alt)
  have find: "find_scheduled_change C (auths f) (length (encode_compact C (of_nat (length (auths f)))))
      (h_logs (hdr f)) p = Inr (Some (p + length (concat (map (encode_log C) pre))))" for p
    unfolding encode_compact logs(1) by (rule find_scheduled_change_ok [OF logs(2) keys])
  have pad: "traverse (\<lambda>k. expect (edwards_from_slice C k) unwrap_err)
      (auths f @ replicate (M - length (auths f)) (DUMMY_PUBLIC_KEY C)) =
      Inr (map (\<lambda>k. k) (auths f @ replicate (M - length (auths f)) (DUMMY_PUBLIC_KEY C)))"
    using keys length_dummy by (intro traverse_Inr) (auto simp: list_all_iff edwards_from_slice)
  show thesis
    using that S unfolding get_header_rotate_def ids prev_block [OF fs(1,2)] and_then_Inr t
      get_header_ok [OF fs(2)] get_authorities_ok [OF fs(2)] Let_def find option.case pad
    by (simp add: encode_compact length_scale_compact HASH_SIZE_def encoded_header_def)
qed

text \<open>The position of a digest item in the encoded header.\<close>

lemma block_digest_item:
  assumes n: "n \<le> head" "length (h_logs (hdr n)) < 64"
    and logs: "h_logs (hdr n) = pre @ Consensus [70, 82, 78, 75] msg # post"
  obtains before x after where "encode_header C (hdr n) = before @ x # consensus_log msg @ after"
    "length before = 96 + compact_length (of_nat n) + length (concat (map (encode_log C) pre))"
proof -
  let ?h = "hdr n"
  define front where "front = h_parent_hash ?h @ scale_compact (of_nat n) @ h_state_root ?h @
    h_extrinsics_root ?h @ scale_compact (of_nat (length (h_logs ?h))) @ concat (map (encode_log C) pre)"
  have bytes: "encode_header C ?h = front @ consensus_log msg @ concat (map (encode_log C) post) @ h_extension ?h"
    using block_number [OF n(1)]
    by (simp add: encode_header encode_log logs front_def consensus_log_def)
  have one: "length (scale_compact (of_nat (length (h_logs ?h)))) = 1"
    using n(2) unat_of_nat_small [of "length (h_logs ?h)", where 'a = 32] by (simp add: scale_compact_def)
  have len: "length front = 97 + compact_length (of_nat n) + length (concat (map (encode_log C) pre))"
    using header_wf [OF n(1)] one by (simp add: front_def wf_avail_header_def length_scale_compact)
  then have "front = butlast front @ [last front]"
    by (metis add_gr_0 append_butlast_last_id length_greater_0_conv zero_less_numeral)
  then have "encode_header C ?h = butlast front @ last front # consensus_log msg @
      concat (map (encode_log C) post) @ h_extension ?h"
    using bytes by (metis append.assoc append_Cons append_Nil)
  then show thesis
    using len by (intro that) auto
qed

lemma encoded_scheduled_change:
  assumes n: "n \<le> head" "length (h_logs (hdr n)) < 64"
    and logs: "h_logs (hdr n) = pre @ Consensus [70, 82, 78, 75] msg # post"
    and S: "length (encode_header C (hdr n)) + w \<le> S"
  obtains before x after where
    "header_bytes (encoded_header C S (hdr n)) = before @ x # consensus_log msg @ after"
    "length before = 96 + compact_length (of_nat n) + length (concat (map (encode_log C) pre))"
    "w \<le> length after"
proof -
  obtain before x after where e: "encode_header C (hdr n) = before @ x # consensus_log msg @ after"
      "length before = 96 + compact_length (of_nat n) + length (concat (map (encode_log C) pre))"
    using block_digest_item [OF n logs] .
  then show thesis
    using S by (intro that [of before x "after @ replicate (S - length (encode_header C (hdr n))) 0"])
      (simp_all add: encoded_header_def)
qed

lemma epoch_end_accepted:
  assumes f: "epoch_end sid head t f" and "proves_finality C N f just"
    and "signed_precommits C (bh f) (of_nat f) (of_nat t) just"
    and A: "A = auths (f - 1)" "length A \<le> M" "M < 2 ^ 30" "A \<noteq> []"
    and votes: "2 * length A \<le> 3 * num_signers just A"
  shows "\<exists>j. HintSimpleJustification C N R chain db M (of_nat f) (of_nat t) = Inr j \<and>
    (verify_simple_justification B M (of_nat f) (bh f) (of_nat t) (chain_hash (curta_sha256 B) A) j = Some () \<longleftrightarrow>
      2 * length A < 3 * num_signers just A)"
proof -
  obtain j where j: "HintSimpleJustification C N R chain db M (of_nat f) (of_nat t) = Inr j"
      "length (js_validator_signed j) = M" "js_num_authorities j = of_nat (length A)"
      "take (length A) (js_pubkeys j) = A"
      "length (filter id (js_validator_signed j)) = num_signers just A"
      "js_encoded_precommit j = encode_precommit (bh f) (of_nat f) (round just) (of_nat t)"
    using epoch_end_hint(2) [OF assms(1-6) votes, of R chain db] by (elim exE conjE) (rule that)
  have un: "unat (js_num_authorities j) = length A"
    using A(2,3) j(3) by (simp add: unat_of_nat_small)
  have ne: "0 < length A"
    using A(4) by simp
  then have "0 < M" "f \<le> head" "js_num_authorities j \<noteq> 0"
    using A(2) un f by (linarith, simp add: epoch_end_def, simp flip: unat_gt_0)
  note acc = hint_accepted [OF j(1,2) this(1) A(3) j(6) length_bh [OF this(2)] this(3)]
  show ?thesis
    using acc [unfolded un j(4,5)] j(1) by blast
qed

lemma supermajority_accepted:
  assumes "HintSimpleJustification C N R chain db M n set_id = Inr j"
    and "supermajority M j hash n set_id keys" and "length hash = 32"
  shows "verify_simple_justification B M n hash set_id (chain_hash (curta_sha256 B) keys) j = Some ()"
proof -
  obtain rnd where rnd: "js_encoded_precommit j = encode_precommit hash n rnd set_id"
    using assms(2) by (auto simp: supermajority_def)
  moreover have "js_num_authorities j \<noteq> 0"
    using assms(2) by (auto simp: supermajority_def)
  ultimately show ?thesis
    using hint_accepted [OF assms(1) _ _ _ rnd assms(3)] assms(2) by (simp add: supermajority_def)
qed

lemma header_range_accepted:
  assumes k: "next_power_of_two (M' div 8) = 2 ^ k" "3 + k < 32" and bound: "a + 1 + 8 * 2 ^ k < 2 ^ 32"
    and range: "a < b" "b \<le> head" "b \<le> a + 8 * 2 ^ k"
    and S: "\<And>n. n \<le> b \<Longrightarrow> length (encode_header C (hdr n)) \<le> S" "S < 2 ^ 32"
    and hint: "HintSimpleJustification C N R chain db M (of_nat b) set_id = Inr j"
    and j: "supermajority M j (bh b) (of_nat b) set_id (auths (b - 1))"
  shows "\<exists>state data. get_merkle_root_commitments C N (of_nat (2 ^ (3 + k))) (of_nat a) (of_nat b) =
      Inr (state, data) \<and>
    header_range_circuit B mapreduce M M'
      (fetched_headers C N B S \<lparr>global_start_block = of_nat a, global_end_block = of_nat b\<rparr>) j
      \<lparr>hr_trusted_block = of_nat a, hr_trusted_header_hash = bh a, hr_authority_set_id = set_id,
       hr_authority_set_hash = chain_hash (curta_sha256 B) (auths (b - 1)), hr_target_block = of_nat b\<rparr> =
    Some \<lparr>hr_target_header_hash = bh b, hr_state_root_commitment = state, hr_data_root_commitment = data\<rparr>"
proof -
  note sub = verify_subchain_fetched [OF k(1) bound range S]
  have just: "verify_simple_justification B M (of_nat b) (bh b) set_id
      (chain_hash (curta_sha256 B) (auths (b - 1))) j = Some ()"
    by (rule supermajority_accepted [OF hint j length_bh [OF range(2)]])
  have "b - a \<le> 2 ^ (3 + k)"
    using range by (simp add: power_add)
  note roots = get_merkle_root_commitments_ok [OF k(2) less_imp_le [OF range(1)] range(2) this, of C]
  have pad: "padded_root B (3 + k) (map g [a + 1..<b + 1]) = merkle_tree (sha256 C) (3 + k)
      (map g [a + 1..<b + 1] @ replicate (2 ^ (3 + k) - (b - a)) zero32)" for g
    by (simp add: padded_root_def same_sha256 del: upt_Suc)
  show ?thesis
    unfolding roots pad [symmetric] header_range_circuit_iff using sub just by simp
qed

text \<open>The rotation at an epoch end whose header announces the next set.\<close>

lemma rotation_accepted:
  assumes f: "epoch_end sid head t f"
    and logs: "h_logs (hdr f) = pre @ Consensus [70, 82, 78, 75] (scheduled_change (auths f)) # post"
      "\<forall>l \<in> set pre. \<forall>v. l \<noteq> Consensus [70, 82, 78, 75] v" "length (h_logs (hdr f)) < 64"
    and S: "length (encode_header C (hdr f)) + 40 * M \<le> S" "S < 2 ^ 32"
    and M: "length (auths f) \<le> M" "auths f \<noteq> []"
    and just: "verify_simple_justification B M (of_nat f) (bh f) (of_nat t) set_hash j = Some ()"
  shows "\<exists>rot. RotateHint C N S M (of_nat t) = Inr rot \<and> epoch_end_block_number rot = of_nat f \<and>
    rotate_circuit B M (M * VALIDATOR_LENGTH + DELAY_LENGTH) rot j (of_nat t) set_hash =
      Some (chain_hash (curta_sha256 B) (auths f))"
proof -
  have fs: "f \<le> head" "t + 1 < 2 ^ 64"
    using f set_id_bound [of f] by (auto simp: epoch_end_def)
  have size: "length (encode_header C (hdr f)) \<le> S"
    using S(1) by simp
  obtain data where data: "get_header_rotate C N S M (of_nat f) = Inr data"
      "rd_header_bytes data = header_bytes (encoded_header C S (hdr f))"
      "rd_header_size data = length (encode_header C (hdr f))"
      "rd_num_authorities data = length (auths f)"
      "rd_start_position data = 96 + compact_length (of_nat f) + length (concat (map (encode_log C) pre))"
      "rd_padded_pubkeys data = auths f @ replicate (M - length (auths f)) (DUMMY_PUBLIC_KEY C)"
    using get_header_rotate_ok [OF f logs(1,2) size M(1)] .
  define rot where "rot = \<lparr>epoch_end_block_number = of_nat f, target_header = encoded_header C S (hdr f),
    target_header_num_authorities = length (auths f),
    next_authority_set_start_position = rd_start_position data, new_pubkeys = rd_padded_pubkeys data\<rparr>"
  have hint: "RotateHint C N S M (of_nat t) = Inr rot"
    using last_justified_block_eq(2) [OF fs(2) f] data M(1)
    by (simp add: RotateHint_def rot_def encoded_header_def)
  obtain before x after where bytes:
      "header_bytes (encoded_header C S (hdr f)) = before @ x # consensus_log (scheduled_change (auths f)) @ after"
      "length before = 96 + compact_length (of_nat f) + length (concat (map (encode_log C) pre))"
      "40 * M \<le> length after"
    using encoded_scheduled_change [OF fs(1) logs(3,1) S(1)] .
  have keys: "wf_pubkeys M (new_pubkeys rot)"
    using authority_length [OF fs(1)] length_dummy M(1)
    by (auto simp: wf_pubkeys_def rot_def data list_all_iff)
  have "length (header_bytes (target_header rot)) = S"
    using size by (simp add: rot_def encoded_header_def)
  then have "rotate_set B M (M * VALIDATOR_LENGTH + DELAY_LENGTH) (of_nat t) set_hash rot j =
      Some (chain_hash (curta_sha256 B) (auths f))"
    using bytes data just S(2) hash_encoded [OF fs(1) size S(2)]
    by (intro rotate_accepts [OF _ M(2,1) _ keys, where pre = before and x = x and post = after
          and padding = "replicate (M - length (auths f)) (DUMMY_PUBLIC_KEY C)"])
      (simp_all add: rot_def)
  then show ?thesis
    using hint by (simp add: rotate_circuit_def rot_def)
qed

end

section \<open>A prover for the demonstration chain\<close>

definition demo_just :: GrandpaJustification where
  "demo_just =
     \<lparr>round = 1,
      commit = \<lparr>commit_target_hash = demo_block_hash 10, commit_target_number = 10,
        precommits = [\<lparr>precommit = \<lparr>target_hash = demo_block_hash 10, target_number = 10\<rparr>,
          signature = replicate 64 7, signer_id = replicate 32 7\<rparr>]\<rparr>,
      votes_ancestries = []\<rparr>"

text \<open>
  The authorities of this chain sign precommits for its blocks only: no signature verifies for
  any other message.
\<close>

definition block_message :: "bytes \<Rightarrow> bool" where
  "block_message msg =
     (let n = le_nat (subarray 33 37 msg) in n \<le> 20 \<and> subarray 1 33 msg = demo_block_hash n)"

definition chain_verify :: "bytes \<Rightarrow> bytes \<Rightarrow> eddsa_signature \<Rightarrow> bool" where
  "chain_verify pubkey msg s \<longleftrightarrow> demo_verify pubkey msg s \<and> block_message msg"

lemma block_message_precommit:
  assumes "length h = 32"
  shows "block_message (encode_precommit h n rnd t) \<longleftrightarrow> unat n \<le> 20 \<and> h = demo_block_hash (unat n)"
proof -
  have "subarray 33 37 (encode_precommit h n rnd t) = le_bytes 4 (unat n)"
    "subarray 1 33 (encode_precommit h n rnd t) = h"
    using assms by (simp_all add: encode_precommit_def subarray_def del: le_bytes.simps)
  then show ?thesis
    using unat_u32_less [of n] by (simp add: block_message_def le_nat_le_bytes Let_def del: le_bytes.simps)
qed

definition chain_crates :: crates where
  "chain_crates = ref_crates (\<lambda>bs. bs) (drop 32) (\<lambda>key msg sig. take 32 sig = key \<and> block_message msg)
     (\<lambda>_. Some \<lparr>fp_block = [], fp_justification = [], fp_unknown_headers = []\<rparr>) (\<lambda>_. Some demo_just)"

definition chain_gadgets :: plonky2x where
  "chain_gadgets = ref_gadgets (\<lambda>bs. bs) (drop 32) chain_verify"

lemma chain_crates: "host_crates chain_crates"
  unfolding chain_crates_def by (rule refc.host_crates_axioms)

lemma chain_gadgets: "subchain_gadgets chain_gadgets (\<lambda>bs. pad32 (drop 32 bs)) chain_verify ref_mapreduce"
  unfolding chain_gadgets_def by (rule refsub.subchain_gadgets_axioms)

lemma demo_chain_hash:
  assumes "n \<le> 20"
  shows "pad32 (drop 32 (encode_header chain_crates (demo_avail_header n))) = demo_block_hash n"
proof -
  have "length (h_parent_hash (demo_avail_header n)) = 32"
    by (simp add: demo_avail_header_def)
  moreover have "scale_compact (of_nat n) = [of_nat (4 * n)]"
    using assms unat_of_nat_small [of n, where 'a = 32] by (simp add: scale_compact_def del: of_nat_mult)
  ultimately show ?thesis
    using assms by (simp add: host_crates.encode_header [OF chain_crates] demo_block_hash_eq)
      (simp add: demo_avail_header_def pad32_def)
qed

interpretation demop: chain_prover demo_node 20 demo_block_hash demo_avail_header "\<lambda>n. n div 5"
  "\<lambda>_. [replicate 32 7]" chain_crates chain_gadgets "\<lambda>bs. pad32 (drop 32 bs)" chain_verify ref_mapreduce
proof (intro chain_prover.intro chain_prover_axioms.intro demon.avail_chain_axioms chain_crates chain_gadgets)
  show "chain_verify key msg (split_signature sig)"
    if "length sig = 64" "ed25519_check chain_crates key msg sig" for sig key msg
    using that by (simp add: chain_crates_def ref_crates_def chain_verify_def demo_verify_def split_signature_def)
  show "wf_avail_header (demo_avail_header n)" if "n \<le> 20" for n
    by (simp add: wf_avail_header_def demo_avail_header_def)
qed (simp_all add: demo_chain_hash, simp_all add: chain_crates_def ref_crates_def chain_gadgets_def
    ref_gadgets_def demo_avail_header_def)

section \<open>Properties\<close>

text \<open>
  C21: at an epoch end block for which the node serves a finality proof with valid signatures, the
  justification hint panics when fewer than two thirds of the authority set have signed, and
  otherwise returns a justification. The circuit accepts it under the commitment of the authority
  set exactly when strictly more than two thirds have signed: a proof with exactly two thirds
  passes the host's check and is rejected by the circuit.
\<close>

theorem epoch_end_justification_exact:
  assumes "chain_prover N head bh hdr sid auths C B blake2b_256 ed25519_verify mapreduce"
    and "epoch_end sid head t f" and "proves_finality C N f just"
    and "signed_precommits C (bh f) (of_nat f) (of_nat t) just"
    and "A = auths (f - 1)" and "A \<noteq> []" and "length A \<le> M" and "M < 2 ^ 30"
  shows "(3 * num_signers just A < 2 * length A \<longrightarrow>
      HintSimpleJustification C N R chain db M (of_nat f) (of_nat t) =
        Inl (Panic ''Not enough voting power'')) \<and>
    (2 * length A \<le> 3 * num_signers just A \<longrightarrow>
      (\<exists>j. HintSimpleJustification C N R chain db M (of_nat f) (of_nat t) = Inr j \<and>
        (verify_simple_justification B M (of_nat f) (bh f) (of_nat t)
           (chain_hash (curta_sha256 B) A) j = Some () \<longleftrightarrow>
         2 * length A < 3 * num_signers just A)))"
  using chain_prover.epoch_end_hint(1) [OF assms(1-5,7,8), of R chain db]
    chain_prover.epoch_end_accepted [OF assms(1-5,7,8,6), of R chain db] by blast

lemma demo_served:
  "epoch_end (\<lambda>n. n div 5) 20 1 10" "proves_finality chain_crates demo_node 10 demo_just"
  "signed_precommits chain_crates (demo_block_hash 10) (of_nat 10) (of_nat 1) demo_just"
  "num_signers demo_just [replicate 32 7] = 1"
  by (simp_all add: epoch_end_def proves_finality_def signed_precommits_def num_signers_def demo_just_def
      demo_node_def chain_node_def chain_crates_def ref_crates_def Let_def block_message_precommit)

theorem epoch_end_justification_exact_witness:
  "\<exists>j. HintSimpleJustification chain_crates demo_node mem_redis ''avail'' empty_db 2 (of_nat 10) (of_nat 1) = Inr j \<and>
     verify_simple_justification chain_gadgets 2 (of_nat 10) (demo_block_hash 10) (of_nat 1)
       (chain_hash (curta_sha256 chain_gadgets) [replicate 32 7]) j = Some ()"
  using epoch_end_justification_exact [OF demop.chain_prover_axioms demo_served(1-3) refl, of 2 mem_redis
      "''avail''" empty_db] demo_served(4) by auto

text \<open>
  C12: the header range circuit can be satisfied for every range of finalized blocks whose target
  has been justified to the prover: either the target ends an epoch and the node serves a finality
  proof for it that more than two thirds of the set have signed, or it lies inside an epoch and
  Redis holds a justification with valid signatures of more than two thirds. Then the justification
  hint returns a justification, the header hint supplies the headers, the circuit accepts them with
  the hash of the target block, and its two commitments are the ones the host computes for the
  range. The encoded headers up to the target have to fit the \<open>S\<close> bytes of a slot and the
  authority set its \<open>M\<close> slots.
\<close>

theorem honest_header_range_accepted:
  assumes "chain_prover N head bh hdr sid auths C B blake2b_256 ed25519_verify mapreduce"
    and "next_power_of_two (max_num_headers div HEADERS_PER_MAP) = 2 ^ k" and "3 + k < 32"
    and "a + 1 + HEADERS_PER_MAP * 2 ^ k < 2 ^ 32"
    and "a < b" and "b \<le> head" and "b \<le> a + HEADERS_PER_MAP * 2 ^ k"
    and "\<forall>n \<le> b. length (encode_header C (hdr n)) \<le> S" and "S < 2 ^ 32"
    and "t = sid (b - 1)" and "A = auths (b - 1)" and "length A \<le> M" and "M < 2 ^ 30"
    and "finality_proof_served C N sid head (bh b) A t b \<or>
      justification_stored C R chain db sid (bh b) A t b"
  shows "\<exists>j state data. HintSimpleJustification C N R chain db M (of_nat b) (of_nat t) = Inr j \<and>
    get_merkle_root_commitments C N (of_nat (2 ^ (3 + k))) (of_nat a) (of_nat b) = Inr (state, data) \<and>
    header_range_circuit B mapreduce M max_num_headers
      (fetched_headers C N B S \<lparr>global_start_block = of_nat a, global_end_block = of_nat b\<rparr>) j
      \<lparr>hr_trusted_block = of_nat a, hr_trusted_header_hash = bh a, hr_authority_set_id = of_nat t,
       hr_authority_set_hash = chain_hash (curta_sha256 B) A, hr_target_block = of_nat b\<rparr> =
    Some \<lparr>hr_target_header_hash = bh b, hr_state_root_commitment = state, hr_data_root_commitment = data\<rparr>"
proof -
  have b: "0 < b" "sid (b - 1) = t"
    using assms(5,10) by simp_all
  obtain j where j: "HintSimpleJustification C N R chain db M (of_nat b) (of_nat t) = Inr j"
      "supermajority M j (bh b) (of_nat b) (of_nat t) A"
    using chain_prover.served_target_hint [OF assms(1) b(1) assms(6) b(2) assms(11-14)] by blast
  with chain_prover.header_range_accepted
      [OF assms(1), of max_num_headers k a b S R chain db M "of_nat t" j] assms(2-9,11)
  show ?thesis by (simp add: HEADERS_PER_MAP_def)
qed

lemma demo_header_length: "n \<le> 20 \<Longrightarrow> length (encode_header chain_crates (demo_avail_header n)) \<le> 300"
  using unat_of_nat_small [of n, where 'a = 32]
  by (simp add: host_crates.encode_header [OF chain_crates] host_crates.encode_log [OF chain_crates]
      demo_avail_header_def scale_compact_def scheduled_change_def encode_authorities_def
      expected_weight_bytes_def expected_delay_bytes_def DELAY_LENGTH_def)

lemma demo_epoch_end_hint:
  obtains j where "HintSimpleJustification chain_crates demo_node mem_redis ''avail'' empty_db 2
      (of_nat 10) (of_nat 1) = Inr j"
    "supermajority 2 j (demo_block_hash 10) (of_nat 10) (of_nat 1) [replicate 32 7]"
proof -
  obtain j where "HintSimpleJustification chain_crates demo_node mem_redis ''avail'' empty_db 2
        (of_nat 10) (of_nat 1) = Inr j \<and> length (js_validator_signed j) = 2 \<and>
      js_num_authorities j = of_nat 1 \<and> take 1 (js_pubkeys j) = [replicate 32 7] \<and>
      length (filter id (js_validator_signed j)) = 1 \<and>
      js_encoded_precommit j = encode_precommit (demo_block_hash 10) (of_nat 10) (round demo_just) (of_nat 1)"
    using demop.epoch_end_hint(2) [OF demo_served(1-3) refl, of 2 mem_redis "''avail''" empty_db]
      demo_served(4) by auto
  then show thesis
    by (intro that [of j]) (auto simp: supermajority_def)
qed

lemma demo_finality_proof:
  "finality_proof_served chain_crates demo_node (\<lambda>n. n div 5) 20 (demo_block_hash 10) [replicate 32 7] 1 10"
  using demo_served unfolding finality_proof_served_def by (intro conjI exI [of _ demo_just]) simp_all

theorem honest_header_range_accepted_witness:
  "\<exists>j state data. HintSimpleJustification chain_crates demo_node mem_redis ''avail'' empty_db 2
      (of_nat 10) (of_nat 1) = Inr j \<and>
    header_range_circuit chain_gadgets ref_mapreduce 2 8
      (fetched_headers chain_crates demo_node chain_gadgets 400
        \<lparr>global_start_block = of_nat 7, global_end_block = of_nat 10\<rparr>) j
      \<lparr>hr_trusted_block = of_nat 7, hr_trusted_header_hash = demo_block_hash 7, hr_authority_set_id = of_nat 1,
       hr_authority_set_hash = chain_hash (curta_sha256 chain_gadgets) [replicate 32 7],
       hr_target_block = of_nat 10\<rparr> =
     Some \<lparr>hr_target_header_hash = demo_block_hash 10, hr_state_root_commitment = state,
       hr_data_root_commitment = data\<rparr>"
proof -
  have "\<forall>n \<le> 10. length (encode_header chain_crates (demo_avail_header n)) \<le> 400"
    by (intro allI impI order_trans [OF demo_header_length]) simp_all
  from honest_header_range_accepted [OF demop.chain_prover_axioms demo_range_jobs _ _ _ _ _ this _ _ refl _ _
      disjI1 [OF demo_finality_proof], of 7 2 mem_redis "''avail''" empty_db]
  show ?thesis
    by (auto simp: HEADERS_PER_MAP_def)
qed

text \<open>
  C13: the rotate circuit can be satisfied at the end of every epoch whose last block announces the
  next set as the hint expects it: the first consensus log of the GRANDPA engine in its header is
  the scheduled change with the authorities of the next set, the header has fewer than 64 logs (the
  hint takes the number of logs to be one byte long), and behind the header \<open>40 * M\<close> bytes of the
  slot are left for the window of the circuit. The node has to serve a finality proof for the block
  that more than two thirds of the current set have signed. Then the rotation hint finds the
  position of the log in the encoded header, the justification hint returns a justification, and
  the circuit accepts both and returns the commitment of exactly the announced authorities.
\<close>

theorem honest_rotation_accepted:
  assumes "chain_prover N head bh hdr sid auths C B blake2b_256 ed25519_verify mapreduce"
    and "h_logs (hdr f) = pre @ Consensus [70, 82, 78, 75] (scheduled_change (auths f)) # post"
    and "\<forall>l \<in> set pre. \<forall>v. l \<noteq> Consensus [70, 82, 78, 75] v" and "length (h_logs (hdr f)) < 64"
    and "length (encode_header C (hdr f)) + 40 * M \<le> S" and "S < 2 ^ 32"
    and "length (auths f) \<le> M" and "auths f \<noteq> []"
    and "A = auths (f - 1)" and "length A \<le> M" and "M < 2 ^ 30"
    and "finality_proof_served C N sid head (bh f) A t f"
  shows "\<exists>rot j. RotateHint C N S M (of_nat t) = Inr rot \<and>
    HintSimpleJustification C N R chain db M (epoch_end_block_number rot) (of_nat t) = Inr j \<and>
    rotate_circuit B M (M * VALIDATOR_LENGTH + DELAY_LENGTH) rot j (of_nat t)
        (chain_hash (curta_sha256 B) A) =
      Some (chain_hash (curta_sha256 B) (auths f))"
proof -
  have f: "epoch_end sid head t f"
    using assms(12) by (simp add: finality_proof_served_def)
  then have fs: "0 < f" "f \<le> head" "sid (f - 1) = t"
    by (auto simp: epoch_end_def)
  obtain j where j: "HintSimpleJustification C N R chain db M (of_nat f) (of_nat t) = Inr j"
      "supermajority M j (bh f) (of_nat f) (of_nat t) A"
    using chain_prover.served_target_hint [OF assms(1) fs assms(9-11) disjI1 [OF assms(12)], of R chain db]
    by blast
  have "verify_simple_justification B M (of_nat f) (bh f) (of_nat t) (chain_hash (curta_sha256 B) A) j = Some ()"
    by (rule chain_prover.supermajority_accepted [OF assms(1) j chain_prover.length_bh [OF assms(1) fs(2)]])
  from chain_prover.rotation_accepted [OF assms(1) f assms(2-8) this] j show ?thesis
    by metis
qed

theorem honest_rotation_accepted_witness:
  "\<exists>rot j. RotateHint chain_crates demo_node 400 2 (of_nat 1) = Inr rot \<and>
    HintSimpleJustification chain_crates demo_node mem_redis ''avail'' empty_db 2
      (epoch_end_block_number rot) (of_nat 1) = Inr j \<and>
    rotate_circuit chain_gadgets 2 (2 * VALIDATOR_LENGTH + DELAY_LENGTH) rot j (of_nat 1)
        (chain_hash (curta_sha256 chain_gadgets) [replicate 32 7]) =
      Some (chain_hash (curta_sha256 chain_gadgets) [replicate 32 7])"
  using honest_rotation_accepted [OF demop.chain_prover_axioms _ _ _ _ _ _ _ refl _ _ demo_finality_proof,
      of "[]" "[]" 2 400 mem_redis "''avail''" empty_db] demo_header_length [of 10]
  by (auto simp: demo_avail_header_def)

end
