(* ===== verification/Dummy.thy ===== *)
theory Dummy
  imports Prover
begin

text \<open>
  The programs that stand in for the circuits on test deployments,
  \<open>circuits/dummy_header_range.rs\<close> and \<open>circuits/dummy_rotate.rs\<close>: from the packed public
  inputs to the packed public outputs, without a proof. On a chain their output is the output of
  the circuit run by the honest prover.
\<close>

section \<open>Definitions\<close>

text \<open>\<open>Header::hash\<close> of the Avail crate: the BLAKE2b digest of the encoded header.\<close>

definition avail_header_hash :: "crates \<Rightarrow> avail_header \<Rightarrow> bytes" where
  "avail_header_hash C header = blake2_256 C (encode_header C header)"

definition DummyHeaderRange :: "crates \<Rightarrow> avail_node \<Rightarrow> nat \<Rightarrow> bytes \<Rightarrow> bytes result" where
  "DummyHeaderRange C N HEADER_RANGE_COMMITMENT_TREE_SIZE input_bytes =
     and_then (index_range input_bytes 0 4) (\<lambda>trusted_block_bytes.
     let trusted_block = from_be_bytes trusted_block_bytes in
     and_then (index_range input_bytes 4 36) (\<lambda>trusted_header_hash.
     and_then (index_range input_bytes 36 44) (\<lambda>authority_set_id.
     and_then (index_range input_bytes 44 76) (\<lambda>authority_set_hash.
     and_then (index_range input_bytes 76 80) (\<lambda>target_block_bytes.
     let target_block = from_be_bytes target_block_bytes in
     and_then (get_header N target_block) (\<lambda>header.
     let target_header_hash = avail_header_hash C header in
     and_then (get_merkle_root_commitments C N (of_nat HEADER_RANGE_COMMITMENT_TREE_SIZE)
         trusted_block target_block) (\<lambda>(state_merkle_root, data_merkle_root).
     Inr (target_header_hash @ state_merkle_root @ data_merkle_root))))))))"

definition DummyRotate :: "crates \<Rightarrow> avail_node \<Rightarrow> bytes \<Rightarrow> bytes result" where
  "DummyRotate C N input_bytes =
     and_then (index_range input_bytes 0 8) (\<lambda>authority_set_id_bytes.
     let authority_set_id = from_be_bytes authority_set_id_bytes in
     and_then (index_range input_bytes 8 40) (\<lambda>authority_set_hash.
     and_then (last_justified_block N authority_set_id) (\<lambda>epoch_end_block_number.
     block_authority_set_hash C N epoch_end_block_number)))"

section \<open>The packed inputs and outputs\<close>

text \<open>\<open>abi.encodePacked\<close> of the public inputs, and the outputs in the order they are written.\<close>

definition packed_header_range_input :: "HeaderRangeInput \<Rightarrow> bytes" where
  "packed_header_range_input evm =
     rev (le_bytes 4 (unat (hr_trusted_block evm))) @ hr_trusted_header_hash evm @
     rev (le_bytes 8 (unat (hr_authority_set_id evm))) @ hr_authority_set_hash evm @
     rev (le_bytes 4 (unat (hr_target_block evm)))"

definition packed_header_range_output :: "HeaderRangeOutput \<Rightarrow> bytes" where
  "packed_header_range_output out =
     hr_target_header_hash out @ hr_state_root_commitment out @ hr_data_root_commitment out"

definition packed_rotate_input :: "u64 \<Rightarrow> bytes \<Rightarrow> bytes" where
  "packed_rotate_input set_id set_hash = rev (le_bytes 8 (unat set_id)) @ set_hash"

lemma from_be_bytes_packed:
  "from_be_bytes (rev (le_bytes 4 (unat (n :: u32)))) = n"
  "from_be_bytes (rev (le_bytes 8 (unat (m :: u64)))) = m"
  using unat_u32_less [of n] unat_u64_less [of m]
  by (simp_all add: from_be_bytes_def be_nat_def le_nat_le_bytes del: le_bytes.simps)

lemma unpack_header_range_input:
  assumes "length (hr_trusted_header_hash evm) = 32" and "length (hr_authority_set_hash evm) = 32"
  defines "input \<equiv> packed_header_range_input evm"
  shows "index_range input 0 4 = Inr (rev (le_bytes 4 (unat (hr_trusted_block evm))))"
    and "index_range input 4 36 = Inr (hr_trusted_header_hash evm)"
    and "index_range input 36 44 = Inr (rev (le_bytes 8 (unat (hr_authority_set_id evm))))"
    and "index_range input 44 76 = Inr (hr_authority_set_hash evm)"
    and "index_range input 76 80 = Inr (rev (le_bytes 4 (unat (hr_target_block evm))))"
  using assms by (simp_all add: packed_header_range_input_def index_range_def subarray_def del: le_bytes.simps)

lemma unpack_rotate_input:
  assumes "length set_hash = 32"
  shows "index_range (packed_rotate_input set_id set_hash) 0 8 = Inr (rev (le_bytes 8 (unat set_id)))"
    and "index_range (packed_rotate_input set_id set_hash) 8 40 = Inr set_hash"
  using assms by (simp_all add: packed_rotate_input_def index_range_def subarray_def del: le_bytes.simps)

section \<open>The programs on a chain\<close>

context chain_prover
begin

lemma avail_header_hash: "n \<le> head \<Longrightarrow> avail_header_hash C (hdr n) = bh n"
  by (simp add: avail_header_hash_def header_hash same_blake2b)

lemma block_authority_set_hash_ok:
  assumes "n \<le> head" and "auths n \<noteq> []"
  shows "block_authority_set_hash C N (of_nat n) = Inr (chain_hash (curta_sha256 B) (auths n))"
proof -
  have "fold (\<lambda>i acc. sha256 C (acc @ auths n ! i)) [0..<length (auths n)] [] =
      chain_hash (curta_sha256 B) (auths n)"
    using compute_authority_set_hash_eq [of "sha256 C" "auths n"]
    by (simp add: compute_authority_set_hash_def same_sha256)
  moreover have "length (chain_hash (curta_sha256 B) (auths n)) = 32"
    using assms(2) by (simp add: length_chain_hash length_curta_sha256)
  ultimately show ?thesis
    using assms(1) by (simp add: block_authority_set_hash_def get_authorities_ok Let_def)
qed

lemma DummyHeaderRange_ok:
  assumes "k < 32" and "a \<le> b" and "b \<le> head" and "b - a \<le> 2 ^ k"
    and "length trusted_hash = 32" and "length set_hash = 32"
  shows "DummyHeaderRange C N (2 ^ k) (packed_header_range_input
      \<lparr>hr_trusted_block = of_nat a, hr_trusted_header_hash = trusted_hash, hr_authority_set_id = set_id,
       hr_authority_set_hash = set_hash, hr_target_block = of_nat b\<rparr>) =
    and_then (get_merkle_root_commitments C N (of_nat (2 ^ k)) (of_nat a) (of_nat b))
      (\<lambda>(state, data). Inr (bh b @ state @ data))"
  unfolding DummyHeaderRange_def
  using assms get_header_ok [of b] avail_header_hash [of b]
  by (simp add: unpack_header_range_input from_be_bytes_packed Let_def del: of_nat_power le_bytes.simps)

lemma DummyRotate_ok:
  assumes "epoch_end sid head t f" and "auths f \<noteq> []" and "length set_hash = 32"
  shows "DummyRotate C N (packed_rotate_input (of_nat t) set_hash) =
    Inr (chain_hash (curta_sha256 B) (auths f))"
proof -
  have "f \<le> head" "t + 1 < 2 ^ 64"
    using assms(1) set_id_bound [of f] by (auto simp: epoch_end_def)
  then show ?thesis
    unfolding DummyRotate_def
    using assms last_justified_block_eq(2) [of t f] block_authority_set_hash_ok [of f]
    by (simp add: unpack_rotate_input from_be_bytes_packed Let_def del: le_bytes.simps)
qed

end

lemma dummy_header_range_agrees:
  assumes "chain_prover N head bh hdr sid auths C B blake2b_256 ed25519_verify mapreduce"
    and "next_power_of_two (max_num_headers div HEADERS_PER_MAP) = 2 ^ k" and "3 + k < 32"
    and "a + 1 + HEADERS_PER_MAP * 2 ^ k < 2 ^ 32"
    and "a < b" and "b \<le> head" and "b \<le> a + HEADERS_PER_MAP * 2 ^ k"
    and "\<forall>n \<le> b. length (encode_header C (hdr n)) \<le> S" and "S < 2 ^ 32"
    and "HintSimpleJustification C N R chain db M (of_nat b) set_id = Inr j"
    and "supermajority M j (bh b) (of_nat b) set_id (auths (b - 1))"
    and "evm = \<lparr>hr_trusted_block = of_nat a, hr_trusted_header_hash = bh a, hr_authority_set_id = set_id,
      hr_authority_set_hash = chain_hash (curta_sha256 B) (auths (b - 1)), hr_target_block = of_nat b\<rparr>"
  shows "\<exists>out. header_range_circuit B mapreduce M max_num_headers
      (fetched_headers C N B S \<lparr>global_start_block = of_nat a, global_end_block = of_nat b\<rparr>) j evm = Some out \<and>
    DummyHeaderRange C N (HEADERS_PER_MAP * 2 ^ k) (packed_header_range_input evm) =
      Inr (packed_header_range_output out)"
proof -
  note c = chain_prover.axioms(3) [OF assms(1)]
  obtain state data where roots: "get_merkle_root_commitments C N (of_nat (2 ^ (3 + k))) (of_nat a) (of_nat b) =
        Inr (state, data)"
      and out: "header_range_circuit B mapreduce M max_num_headers
        (fetched_headers C N B S \<lparr>global_start_block = of_nat a, global_end_block = of_nat b\<rparr>) j evm =
      Some \<lparr>hr_target_header_hash = bh b, hr_state_root_commitment = state, hr_data_root_commitment = data\<rparr>"
    using chain_prover.header_range_accepted [OF assms(1), of max_num_headers k a b S R chain db M set_id j]
      assms(2-12) by (auto simp: HEADERS_PER_MAP_def)
  have "length (bh a) = 32" "length (chain_hash (curta_sha256 B) (auths (b - 1))) = 32"
    using chain_prover.length_bh [OF assms(1), of a] assms(5,6,11)
      length_chain_hash [OF plonky2x_gadgets.length_curta_sha256 [OF subchain_gadgets.axioms(1) [OF c]]]
    by (simp_all add: supermajority_def)
  then have "DummyHeaderRange C N (2 ^ (3 + k)) (packed_header_range_input evm) = Inr (bh b @ state @ data)"
    using chain_prover.DummyHeaderRange_ok [OF assms(1,3), of a b "bh a"] roots assms(5,6,7)
    by (simp add: assms(12) HEADERS_PER_MAP_def power_add)
  then show ?thesis
    using out by (simp add: packed_header_range_output_def HEADERS_PER_MAP_def power_add)
qed

section \<open>Properties\<close>

text \<open>
  C22: on the packed public inputs of a finalized range, the dummy header range program returns
  byte for byte the packed public outputs of the header range circuit run by the honest prover.
\<close>

theorem dummy_header_range_matches_circuit:
  assumes "chain_prover N head bh hdr sid auths C B blake2b_256 ed25519_verify mapreduce"
    and "next_power_of_two (max_num_headers div HEADERS_PER_MAP) = 2 ^ k" and "3 + k < 32"
    and "a + 1 + HEADERS_PER_MAP * 2 ^ k < 2 ^ 32"
    and "a < b" and "b \<le> head" and "b \<le> a + HEADERS_PER_MAP * 2 ^ k"
    and "\<forall>n \<le> b. length (encode_header C (hdr n)) \<le> S" and "S < 2 ^ 32"
    and "HintSimpleJustification C N R chain db M (of_nat b) set_id = Inr j"
    and "supermajority M j (bh b) (of_nat b) set_id (auths (b - 1))"
    and "evm = \<lparr>hr_trusted_block = of_nat a, hr_trusted_header_hash = bh a, hr_authority_set_id = set_id,
      hr_authority_set_hash = chain_hash (curta_sha256 B) (auths (b - 1)), hr_target_block = of_nat b\<rparr>"
  shows "\<exists>out. header_range_circuit B mapreduce M max_num_headers
      (fetched_headers C N B S \<lparr>global_start_block = of_nat a, global_end_block = of_nat b\<rparr>) j evm = Some out \<and>
    DummyHeaderRange C N (HEADERS_PER_MAP * 2 ^ k) (packed_header_range_input evm) =
      Inr (packed_header_range_output out)"
  by (rule dummy_header_range_agrees) fact+

theorem dummy_header_range_matches_circuit_witness:
  "\<exists>bytes. DummyHeaderRange chain_crates demo_node (HEADERS_PER_MAP * 2 ^ 0) (packed_header_range_input
     \<lparr>hr_trusted_block = of_nat 7, hr_trusted_header_hash = demo_block_hash 7, hr_authority_set_id = of_nat 1,
      hr_authority_set_hash = chain_hash (curta_sha256 chain_gadgets) [replicate 32 7],
      hr_target_block = of_nat 10\<rparr>) = Inr bytes"
proof (rule demo_epoch_end_hint)
  fix j
  assume j: "HintSimpleJustification chain_crates demo_node mem_redis ''avail'' empty_db 2
      (of_nat 10) (of_nat 1) = Inr j"
    "supermajority 2 j (demo_block_hash 10) (of_nat 10) (of_nat 1) [replicate 32 7]"
  have "\<forall>n \<le> 10. length (encode_header chain_crates (demo_avail_header n)) \<le> 400"
    by (intro allI impI order_trans [OF demo_header_length]) simp_all
  from dummy_header_range_matches_circuit [OF demop.chain_prover_axioms demo_range_jobs _ _ _ _ _ this _ j(1) _ refl, of 7]
  show ?thesis
    using j by (simp add: HEADERS_PER_MAP_def) blast
qed

text \<open>
  C23: for an authority set with a last justified block, the dummy rotate program returns the
  commitment of the authorities of the state of that block, the value the rotate circuit returns
  when the header announces these authorities.
\<close>

theorem dummy_rotate_matches_circuit:
  assumes "chain_prover N head bh hdr sid auths C B blake2b_256 ed25519_verify mapreduce"
    and "epoch_end sid head t f"
    and "h_logs (hdr f) = pre @ Consensus [70, 82, 78, 75] (scheduled_change (auths f)) # post"
    and "\<forall>l \<in> set pre. \<forall>v. l \<noteq> Consensus [70, 82, 78, 75] v" and "length (h_logs (hdr f)) < 64"
    and "length (encode_header C (hdr f)) + 40 * M \<le> S" and "S < 2 ^ 32"
    and "length (auths f) \<le> M" and "auths f \<noteq> []" and "length set_hash = 32"
    and "verify_simple_justification B M (of_nat f) (bh f) (of_nat t) set_hash j = Some ()"
  shows "\<exists>rot out. RotateHint C N S M (of_nat t) = Inr rot \<and>
    rotate_circuit B M (M * VALIDATOR_LENGTH + DELAY_LENGTH) rot j (of_nat t) set_hash = Some out \<and>
    DummyRotate C N (packed_rotate_input (of_nat t) set_hash) = Inr out"
  using chain_prover.rotation_accepted [OF assms(1-9,11)] chain_prover.DummyRotate_ok [OF assms(1,2,9,10)]
  by blast

theorem dummy_rotate_matches_circuit_witness:
  "\<exists>out. DummyRotate chain_crates demo_node
     (packed_rotate_input (of_nat 1) (chain_hash (curta_sha256 chain_gadgets) [replicate 32 7])) = Inr out"
proof (rule demo_epoch_end_hint)
  fix j
  assume "HintSimpleJustification chain_crates demo_node mem_redis ''avail'' empty_db 2
      (of_nat 10) (of_nat 1) = Inr j"
    "supermajority 2 j (demo_block_hash 10) (of_nat 10) (of_nat 1) [replicate 32 7]"
  then have "verify_simple_justification chain_gadgets 2 (of_nat 10) (demo_block_hash 10) (of_nat 1)
      (chain_hash (curta_sha256 chain_gadgets) [replicate 32 7]) j = Some ()"
    by (rule demop.supermajority_accepted) simp
  from dummy_rotate_matches_circuit [OF demop.chain_prover_axioms demo_served(1) _ _ _ _ _ _ _ _ this,
      of "[]" "[]" 400]
  show ?thesis
    using demo_header_length [of 10]
    by (auto simp: demo_avail_header_def chain_hash_def demop.length_curta_sha256)
qed

end
