(* ===== verification/Operator.thy ===== *)
theory Operator
  imports Dummy
begin

text \<open>
  The operator service, \<open>bin/vectorx.rs\<close>: it reads the contract and the Avail node, and asks the
  prover network for a rotation or a header range. The contract's view methods, the node, the
  Redis server and the prover network are arguments; a method returns the requests submitted so
  far. The lemmas show which block a header range request names, and when a request is made.
\<close>

section \<open>Data\<close>

record VectorXConfig =
  cfg_address :: bytes
  cfg_chain_id :: u32

record VectorXOperator =
  op_config :: VectorXConfig
  op_is_dummy_operator :: bool

text \<open>The generated binding of the contract: each call may fail.\<close>

record contract_view =
  view_latest_block :: "u32 option"
  view_header_range_function_id :: "bytes option"
  view_rotate_function_id :: "bytes option"
  view_header_range_commitment_tree_size :: "u32 option"
  view_block_height_to_header_hash :: "u32 \<Rightarrow> bytes option"
  view_authority_set_id_to_hash :: "u64 \<Rightarrow> bytes option"

datatype contract_call = CommitHeaderRangeCall u64 u32 | RotateCall u64

record platform_request =
  rq_chain_id :: u32
  rq_address :: bytes
  rq_function_data :: contract_call
  rq_function_id :: bytes
  rq_input :: bytes

record HeaderRangeContractData =
  hc_vectorx_latest_block :: u32
  hc_avail_current_block :: u32
  hc_header_range_commitment_tree_size :: u32
  hc_next_authority_set_hash_exists :: bool
  hc_header_range_function_id :: bytes

record RotateContractData =
  rc_current_block :: u32
  rc_next_authority_set_hash_exists :: bool
  rc_rotate_function_id :: bytes

type_synonym prover_network = "platform_request \<Rightarrow> string result"

section \<open>Settings\<close>

definition get_loop_delay_mins :: "(string \<Rightarrow> string option) \<Rightarrow> u64 result" where
  "get_loop_delay_mins env =
     (case env ''LOOP_DELAY_MINS'' of
        None \<Rightarrow> Inr 15
      | Some loop_delay_mins_env \<Rightarrow>
          and_then (expect (parse_unsigned 64 loop_delay_mins_env) ''invalid LOOP_DELAY_MINS'')
            (\<lambda>n. Inr (of_nat n)))"

definition get_update_delay_blocks :: "(string \<Rightarrow> string option) \<Rightarrow> u32 result" where
  "get_update_delay_blocks env =
     (case env ''UPDATE_DELAY_BLOCKS'' of
        None \<Rightarrow> Inr 180
      | Some update_delay_blocks_env \<Rightarrow>
          and_then (expect (parse_unsigned 32 update_delay_blocks_env) ''invalid UPDATE_DELAY_BLOCKS'')
            (\<lambda>n. Inr (of_nat n)))"

text \<open>
  \<open>VectorXOperator::new\<close>: the parsers of the address and of the node's URL are those of the
  \<open>alloy\<close> and \<open>ethers\<close> packages.
\<close>

definition parse_bool :: "string \<Rightarrow> bool option" where
  "parse_bool s = (if s = ''true'' then Some True else if s = ''false'' then Some False else None)"

definition VectorXOperator_new ::
  "(string \<Rightarrow> bytes option) \<Rightarrow> (string \<Rightarrow> bool) \<Rightarrow> (string \<Rightarrow> string option) \<Rightarrow> VectorXOperator result"
where
  "VectorXOperator_new parse_address valid_url env =
     and_then (expect (env ''CONTRACT_ADDRESS'') ''CONTRACT_ADDRESS must be set'') (\<lambda>contract_address.
     and_then (expect (env ''CHAIN_ID'') ''CHAIN_ID must be set'') (\<lambda>chain_id.
     and_then (expect (parse_address contract_address) ''invalid address'') (\<lambda>address.
     and_then (expect (env ''ETHEREUM_RPC_URL'') ''ETHEREUM_RPC_URL must be set'') (\<lambda>ethereum_rpc_url.
     and_then (ensure (valid_url ethereum_rpc_url) ''could not connect to client'') (\<lambda>_.
     and_then (expect (parse_unsigned 32 chain_id) ''invalid chain id'') (\<lambda>chain_id.
     and_then (expect (env ''SUCCINCT_RPC_URL'') ''SUCCINCT_RPC_URL must be set'') (\<lambda>_.
     and_then (expect (env ''SUCCINCT_API_KEY'') ''SUCCINCT_API_KEY must be set'') (\<lambda>_.
     and_then (expect (parse_bool (case env ''IS_DUMMY_OPERATOR'' of None \<Rightarrow> ''false'' | Some s \<Rightarrow> s))
         unwrap_err) (\<lambda>is_dummy_operator.
     Inr \<lparr>op_config = \<lparr>cfg_address = address, cfg_chain_id = of_nat chain_id\<rparr>,
          op_is_dummy_operator = is_dummy_operator\<rparr>)))))))))"

section \<open>Requests\<close>

definition get_header_range_input_data :: "contract_view \<Rightarrow> u32 \<Rightarrow> u64 \<Rightarrow> (bytes \<times> bytes) result" where
  "get_header_range_input_data V trusted_block trusted_authority_set_id =
     and_then (expect (view_block_height_to_header_hash V trusted_block) unwrap_err) (\<lambda>trusted_header_hash.
     and_then (expect (view_authority_set_id_to_hash V trusted_authority_set_id) unwrap_err)
       (\<lambda>trusted_authority_set_hash.
     Inr (trusted_header_hash, trusted_authority_set_hash)))"

definition get_rotate_input_data :: "contract_view \<Rightarrow> u64 \<Rightarrow> bytes result" where
  "get_rotate_input_data V current_authority_set_id =
     expect (view_authority_set_id_to_hash V current_authority_set_id) unwrap_err"

definition request_header_range ::
  "VectorXOperator \<Rightarrow> contract_view \<Rightarrow> prover_network \<Rightarrow> u32 \<Rightarrow> u64 \<Rightarrow> u32 \<Rightarrow> bytes \<Rightarrow>
   platform_request list \<Rightarrow> (platform_request list \<times> string result) result"
where
  "request_header_range self V submit trusted_block trusted_authority_set_id target_block
     header_range_function_id requests =
     and_then (get_header_range_input_data V trusted_block trusted_authority_set_id)
       (\<lambda>(trusted_header_hash, trusted_authority_set_hash).
     let input = packed_header_range_input
           \<lparr>hr_trusted_block = trusted_block, hr_trusted_header_hash = trusted_header_hash,
            hr_authority_set_id = trusted_authority_set_id,
            hr_authority_set_hash = trusted_authority_set_hash, hr_target_block = target_block\<rparr>;
         request = \<lparr>rq_chain_id = cfg_chain_id (op_config self), rq_address = cfg_address (op_config self),
           rq_function_data = CommitHeaderRangeCall trusted_authority_set_id target_block,
           rq_function_id = header_range_function_id, rq_input = input\<rparr> in
     Inr (requests @ [request], submit request))"

definition request_rotate ::
  "VectorXOperator \<Rightarrow> contract_view \<Rightarrow> prover_network \<Rightarrow> u64 \<Rightarrow> bytes \<Rightarrow>
   platform_request list \<Rightarrow> (platform_request list \<times> string result) result"
where
  "request_rotate self V submit current_authority_set_id rotate_function_id requests =
     and_then (get_rotate_input_data V current_authority_set_id) (\<lambda>current_authority_set_hash.
     let input = packed_rotate_input current_authority_set_id current_authority_set_hash;
         request = \<lparr>rq_chain_id = cfg_chain_id (op_config self), rq_address = cfg_address (op_config self),
           rq_function_data = RotateCall current_authority_set_id,
           rq_function_id = rotate_function_id, rq_input = input\<rparr> in
     Inr (requests @ [request], submit request))"

definition get_contract_data_for_header_range ::
  "contract_view \<Rightarrow> avail_node \<Rightarrow> HeaderRangeContractData result"
where
  "get_contract_data_for_header_range V N =
     and_then (expect (view_header_range_function_id V) unwrap_err) (\<lambda>header_range_function_id.
     and_then (expect (view_latest_block V) unwrap_err) (\<lambda>vectorx_latest_block.
     and_then (expect (view_header_range_commitment_tree_size V) unwrap_err)
       (\<lambda>header_range_commitment_tree_size.
     and_then (get_head N) (\<lambda>head.
     let avail_current_block = h_number head in
     and_then (checked_sub vectorx_latest_block 1) (\<lambda>prev.
     and_then (get_authority_set_id N prev) (\<lambda>vectorx_current_authority_set_id.
     and_then (checked_add vectorx_current_authority_set_id 1) (\<lambda>next_authority_set_id.
     and_then (expect (view_authority_set_id_to_hash V next_authority_set_id) unwrap_err)
       (\<lambda>next_authority_set_hash.
     Inr \<lparr>hc_vectorx_latest_block = vectorx_latest_block,
          hc_avail_current_block = avail_current_block,
          hc_header_range_commitment_tree_size = header_range_commitment_tree_size,
          hc_next_authority_set_hash_exists = (next_authority_set_hash \<noteq> zero32),
          hc_header_range_function_id = header_range_function_id\<rparr>))))))))"

definition get_contract_data_for_rotate :: "contract_view \<Rightarrow> avail_node \<Rightarrow> RotateContractData result" where
  "get_contract_data_for_rotate V N =
     and_then (expect (view_rotate_function_id V) unwrap_err) (\<lambda>rotate_function_id.
     and_then (expect (view_latest_block V) unwrap_err) (\<lambda>current_block.
     and_then (checked_sub current_block 1) (\<lambda>prev.
     and_then (get_authority_set_id N prev) (\<lambda>current_authority_set_id.
     and_then (checked_add current_authority_set_id 1) (\<lambda>next_authority_set_id.
     and_then (expect (view_authority_set_id_to_hash V next_authority_set_id) unwrap_err)
       (\<lambda>next_authority_set_hash.
     Inr \<lparr>rc_current_block = current_block,
          rc_next_authority_set_hash_exists = (next_authority_set_hash \<noteq> zero32),
          rc_rotate_function_id = rotate_function_id\<rparr>))))))"

section \<open>Finding work\<close>

definition find_and_request_rotate ::
  "VectorXOperator \<Rightarrow> contract_view \<Rightarrow> avail_node \<Rightarrow> prover_network \<Rightarrow> platform_request list \<Rightarrow>
   platform_request list result"
where
  "find_and_request_rotate self V N submit requests =
     and_then (get_contract_data_for_rotate V N) (\<lambda>rotate_contract_data.
     and_then (get_head N) (\<lambda>head.
     let head_block = h_number head in
     and_then (checked_sub head_block 1) (\<lambda>head_prev.
     and_then (get_authority_set_id N head_prev) (\<lambda>head_authority_set_id.
     and_then (checked_sub (rc_current_block rotate_contract_data) 1) (\<lambda>prev.
     and_then (get_authority_set_id N prev) (\<lambda>current_authority_set_id.
     if current_authority_set_id < head_authority_set_id \<and>
        \<not> rc_next_authority_set_hash_exists rotate_contract_data
     then
       and_then (checked_add current_authority_set_id 1) (\<lambda>_.
       and_then (request_rotate self V submit current_authority_set_id
           (rc_rotate_function_id rotate_contract_data) requests) (\<lambda>(requests, outcome).
       Inr requests))
     else Inr requests))))))"

text \<open>The search for a block with a justification, up to the end of the tree.\<close>

function step_loop ::
  "crates \<Rightarrow> avail_node \<Rightarrow> ('db, 'j) redis \<Rightarrow> string \<Rightarrow> 'db \<Rightarrow> u32 \<Rightarrow> u32 \<Rightarrow> u32 \<Rightarrow> u32 \<Rightarrow>
   u32 option result"
where
  "step_loop C N R avail_chain_id db ideal_block_interval vectorx_current_block limit block_to_step_to =
     (if limit < block_to_step_to then
        and_then (checked_add vectorx_current_block ideal_block_interval) (\<lambda>_. Inr None)
      else
        case get_justification_from_block C N R avail_chain_id db MAX_AUTHORITY_SET_SIZE block_to_step_to of
          Inr _ \<Rightarrow> Inr (Some block_to_step_to)
        | Inl (Panic e) \<Rightarrow> Inl (Panic e)
        | Inl (Failure _) \<Rightarrow>
            and_then (checked_add block_to_step_to 1) (\<lambda>block_to_step_to.
            step_loop C N R avail_chain_id db ideal_block_interval vectorx_current_block limit
              block_to_step_to))"
  by pat_completeness auto
termination
proof (relation "measure (\<lambda>(_, _, _, _, _, _, _, limit, b). unat limit + 1 - unat b)", goal_cases)
  case 1
  then show ?case by simp
next
  case (2 C N R chain db interval current limit b e m b')
  then have "unat b' = unat b + 1" "\<not> limit < b"
    using checked_add_Inr(1) [of b 1 b'] by simp_all
  then show ?case
    by (simp add: word_less_nat_alt)
qed

declare step_loop.simps [simp del]

definition find_block_to_step_to ::
  "VectorXOperator \<Rightarrow> crates \<Rightarrow> avail_node \<Rightarrow> ('db, 'j) redis \<Rightarrow> string \<Rightarrow> 'db \<Rightarrow> u32 \<Rightarrow> u32 \<Rightarrow> u32 \<Rightarrow>
   u32 \<Rightarrow> u64 \<Rightarrow> u32 option result"
where
  "find_block_to_step_to self C N R avail_chain_id db ideal_block_interval
     header_range_commitment_tree_size vectorx_current_block avail_current_block authority_set_id =
     and_then (last_justified_block N authority_set_id) (\<lambda>last_justified_block.
     and_then (if last_justified_block \<noteq> 0
         then and_then (checked_add vectorx_current_block header_range_commitment_tree_size)
           (\<lambda>limit. Inr (last_justified_block \<le> limit))
         else Inr False) (\<lambda>in_range.
     if in_range then Inr (Some last_justified_block)
     else
       and_then (checked_add vectorx_current_block header_range_commitment_tree_size) (\<lambda>limit.
       let max_valid_block_to_step_to = min limit avail_current_block in
       and_then (checked_rem max_valid_block_to_step_to ideal_block_interval) (\<lambda>r.
       and_then (checked_sub max_valid_block_to_step_to r) (\<lambda>block_to_step_to.
       if block_to_step_to \<le> vectorx_current_block then Inr None
       else if op_is_dummy_operator self then Inr (Some block_to_step_to)
       else step_loop C N R avail_chain_id db ideal_block_interval vectorx_current_block limit
         block_to_step_to)))))"

definition find_and_request_header_range ::
  "VectorXOperator \<Rightarrow> contract_view \<Rightarrow> crates \<Rightarrow> avail_node \<Rightarrow> ('db, 'j) redis \<Rightarrow> string \<Rightarrow> 'db \<Rightarrow>
   prover_network \<Rightarrow> u32 \<Rightarrow> platform_request list \<Rightarrow> platform_request list result"
where
  "find_and_request_header_range self V C N R avail_chain_id db submit ideal_block_interval requests =
     and_then (get_contract_data_for_header_range V N) (\<lambda>data.
     and_then (checked_sub (hc_vectorx_latest_block data) 1) (\<lambda>prev.
     and_then (get_authority_set_id N prev) (\<lambda>current_authority_set_id.
     and_then (last_justified_block N current_authority_set_id) (\<lambda>last_justified_block.
     let step = (\<lambda>request_authority_set_id.
       and_then (find_block_to_step_to self C N R avail_chain_id db ideal_block_interval
           (hc_header_range_commitment_tree_size data) (hc_vectorx_latest_block data)
           (hc_avail_current_block data) request_authority_set_id) (\<lambda>block_to_step_to.
       case block_to_step_to of
         None \<Rightarrow> Inr requests
       | Some target_block \<Rightarrow>
           and_then (request_header_range self V submit (hc_vectorx_latest_block data)
               request_authority_set_id target_block (hc_header_range_function_id data) requests)
             (\<lambda>(requests, outcome). Inr requests))) in
     if hc_vectorx_latest_block data = last_justified_block then
       and_then (checked_add current_authority_set_id 1) (\<lambda>next_authority_set_id.
       if \<not> hc_next_authority_set_hash_exists data then Inr requests
       else step next_authority_set_id)
     else step current_authority_set_id))))"

section \<open>The service loop\<close>

text \<open>
  Every pass of the loop sees the world as it is then: the contract, the node, the database and
  the environment of one pass.
\<close>

record 'db world =
  w_view :: contract_view
  w_node :: avail_node
  w_db :: 'db
  w_env :: "string \<Rightarrow> string option"

definition run_pass ::
  "VectorXOperator \<Rightarrow> crates \<Rightarrow> ('db, 'j) redis \<Rightarrow> string \<Rightarrow> prover_network \<Rightarrow> 'db world \<Rightarrow>
   platform_request list \<Rightarrow> platform_request list result"
where
  "run_pass self C R avail_chain_id submit w requests =
     and_then (get_loop_delay_mins (w_env w)) (\<lambda>loop_delay_mins.
     and_then (get_update_delay_blocks (w_env w)) (\<lambda>block_interval.
     and_then (find_and_request_rotate self (w_view w) (w_node w) submit requests) (\<lambda>requests.
     and_then (find_and_request_header_range self (w_view w) C (w_node w) R avail_chain_id (w_db w) submit
         block_interval requests) (\<lambda>requests.
     and_then (checked_mul 60 loop_delay_mins) (\<lambda>_. Inr requests)))))"

fun run :: "VectorXOperator \<Rightarrow> crates \<Rightarrow> ('db, 'j) redis \<Rightarrow> string \<Rightarrow> prover_network \<Rightarrow> 'db world list \<Rightarrow>
  platform_request list \<Rightarrow> platform_request list result"
where
  "run self C R avail_chain_id submit [] requests = Inr requests"
| "run self C R avail_chain_id submit (w # ws) requests =
     and_then (run_pass self C R avail_chain_id submit w requests)
       (run self C R avail_chain_id submit ws)"

section \<open>The search loop\<close>

lemma step_loop_bounds:
  "step_loop C N R chain db interval current limit b = Inr (Some r) \<Longrightarrow> b \<le> r \<and> r \<le> limit"
proof (induction C N R chain db interval current limit b rule: step_loop.induct)
  case (1 C N R chain db interval current limit b)
  show ?case
  proof (cases "limit < b")
    case True
    with 1(2) show ?thesis
      by (subst (asm) step_loop.simps) (auto elim: and_then_Inr_E)
  next
    case False
    let ?j = "get_justification_from_block C N R chain db MAX_AUTHORITY_SET_SIZE b"
    consider x where "?j = Inr x" | e where "?j = Inl (Panic e)" | e where "?j = Inl (Failure e)"
      by (metis fault.exhaust obj_sumE)
    then show ?thesis
    proof cases
      case 1
      with \<open>step_loop C N R chain db interval current limit b = Inr (Some r)\<close> False show ?thesis
        by (subst (asm) step_loop.simps) (simp add: not_less)
    next
      case 2
      with 1(2) False show ?thesis
        by (subst (asm) step_loop.simps) simp
    next
      case 3
      with 1(2) False obtain b' where b': "checked_add b 1 = Inr b'"
          "step_loop C N R chain db interval current limit b' = Inr (Some r)"
        by (subst (asm) step_loop.simps) (auto elim: and_then_Inr_E)
      have "b \<le> b'"
        using checked_add_Inr(1) [OF b'(1)] by (simp add: word_le_nat_alt)
      then show ?thesis
        using 1(1) [OF False 3 refl b'] by (auto intro: order_trans)
    qed
  qed
qed

text \<open>Blocks without a justification are skipped.\<close>

lemma step_loop_skip:
  assumes "\<And>n. b \<le> n \<Longrightarrow> n < c \<Longrightarrow>
      \<exists>e. get_justification_from_block C N R chain db MAX_AUTHORITY_SET_SIZE (of_nat n) = Inl (Failure e)"
    and "b \<le> c" and "c \<le> unat limit + 1" and "c < 2 ^ 32"
  shows "step_loop C N R chain db interval current limit (of_nat b) =
    step_loop C N R chain db interval current limit (of_nat c)"
  using assms(2,1,3,4)
proof (induction c rule: dec_induct)
  case base
  show ?case by (rule refl)
next
  case (step n)
  have n: "unat (of_nat n :: u32) = n"
    using step.prems(3) by (intro unat_of_nat_small) simp
  have nxt: "checked_add (of_nat n :: u32) 1 = Inr (of_nat (Suc n))"
    unfolding checked_add_def n using step.prems(3) by simp
  obtain e where "get_justification_from_block C N R chain db MAX_AUTHORITY_SET_SIZE (of_nat n) = Inl (Failure e)"
    using step.prems(1) step.hyps by blast
  moreover have "\<not> limit < of_nat n"
    using step.prems(2) n by (simp add: word_less_nat_alt)
  ultimately have "step_loop C N R chain db interval current limit (of_nat n) =
      step_loop C N R chain db interval current limit (of_nat (Suc n))"
    using nxt by (subst step_loop.simps) simp
  moreover have "step_loop C N R chain db interval current limit (of_nat b) =
      step_loop C N R chain db interval current limit (of_nat n)"
    using step.prems(2,3) by (intro step.IH step.prems(1)) simp_all
  ultimately show ?case by simp
qed

section \<open>The operator on a chain\<close>

text \<open>The request a header range pass makes, and the one a rotation pass makes.\<close>

definition header_range_request ::
  "VectorXOperator \<Rightarrow> bytes \<Rightarrow> u32 \<Rightarrow> bytes \<Rightarrow> u64 \<Rightarrow> bytes \<Rightarrow> u32 \<Rightarrow> platform_request"
where
  "header_range_request self fid trusted_block header_hash set_id set_hash target =
     \<lparr>rq_chain_id = cfg_chain_id (op_config self), rq_address = cfg_address (op_config self),
      rq_function_data = CommitHeaderRangeCall set_id target, rq_function_id = fid,
      rq_input = packed_header_range_input
        \<lparr>hr_trusted_block = trusted_block, hr_trusted_header_hash = header_hash, hr_authority_set_id = set_id,
         hr_authority_set_hash = set_hash, hr_target_block = target\<rparr>\<rparr>"

definition rotation_request :: "VectorXOperator \<Rightarrow> bytes \<Rightarrow> u64 \<Rightarrow> bytes \<Rightarrow> platform_request" where
  "rotation_request self fid set_id set_hash =
     \<lparr>rq_chain_id = cfg_chain_id (op_config self), rq_address = cfg_address (op_config self),
      rq_function_data = RotateCall set_id, rq_function_id = fid,
      rq_input = packed_rotate_input set_id set_hash\<rparr>"

text \<open>
  A contract that answers its view methods, and whose latest block \<open>L\<close> is a finalized block of
  the chain: \<open>w\<close> is the size of its commitment trees, \<open>hh\<close> and \<open>sh\<close> are its two maps.
\<close>

locale operator_chain = avail_chain N head bh hdr sid auths
  for N :: avail_node and head :: nat and bh :: "nat \<Rightarrow> bytes" and hdr :: "nat \<Rightarrow> avail_header"
    and sid :: "nat \<Rightarrow> nat" and auths :: "nat \<Rightarrow> bytes list" +
  fixes V :: contract_view and L :: nat and w :: u32 and fid rfid :: bytes
    and hh :: "u32 \<Rightarrow> bytes" and sh :: "u64 \<Rightarrow> bytes"
  assumes L: "0 < L" "L \<le> head"
    and latest: "view_latest_block V = Some (of_nat L)"
    and tree_size: "view_header_range_commitment_tree_size V = Some w"
    and function_ids: "view_header_range_function_id V = Some fid" "view_rotate_function_id V = Some rfid"
    and header_hashes: "view_block_height_to_header_hash V b = Some (hh b)"
    and set_hashes: "view_authority_set_id_to_hash V i = Some (sh i)"
begin

lemmas views = latest tree_size function_ids header_hashes set_hashes

text \<open>The latest block of the contract ends an epoch exactly when its state has the next set id.\<close>

lemma latest_is_last_justified:
  shows "last_justified_block N (of_nat (sid (L - 1))) = Inr x \<Longrightarrow> of_nat L = x \<longleftrightarrow> sid L = sid (L - 1) + 1"
    and "\<exists>x. last_justified_block N (of_nat (sid (L - 1))) = Inr x"
    and "sid L \<noteq> sid (L - 1) + 1 \<Longrightarrow> sid L = sid (L - 1)"
proof -
  have t: "sid 0 \<le> sid (L - 1)" "sid (L - 1) + 1 < 2 ^ 64" "sid (L - 1) \<le> sid L"
    "sid L \<le> sid (L - 1) + 1"
    using set_id_mono [of 0 "L - 1"] set_id_mono [of "L - 1" L] set_id_bound [of "L - 1"]
      set_id_step [of "L - 1"] L by auto
  then show "sid L = sid (L - 1)" if "sid L \<noteq> sid (L - 1) + 1"
    using that by simp
  have iff: "of_nat L = x \<longleftrightarrow> sid L = sid (L - 1) + 1" if "last_justified_block N (of_nat (sid (L - 1))) = Inr x" for x
    using t(1,2)
  proof (cases rule: last_justified_cases)
    case none
    then have "sid L \<noteq> sid (L - 1) + 1" "of_nat L \<noteq> (0 :: u32)"
      using set_id_mono [of L head] L of_nat_block_eq [of L 0] by auto
    then show ?thesis
      using none that by simp
  next
    case (found f)
    then have "of_nat L = x \<longleftrightarrow> L = f"
      using that of_nat_block_eq [of L f] L by (simp add: epoch_end_def)
    also have "\<dots> \<longleftrightarrow> sid L = sid (L - 1) + 1"
      using epoch_end_unique [OF found(1), of L] found(1) L by (auto simp: epoch_end_def)
    finally show ?thesis .
  qed
  then show "last_justified_block N (of_nat (sid (L - 1))) = Inr x \<Longrightarrow> of_nat L = x \<longleftrightarrow> sid L = sid (L - 1) + 1"
    by blast
  show "\<exists>x. last_justified_block N (of_nat (sid (L - 1))) = Inr x"
    using t(1,2) by (cases rule: last_justified_cases) auto
qed

text \<open>
  The whole pass over the header range: the requested set is the one in the state of the latest
  block, and at an epoch end the contract has to know its hash.
\<close>

lemma find_and_request_header_range_eq:
  "find_and_request_header_range self V C N R chain db submit interval requests =
    (if sid L = sid (L - 1) + 1 \<and> sh (of_nat (sid (L - 1) + 1)) = zero32 then Inr requests
     else and_then (find_block_to_step_to self C N R chain db interval w (of_nat L) (of_nat head)
         (of_nat (sid L))) (\<lambda>b.
       case b of None \<Rightarrow> Inr requests
       | Some target \<Rightarrow> Inr (requests @ [header_range_request self fid (of_nat L) (hh (of_nat L))
           (of_nat (sid L)) (sh (of_nat (sid L))) target])))"
proof -
  have prev: "get_authority_set_id N (of_nat (L - 1)) = Inr (of_nat (sid (L - 1)))"
    using L by (intro get_authority_set_id_ok) simp
  have nxt: "checked_add (of_nat (sid (L - 1)) :: u64) 1 = Inr (of_nat (sid (L - 1) + 1))"
    using L by (intro next_set_id) simp
  have data: "get_contract_data_for_header_range V N =
      Inr \<lparr>hc_vectorx_latest_block = of_nat L, hc_avail_current_block = of_nat head,
        hc_header_range_commitment_tree_size = w, hc_next_authority_set_hash_exists = (sh (of_nat (sid (L - 1) + 1)) \<noteq> zero32),
        hc_header_range_function_id = fid\<rparr>"
    unfolding get_contract_data_for_header_range_def views expect_simps and_then_Inr get_head_ok Let_def
      prev_block [OF L] prev nxt by (simp add: block_number)
  obtain x where x: "last_justified_block N (of_nat (sid (L - 1))) = Inr x"
    using latest_is_last_justified(2) by blast
  note ends = latest_is_last_justified(1) [OF x]
  have request: "request_header_range self V submit (of_nat L) t b fid requests =
      Inr (requests @ [header_range_request self fid (of_nat L) (hh (of_nat L)) t (sh t) b],
        submit (header_range_request self fid (of_nat L) (hh (of_nat L)) t (sh t) b))" for t b
    by (simp add: request_header_range_def get_header_range_input_data_def views header_range_request_def Let_def)
  show ?thesis
  proof (cases "sid L = sid (L - 1) + 1")
    case True
    with ends x have x: "last_justified_block N (of_nat (sid (L - 1))) = Inr (of_nat L)"
      by simp
    have nxt: "checked_add (of_nat (sid (L - 1)) :: u64) 1 = Inr (of_nat (sid L))"
      using nxt True by simp
    show ?thesis
      unfolding find_and_request_header_range_def data and_then_Inr Let_def
      using True [symmetric] by (simp add: prev_block [OF L] prev x nxt request cong: option.case_cong del: One_nat_def of_nat_add of_nat_Suc)
  next
    case False
    then have same: "sid (L - 1) = sid L"
      using latest_is_last_justified(3) by simp
    have prev: "get_authority_set_id N (of_nat (L - 1)) = Inr (of_nat (sid L))"
      and x: "last_justified_block N (of_nat (sid L)) = Inr x"
      using prev x unfolding same by simp_all
    from False ends have "of_nat L \<noteq> x" by blast
    then show ?thesis
      unfolding find_and_request_header_range_def data and_then_Inr Let_def
      using False by (simp add: prev_block [OF L] prev x request cong: option.case_cong del: One_nat_def)
  qed
qed

text \<open>The search after the test for the end of the epoch.\<close>

lemma find_block_to_step_to_eq:
  assumes last: "last_justified_block N t = Inr x"
  shows "find_block_to_step_to self C N R chain db interval w current avail t =
    and_then (checked_add current w) (\<lambda>limit.
    if x \<noteq> 0 \<and> x \<le> limit then Inr (Some x)
    else and_then (checked_rem (min limit avail) interval) (\<lambda>r.
      and_then (checked_sub (min limit avail) r) (\<lambda>b0.
      if b0 \<le> current then Inr None else if op_is_dummy_operator self then Inr (Some b0)
      else step_loop C N R chain db interval current limit b0)))"
  unfolding find_block_to_step_to_def last
  by (cases "checked_add current w") (simp_all add: Let_def)

lemma searched_block_bounds:
  assumes "and_then (checked_rem m interval) (\<lambda>r. and_then (checked_sub m r) (\<lambda>b0.
      if b0 \<le> current then Inr None else if dummy then Inr (Some b0)
      else step_loop C N R chain db interval current limit b0)) = Inr (Some b)" and "m \<le> limit"
  shows "current < b" and "b \<le> limit"
proof -
  from assms(1) obtain r b0 where b0: "checked_sub m r = Inr b0" "\<not> b0 \<le> current"
      and b: "b0 = b \<or> step_loop C N R chain db interval current limit b0 = Inr (Some b)"
    by (auto elim!: and_then_Inr_E split: if_splits)
  have "b0 \<le> m"
    using checked_sub_Inr(1) [OF b0(1)] by (simp add: word_le_nat_alt)
  with b assms(2) have "b0 \<le> b \<and> b \<le> limit"
    using step_loop_bounds [of C N R chain db interval current limit b0 b] by auto
  with b0(2) show "current < b" "b \<le> limit"
    by (auto simp: not_le)
qed

lemma last_or_searched_block:
  assumes "last_justified_block N (of_nat (sid L)) = Inr x"
    and "find_block_to_step_to self C N R chain db interval w (of_nat L) (of_nat head) (of_nat (sid L)) = Inr (Some b)"
  shows "if x \<noteq> 0 \<and> unat x \<le> L + unat w then b = x else L < unat b \<and> unat b \<le> L + unat w"
proof -
  have L': "unat (of_nat L :: u32) = L"
    using L(2) head_bound by (intro unat_of_nat_small) simp
  obtain limit where limit: "checked_add (of_nat L) w = Inr limit"
    and rest: "(if x \<noteq> 0 \<and> x \<le> limit then Inr (Some x)
      else and_then (checked_rem (min limit (of_nat head)) interval) (\<lambda>r.
        and_then (checked_sub (min limit (of_nat head)) r) (\<lambda>b0.
        if b0 \<le> of_nat L then Inr None else if op_is_dummy_operator self then Inr (Some b0)
        else step_loop C N R chain db interval (of_nat L) limit b0))) = Inr (Some b)"
    using assms(2) unfolding find_block_to_step_to_eq [OF assms(1)] by (elim and_then_Inr_E)
  have lim: "unat limit = L + unat w"
    using checked_add_Inr(1) [OF limit] L' by simp
  show ?thesis
  proof (cases "x \<noteq> 0 \<and> x \<le> limit")
    case True
    then show ?thesis
      using rest lim by (simp add: word_le_nat_alt)
  next
    case False
    then show ?thesis
      using searched_block_bounds [OF rest [unfolded if_not_P [OF False]] min.cobounded1] L' lim
      by (auto simp: word_less_nat_alt word_le_nat_alt)
  qed
qed

lemma find_block_to_step_to_bounds:
  assumes found: "find_block_to_step_to self C N R chain db interval w (of_nat L) (of_nat head)
      (of_nat (sid L)) = Inr (Some b)"
  shows "L < unat b \<and> unat b \<le> L + unat w \<and> (unat b \<le> head \<longrightarrow> sid (unat b - 1) = sid L)"
proof -
  have t: "sid 0 \<le> sid L" "sid L + 1 < 2 ^ 64"
    using set_id_mono [of 0 L] set_id_bound [of L] L by auto
  have below: "sid (unat b - 1) = sid L" if "L < unat b" "unat b - 1 \<le> m" "m \<le> head" "sid m \<le> sid L" for m
    using that set_id_mono [of L "unat b - 1"] set_id_mono [of "unat b - 1" m]
    by (intro order_antisym) auto
  show ?thesis
    using t
  proof (cases rule: last_justified_cases)
    case none
    then show ?thesis
      using last_or_searched_block [OF none(2) assms] below [of head] by auto
  next
    case (found f)
    have f: "L < f" "f \<le> head" "sid (f - 1) = sid L"
      using found(1) set_id_mono [of f L] L by (auto simp: epoch_end_def intro: ccontr)
    have fz: "unat (of_nat f :: u32) = f" "of_nat f \<noteq> (0 :: u32)"
      using f head_bound of_nat_block_eq [of f 0] by (auto intro!: unat_of_nat_small)
    show ?thesis
    proof (cases "f \<le> L + unat w")
      case True
      then show ?thesis
        using last_or_searched_block [OF found(2) assms] f fz by simp
    next
      case False
      then show ?thesis
        using last_or_searched_block [OF found(2) assms] below [of "f - 1"] f fz by auto
    qed
  qed
qed

lemma find_and_request_rotate_eq:
  "find_and_request_rotate self V N submit requests =
    Inr (if sid (L - 1) < sid (head - 1) \<and> sh (of_nat (sid (L - 1) + 1)) = zero32
      then requests @ [rotation_request self rfid (of_nat (sid (L - 1))) (sh (of_nat (sid (L - 1))))]
      else requests)"
proof -
  have h: "0 < head" "L - 1 \<le> head" "head - 1 \<le> head"
    using L by auto
  note ids = get_authority_set_id_ok [OF h(2)] get_authority_set_id_ok [OF h(3)]
  have nxt: "checked_add (of_nat (sid (L - 1)) :: u64) 1 = Inr (of_nat (sid (L - 1) + 1))"
    using h(2) by (rule next_set_id)
  have data: "get_contract_data_for_rotate V N = Inr \<lparr>rc_current_block = of_nat L,
      rc_next_authority_set_hash_exists = (sh (of_nat (sid (L - 1) + 1)) \<noteq> zero32), rc_rotate_function_id = rfid\<rparr>"
    unfolding get_contract_data_for_rotate_def views expect_simps and_then_Inr prev_block [OF L] ids nxt
    by simp
  have less: "(of_nat (sid (L - 1)) :: u64) < of_nat (sid (head - 1)) \<longleftrightarrow> sid (L - 1) < sid (head - 1)"
    using set_id_bound [OF h(2)] set_id_bound [OF h(3)] unat_of_nat_small [of "sid (L - 1)", where 'a = 64]
      unat_of_nat_small [of "sid (head - 1)", where 'a = 64] by (simp add: word_less_nat_alt)
  have request: "request_rotate self V submit t rfid requests =
      Inr (requests @ [rotation_request self rfid t (sh t)], submit (rotation_request self rfid t (sh t)))" for t
    by (simp add: request_rotate_def get_rotate_input_data_def views rotation_request_def Let_def)
  show ?thesis
    unfolding find_and_request_rotate_def data get_head_ok and_then_Inr Let_def
      block_number [OF order_refl] prev_block [OF h(1) order_refl] ids
    by (simp add: prev_block [OF L] ids nxt less request del: One_nat_def of_nat_add of_nat_Suc)
qed

lemma limit_ok:
  assumes "L + unat w < 2 ^ 32"
  shows "checked_add (of_nat L) w = Inr (of_nat (L + unat w))"
  using assms unat_of_nat_small [of L, where 'a = 32] by (simp add: checked_add_def)

text \<open>The end of the epoch is requested as soon as it is in range.\<close>

lemma epoch_end_requested:
  assumes f: "epoch_end sid head (sid L) f" "f \<le> L + unat w" and w: "L + unat w < 2 ^ 32"
    and known: "sid L = sid (L - 1) + 1 \<Longrightarrow> sh (of_nat (sid L)) \<noteq> zero32"
  shows "find_and_request_header_range self V C N R chain db submit interval requests =
    Inr (requests @ [header_range_request self fid (of_nat L) (hh (of_nat L)) (of_nat (sid L))
      (sh (of_nat (sid L))) (of_nat f)])"
proof -
  have fh: "0 < f" "f \<le> head"
    using f(1) by (auto simp: epoch_end_def)
  have "last_justified_block N (of_nat (sid L)) = Inr (of_nat f)"
    using set_id_bound [OF L(2)] f(1) by (intro last_justified_block_eq(2))
  moreover have "of_nat f \<noteq> (0 :: u32)"
    using of_nat_block_eq [of f 0] fh by simp
  moreover have "(of_nat f :: u32) \<le> of_nat (L + unat w)"
    unfolding word_le_nat_alt using f(2) w unat_of_nat_small [of f, where 'a = 32]
      unat_of_nat_small [of "L + unat w", where 'a = 32] by simp
  ultimately have "find_block_to_step_to self C N R chain db interval w (of_nat L) (of_nat head)
      (of_nat (sid L)) = Inr (Some (of_nat f))"
    unfolding find_block_to_step_to_eq [OF \<open>last_justified_block N (of_nat (sid L)) = Inr (of_nat f)\<close>]
      limit_ok [OF w] by simp
  then show ?thesis
    unfolding find_and_request_header_range_eq using known by auto
qed

text \<open>
  Without the end of the epoch in range the search starts at a multiple of the interval.
\<close>

lemma last_justified_out_of_range:
  assumes "\<And>f. epoch_end sid head (sid L) f \<Longrightarrow> L + unat w < f" and w: "L + unat w < 2 ^ 32"
  obtains x where "last_justified_block N (of_nat (sid L)) = Inr x"
    and "\<not> (x \<noteq> 0 \<and> x \<le> of_nat (L + unat w))"
proof -
  have "sid 0 \<le> sid L" "sid L + 1 < 2 ^ 64"
    using set_id_mono [of 0 L] set_id_bound [OF L(2)] L by auto
  then show thesis
  proof (cases rule: last_justified_cases)
    case none
    from that [OF none(2)] show ?thesis by simp
  next
    case (found f)
    have "f \<le> head"
      using found(1) by (simp add: epoch_end_def)
    then have "unat (of_nat f :: u32) = f"
      using head_bound by (intro unat_of_nat_small) simp
    moreover have "unat (of_nat (L + unat w) :: u32) = L + unat w"
      using w by (intro unat_of_nat_small) simp
    ultimately have "\<not> (of_nat f :: u32) \<le> of_nat (L + unat w)"
      unfolding word_le_nat_alt using assms(1) [OF found(1)] by simp
    with that [OF found(2)] show ?thesis by blast
  qed
qed

lemma newest_out_of_range: "sid head \<le> sid L \<Longrightarrow> epoch_end sid head (sid L) f \<Longrightarrow> L + unat w < f"
  using set_id_mono [of f head] by (simp add: epoch_end_def)

lemma search_without_epoch_end:
  assumes no_end: "\<And>f. epoch_end sid head (sid L) f \<Longrightarrow> L + unat w < f" and w: "L + unat w < 2 ^ 32"
    and "interval \<noteq> 0"
    and known: "sid L = sid (L - 1) + 1 \<Longrightarrow> sh (of_nat (sid L)) \<noteq> zero32"
    and b: "b = min (L + unat w) head - min (L + unat w) head mod unat interval"
  shows "find_and_request_header_range self V C N R chain db submit interval requests =
    (if b \<le> L then Inr requests
     else if op_is_dummy_operator self
     then Inr (requests @ [header_range_request self fid (of_nat L) (hh (of_nat L)) (of_nat (sid L))
       (sh (of_nat (sid L))) (of_nat b)])
     else and_then (step_loop C N R chain db interval (of_nat L) (of_nat (L + unat w)) (of_nat b)) (\<lambda>b.
      case b of None \<Rightarrow> Inr requests
      | Some target \<Rightarrow> Inr (requests @ [header_range_request self fid (of_nat L) (hh (of_nat L))
          (of_nat (sid L)) (sh (of_nat (sid L))) target])))"
proof -
  let ?m = "min (L + unat w) head"
  obtain x where last: "last_justified_block N (of_nat (sid L)) = Inr x"
      "\<not> (x \<noteq> 0 \<and> x \<le> of_nat (L + unat w))"
    using last_justified_out_of_range [OF no_end w] .
  have small: "unat (of_nat n :: u32) = n" if "n \<le> L + unat w \<or> n \<le> head" for n
    using that w head_bound by (intro unat_of_nat_small) auto
  have m: "min (of_nat (L + unat w)) (of_nat head) = (of_nat ?m :: u32)"
    using small [of "L + unat w"] small [of head] by (simp add: min_def word_le_nat_alt del: of_nat_add)
  have um: "unat (of_nat ?m :: u32) = ?m"
    by (rule small) simp
  have r: "unat ((of_nat ?m :: u32) mod interval) = ?m mod unat interval"
    by (simp only: unat_mod um)
  have le: "(of_nat ?m :: u32) mod interval \<le> of_nat ?m"
    unfolding word_le_nat_alt r um by (rule mod_less_eq_dividend)
  have ub: "unat (of_nat b :: u32) = b"
    using b(1) by (intro small) auto
  then have "(of_nat ?m :: u32) - of_nat ?m mod interval = of_nat b"
    by (simp only: word_unat_eq_iff unat_sub [OF le] um r b(1))
  then have sub: "checked_sub (of_nat ?m) ((of_nat ?m :: u32) mod interval) = Inr (of_nat b)"
    using le by (simp add: checked_sub_def)
  have before: "(of_nat b :: u32) \<le> of_nat L \<longleftrightarrow> b \<le> L"
    using small [of L] by (simp add: word_le_nat_alt ub)
  have "find_block_to_step_to self C N R chain db interval w (of_nat L) (of_nat head)
      (of_nat (sid L)) = (if b \<le> L then Inr None
      else if op_is_dummy_operator self then Inr (Some (of_nat b))
      else step_loop C N R chain db interval (of_nat L) (of_nat (L + unat w)) (of_nat b))"
    unfolding find_block_to_step_to_eq [OF last(1)] limit_ok [OF w] and_then_Inr if_not_P [OF last(2)] m
    using assms(3) sub before by (simp add: checked_rem_def)
  moreover have "\<not> (sid L = sid (L - 1) + 1 \<and> sh (of_nat (sid (L - 1) + 1)) = zero32)"
    using known by metis
  ultimately show ?thesis
    unfolding find_and_request_header_range_eq by (simp only: if_False) simp
qed

lemma search_start:
  assumes no_end: "\<And>f. epoch_end sid head (sid L) f \<Longrightarrow> L + unat w < f" and w: "L + unat w < 2 ^ 32"
    and "interval \<noteq> 0"
    and known: "sid L = sid (L - 1) + 1 \<Longrightarrow> sh (of_nat (sid L)) \<noteq> zero32"
    and b: "b = min (L + unat w) head - min (L + unat w) head mod unat interval" "L < b"
    and "\<not> op_is_dummy_operator self"
  shows "find_and_request_header_range self V C N R chain db submit interval requests =
    and_then (step_loop C N R chain db interval (of_nat L) (of_nat (L + unat w)) (of_nat b)) (\<lambda>b.
      case b of None \<Rightarrow> Inr requests
      | Some target \<Rightarrow> Inr (requests @ [header_range_request self fid (of_nat L) (hh (of_nat L))
          (of_nat (sid L)) (sh (of_nat (sid L))) target]))"
  using search_without_epoch_end [OF no_end w assms(3) known b(1), of self C R chain db submit requests]
    b(2) assms(7) by simp

text \<open>The search ends at the first block for which it does not get an error.\<close>

lemma search_result:
  assumes start: "\<And>f. epoch_end sid head (sid L) f \<Longrightarrow> L + unat w < f" "L + unat w < 2 ^ 32" "interval \<noteq> 0"
      "sid L = sid (L - 1) + 1 \<Longrightarrow> sh (of_nat (sid L)) \<noteq> zero32"
      "b = min (L + unat w) head - min (L + unat w) head mod unat interval" "L < b"
      "\<not> op_is_dummy_operator self"
    and c: "b \<le> c" "c \<le> L + unat w"
    and skipped: "\<And>n. b \<le> n \<Longrightarrow> n < c \<Longrightarrow>
      \<exists>e. get_justification_from_block C N R chain db MAX_AUTHORITY_SET_SIZE (of_nat n) = Inl (Failure e)"
  shows "get_justification_from_block C N R chain db MAX_AUTHORITY_SET_SIZE (of_nat c) = Inr j \<Longrightarrow>
      find_and_request_header_range self V C N R chain db submit interval requests =
      Inr (requests @ [header_range_request self fid (of_nat L) (hh (of_nat L)) (of_nat (sid L))
        (sh (of_nat (sid L))) (of_nat c)])"
    and "get_justification_from_block C N R chain db MAX_AUTHORITY_SET_SIZE (of_nat c) = Inl (Panic e) \<Longrightarrow>
      find_and_request_header_range self V C N R chain db submit interval requests = Inl (Panic e)"
proof -
  have lim: "unat (of_nat (L + unat w) :: u32) = L + unat w" "unat (of_nat c :: u32) = c"
    using start(2) c(2) by (intro unat_of_nat_small; simp)+
  have "step_loop C N R chain db interval (of_nat L) (of_nat (L + unat w)) (of_nat b) =
      step_loop C N R chain db interval (of_nat L) (of_nat (L + unat w)) (of_nat c)"
    using c start(2) by (intro step_loop_skip skipped) (auto simp: lim simp del: of_nat_add)
  moreover have "\<not> (of_nat (L + unat w) :: u32) < of_nat c"
    unfolding word_less_nat_alt lim using c(2) by simp
  ultimately have loop: "step_loop C N R chain db interval (of_nat L) (of_nat (L + unat w)) (of_nat b) =
      (case get_justification_from_block C N R chain db MAX_AUTHORITY_SET_SIZE (of_nat c) of
         Inr _ \<Rightarrow> Inr (Some (of_nat c))
       | Inl (Panic e) \<Rightarrow> Inl (Panic e)
       | Inl (Failure _) \<Rightarrow> and_then (checked_add (of_nat c) 1)
           (step_loop C N R chain db interval (of_nat L) (of_nat (L + unat w))))"
    by (simp only: step_loop.simps [of C N R chain db interval "of_nat L" "of_nat (L + unat w)"
          "of_nat c"] if_False)
  note pass = search_start [OF start, of C R chain db submit requests, unfolded loop]
  show "find_and_request_header_range self V C N R chain db submit interval requests =
      Inr (requests @ [header_range_request self fid (of_nat L) (hh (of_nat L)) (of_nat (sid L))
        (sh (of_nat (sid L))) (of_nat c)])"
    if "get_justification_from_block C N R chain db MAX_AUTHORITY_SET_SIZE (of_nat c) = Inr j"
    by (subst pass) (simp_all add: that)
  show "find_and_request_header_range self V C N R chain db submit interval requests = Inl (Panic e)"
    if "get_justification_from_block C N R chain db MAX_AUTHORITY_SET_SIZE (of_nat c) = Inl (Panic e)"
    by (subst pass) (simp_all add: that)
qed

text \<open>Without a justification in the whole tree nothing is requested.\<close>

lemma search_exhausted:
  assumes start: "\<And>f. epoch_end sid head (sid L) f \<Longrightarrow> L + unat w < f" "L + unat w < 2 ^ 32" "interval \<noteq> 0"
      "sid L = sid (L - 1) + 1 \<Longrightarrow> sh (of_nat (sid L)) \<noteq> zero32"
      "b = min (L + unat w) head - min (L + unat w) head mod unat interval" "L < b"
      "\<not> op_is_dummy_operator self"
    and room: "L + unat w + 1 < 2 ^ 32" "L + unat interval < 2 ^ 32"
    and skipped: "\<And>n. b \<le> n \<Longrightarrow> n \<le> L + unat w \<Longrightarrow>
      \<exists>e. get_justification_from_block C N R chain db MAX_AUTHORITY_SET_SIZE (of_nat n) = Inl (Failure e)"
  shows "find_and_request_header_range self V C N R chain db submit interval requests = Inr requests"
proof -
  let ?c = "L + unat w + 1"
  have lim: "unat (of_nat (L + unat w) :: u32) = L + unat w" "unat (of_nat ?c :: u32) = ?c"
    using room(1) by (intro unat_of_nat_small; simp)+
  have "step_loop C N R chain db interval (of_nat L) (of_nat (L + unat w)) (of_nat b) =
      step_loop C N R chain db interval (of_nat L) (of_nat (L + unat w)) (of_nat ?c)"
    using start(5) room(1) by (intro step_loop_skip skipped) (auto simp: lim simp del: of_nat_add)
  moreover have "(of_nat (L + unat w) :: u32) < of_nat ?c"
    unfolding word_less_nat_alt lim by simp
  moreover have "checked_add (of_nat L :: u32) interval = Inr (of_nat L + interval)"
    using room(2) unat_of_nat_small [of L, where 'a = 32] start(2) by (simp add: checked_add_def)
  ultimately have "step_loop C N R chain db interval (of_nat L) (of_nat (L + unat w)) (of_nat b) = Inr None"
    by (simp only: step_loop.simps [of C N R chain db interval "of_nat L" "of_nat (L + unat w)"
          "of_nat ?c"] if_True and_then_Inr)
  then show ?thesis
    by (subst search_start [OF start]) simp_all
qed

text \<open>Without one, the search leaves the chain the node has.\<close>

lemma search_past_tip:
  assumes start: "sid head \<le> sid L" "L + unat w < 2 ^ 32" "interval \<noteq> 0"
      "sid L = sid (L - 1) + 1 \<Longrightarrow> sh (of_nat (sid L)) \<noteq> zero32"
      "b = min (L + unat w) head - min (L + unat w) head mod unat interval" "L < b"
      "\<not> op_is_dummy_operator self"
    and tip: "b \<le> tip" "tip < L + unat w" "chain_get_block_hash N (of_nat (tip + 1)) = None"
    and skipped: "\<And>n. b \<le> n \<Longrightarrow> n \<le> tip \<Longrightarrow>
      \<exists>e. get_justification_from_block C N R chain db MAX_AUTHORITY_SET_SIZE (of_nat n) = Inl (Failure e)"
  shows "find_and_request_header_range self V C N R chain db submit interval requests =
    Inl (Panic ''called `unwrap()` on a missing block hash'')"
proof -
  have lim: "unat (of_nat (L + unat w) :: u32) = L + unat w" "unat (of_nat (tip + 1) :: u32) = tip + 1"
    using start(2) tip(2) by (intro unat_of_nat_small; simp)+
  have "step_loop C N R chain db interval (of_nat L) (of_nat (L + unat w)) (of_nat b) =
      step_loop C N R chain db interval (of_nat L) (of_nat (L + unat w)) (of_nat (tip + 1))"
    using tip(1,2) start(2) by (intro step_loop_skip skipped) (auto simp: lim simp del: of_nat_add)
  moreover have "get_justification_from_block C N R chain db MAX_AUTHORITY_SET_SIZE (of_nat (tip + 1)) =
      Inl (Panic ''called `unwrap()` on a missing block hash'')"
    using tip(3) by (simp add: get_justification_from_block_def get_justification_data_def
        get_authority_set_id_def get_block_hash_def)
  moreover have "\<not> (of_nat (L + unat w) :: u32) < of_nat (tip + 1)"
    unfolding word_less_nat_alt lim using tip(2) by simp
  ultimately have "step_loop C N R chain db interval (of_nat L) (of_nat (L + unat w)) (of_nat b) =
      Inl (Panic ''called `unwrap()` on a missing block hash'')"
    by (simp only: step_loop.simps [of C N R chain db interval "of_nat L" "of_nat (L + unat w)"
          "of_nat (tip + 1)"] if_False sum.case fault.case)
  then show ?thesis
    using start newest_out_of_range by (subst search_start) (assumption | simp)+
qed

end

section \<open>A contract that answers\<close>

definition answering_view ::
  "u32 \<Rightarrow> u32 \<Rightarrow> bytes \<Rightarrow> bytes \<Rightarrow> (u32 \<Rightarrow> bytes) \<Rightarrow> (u64 \<Rightarrow> bytes) \<Rightarrow> contract_view"
where
  "answering_view latest w fid rfid hh sh =
     \<lparr>view_latest_block = Some latest, view_header_range_function_id = Some fid,
      view_rotate_function_id = Some rfid, view_header_range_commitment_tree_size = Some w,
      view_block_height_to_header_hash = \<lambda>b. Some (hh b), view_authority_set_id_to_hash = \<lambda>i. Some (sh i)\<rparr>"

lemma answering_view:
  assumes "avail_chain N head bh hdr sid auths" and "0 < L" and "L \<le> head"
  shows "operator_chain N head bh hdr sid auths (answering_view (of_nat L) w fid rfid hh sh) L w fid rfid hh sh"
  using assms by (intro operator_chain.intro operator_chain_axioms.intro) (simp_all add: answering_view_def)

text \<open>A contract at block 7 of the demonstration chain, and one in the newest epoch of a longer chain.\<close>

definition demo_operator :: VectorXOperator where
  "demo_operator = \<lparr>op_config = \<lparr>cfg_address = replicate 20 1, cfg_chain_id = 1\<rparr>, op_is_dummy_operator = False\<rparr>"

definition demo_set_hash :: "u64 \<Rightarrow> bytes" where
  "demo_set_hash i = (if i \<le> 4 then replicate 32 5 else zero32)"

definition demo_view :: "nat \<Rightarrow> contract_view" where
  "demo_view L = answering_view (of_nat L) 8 (replicate 32 1) (replicate 32 2)
     (\<lambda>b. demo_block_hash (unat b)) demo_set_hash"

definition long_node :: avail_node where
  "long_node =
     chain_node 23 demo_block_hash demo_avail_header (\<lambda>n. n div 5) (\<lambda>_. [replicate 32 7]) (\<lambda>_. Some [])"

interpretation longn: avail_chain long_node 23 demo_block_hash demo_avail_header "\<lambda>n. n div 5"
  "\<lambda>_. [replicate 32 7]"
  unfolding long_node_def
  by (rule chain_node)
    (auto simp: demo_avail_header_def div_le_mono intro: div_le_mono demo_block_hash_inj)

interpretation demoo: operator_chain demo_node 20 demo_block_hash demo_avail_header "\<lambda>n. n div 5"
  "\<lambda>_. [replicate 32 7]" "demo_view 7" 7 8 "replicate 32 1" "replicate 32 2"
  "\<lambda>b. demo_block_hash (unat b)" demo_set_hash
  unfolding demo_view_def by (rule answering_view) (rule demon.avail_chain_axioms, simp_all)

interpretation longo: operator_chain long_node 23 demo_block_hash demo_avail_header "\<lambda>n. n div 5"
  "\<lambda>_. [replicate 32 7]" "demo_view 20" 20 8 "replicate 32 1" "replicate 32 2"
  "\<lambda>b. demo_block_hash (unat b)" demo_set_hash
  unfolding demo_view_def by (rule answering_view) (rule longn.avail_chain_axioms, simp_all)

text \<open>The justifications the store has for the longer chain.\<close>

lemma long_set_ids: "get_authority_set_id long_node 21 = Inr 4" "get_authority_set_id long_node 22 = Inr 4"
  "get_authority_set_id long_node 23 = Inr 4"
  using longn.get_authority_set_id_ok [of 21] longn.get_authority_set_id_ok [of 22]
    longn.get_authority_set_id_ok [of 23] by simp_all

definition long_db :: mem_db where
  "long_db = empty_db\<lparr>mem_json := (\<lambda>_. None)(justification_key ''avail'' 22 \<mapsto>
     \<lparr>sj_block_number = 22, sj_signed_message = encode_precommit (demo_block_hash 22) 22 1 4,
      sj_pubkeys = [replicate 32 7], sj_signatures = [replicate 64 7],
      sj_validator_signed = [True], sj_num_authorities = 1\<rparr>)\<rparr>"

lemma long_justified:
  "\<exists>j. get_justification_from_block chain_crates long_node mem_redis ''avail'' long_db M 22 = Inr j"
proof -
  have store: "get_justification mem_redis ''avail'' 22 long_db =
      Inr \<lparr>sj_block_number = 22, sj_signed_message = encode_precommit (demo_block_hash 22) 22 1 4,
        sj_pubkeys = [replicate 32 7], sj_signatures = [replicate 64 7],
        sj_validator_signed = [True], sj_num_authorities = 1\<rparr>"
    by (simp add: get_justification_def long_db_def connection_def get_connection_def
        MAX_RECONNECT_ATTEMPTS_def mem_redis_def upt_rec)
  have data: "get_justification_data chain_crates long_node mem_redis ''avail'' long_db M 22 =
      Inr \<lparr>sd_pubkeys = [replicate 32 7], sd_signatures = [replicate 64 7], sd_validator_signed = [True],
        sd_signed_message = encode_precommit (demo_block_hash 22) 22 1 4,
        sd_voting_weight = 1, sd_num_authorities = 1\<rparr>"
    by (simp add: get_justification_data_def long_set_ids stored_data_def store checked_add_def
        checked_sub_def host_crates.edwards_from_slice [OF chain_crates])
  show ?thesis
    by (subst host_crates.get_justification_from_block_ok [OF chain_crates data, of 21 4 1])
      (simp_all add: checked_sub_def long_set_ids)
qed

lemma long_unjustified:
  assumes "22 \<le> n" and "n \<le> 23"
  shows "\<exists>e. get_justification_from_block chain_crates long_node mem_redis ''avail'' empty_db M (of_nat n) =
    Inl (Failure e)"
proof -
  have store: "get_justification mem_redis ''avail'' b empty_db =
      Inl (Failure ''Failed to deserialize justification'')" for b
    by (simp add: get_justification_def connection_def get_connection_def empty_db_def
        MAX_RECONNECT_ATTEMPTS_def mem_redis_def upt_rec)
  consider "n = 22" | "n = 23"
    using assms by linarith
  then show ?thesis
    by cases (simp_all add: get_justification_from_block_def get_justification_data_def long_set_ids
        checked_sub_def checked_add_def stored_data_def store)
qed

section \<open>Properties\<close>

text \<open>
  C14: a pass over the header range makes at most one request. It names the authority set in the
  state of the contract's latest block, the hashes the contract stores for that block and that set,
  and a target block that is newer than the latest block and within one commitment tree of it; a
  finalized target is one that this authority set justifies.
\<close>

theorem header_range_request_in_range:
  assumes "operator_chain N head bh hdr sid auths V L w fid rfid hh sh"
    and "find_and_request_header_range self V C N R chain db submit interval requests = Inr requests'"
  shows "requests' = requests \<or>
    (\<exists>b. requests' = requests @ [header_range_request self fid (of_nat L) (hh (of_nat L)) (of_nat (sid L))
         (sh (of_nat (sid L))) b] \<and>
       L < unat b \<and> unat b \<le> L + unat w \<and> (unat b \<le> head \<longrightarrow> sid (unat b - 1) = sid L))"
  using assms(2) operator_chain.find_block_to_step_to_bounds [OF assms(1), of self C R chain db interval]
  unfolding operator_chain.find_and_request_header_range_eq [OF assms(1)]
  by (fastforce elim!: and_then_Inr_E split: if_splits option.splits)

theorem header_range_request_in_range_witness:
  "find_and_request_header_range demo_operator (demo_view 7) chain_crates demo_node mem_redis ''avail'' empty_db
     (\<lambda>_. Inr []) 180 [] =
     Inr [header_range_request demo_operator (replicate 32 1) 7 (demo_block_hash 7) 1 (demo_set_hash 1) 10] \<and>
   (\<exists>b. [header_range_request demo_operator (replicate 32 1) 7 (demo_block_hash 7) 1 (demo_set_hash 1) 10] =
      [header_range_request demo_operator (replicate 32 1) 7 (demo_block_hash 7) 1 (demo_set_hash 1) b] \<and>
      7 < unat b \<and> unat b \<le> 15)"
proof -
  have run: "find_and_request_header_range demo_operator (demo_view 7) chain_crates demo_node mem_redis ''avail''
      empty_db (\<lambda>_. Inr []) 180 [] =
      Inr [header_range_request demo_operator (replicate 32 1) 7 (demo_block_hash 7) 1 (demo_set_hash 1) 10]"
    using demoo.epoch_end_requested [of 10 demo_operator chain_crates mem_redis "''avail''" empty_db "\<lambda>_. Inr []" 180 "[]"] by (simp add: epoch_end_def demo_set_hash_def)
  from header_range_request_in_range [OF demoo.operator_chain_axioms run] run show ?thesis
    by auto
qed

text \<open>
  C15: what a pass over the header range requests, when the contract knows the hash of the authority
  set in the state of its latest block \<open>L\<close> and the interval is not zero. If the epoch of this set
  ends within one commitment tree, exactly its last block. Otherwise, in the newest epoch or in one
  that ends beyond the tree, let \<open>b\<close> be the greatest multiple of the update interval up to the end
  of the tree and the head of the chain: nothing if \<open>b\<close> is not newer than \<open>L\<close>; \<open>b\<close> itself by a dummy
  operator; and else the first block from \<open>b\<close> on, within the tree, that has a justification. A
  justified block below \<open>b\<close> is not tried. A panic on the way ends the pass, and when all blocks of
  the tree from \<open>b\<close> on fail nothing is requested.
\<close>

theorem header_range_requested:
  assumes "operator_chain N head bh hdr sid auths V L w fid rfid hh sh"
    and "L + unat w + 1 < 2 ^ 32" and "sh (of_nat (sid L)) \<noteq> zero32"
  shows "let pass = find_and_request_header_range self V C N R chain db submit interval requests;
      request_of = (\<lambda>n. header_range_request self fid (of_nat L) (hh (of_nat L)) (of_nat (sid L))
        (sh (of_nat (sid L))) (of_nat n));
      justified = (\<lambda>n. get_justification_from_block C N R chain db MAX_AUTHORITY_SET_SIZE (of_nat n));
      fails = (\<lambda>n. \<exists>e. justified n = Inl (Failure e)) in
    (epoch_end sid head (sid L) f \<and> f \<le> L + unat w \<longrightarrow> pass = Inr (requests @ [request_of f])) \<and>
    ((\<forall>f \<le> L + unat w. \<not> epoch_end sid head (sid L) f) \<and> interval \<noteq> 0 \<and>
      b = min (L + unat w) head - min (L + unat w) head mod unat interval \<longrightarrow>
      (b \<le> L \<longrightarrow> pass = Inr requests) \<and>
      (L < b \<and> op_is_dummy_operator self \<longrightarrow> pass = Inr (requests @ [request_of b])) \<and>
      (L < b \<and> \<not> op_is_dummy_operator self \<and> b \<le> c \<and> c \<le> L + unat w \<and>
          (\<forall>n. b \<le> n \<and> n < c \<longrightarrow> fails n) \<longrightarrow>
        ((\<exists>j. justified c = Inr j) \<longrightarrow> pass = Inr (requests @ [request_of c])) \<and>
        (\<forall>e. justified c = Inl (Panic e) \<longrightarrow> pass = Inl (Panic e))) \<and>
      (L < b \<and> \<not> op_is_dummy_operator self \<and> L + unat interval < 2 ^ 32 \<and>
          (\<forall>n. b \<le> n \<and> n \<le> L + unat w \<longrightarrow> fails n) \<longrightarrow> pass = Inr requests))"
proof -
  have w: "L + unat w < 2 ^ 32"
    using assms(2) by simp
  note first = operator_chain.epoch_end_requested [OF assms(1) _ _ w assms(3)]
  have none: "L + unat w < f" if "\<forall>f \<le> L + unat w. \<not> epoch_end sid head (sid L) f"
    "epoch_end sid head (sid L) f" for f
    using that by (meson not_le)
  note start = operator_chain.search_without_epoch_end [OF assms(1) none w _ assms(3)]
  note result = operator_chain.search_result [OF assms(1) none w _ assms(3)]
  note exhausted = operator_chain.search_exhausted [OF assms(1) none w _ assms(3) _ _ _ assms(2)]
  show ?thesis
    unfolding Let_def
  proof ((intro conjI impI allI; (elim conjE exE)?), goal_cases)
    case 1
    then show ?case by (rule first)
  next
    case 2
    then show ?case by (subst start) (assumption | simp)+
  next
    case 3
    then show ?case by (subst start) (assumption | simp)+
  next
    case 4
    then show ?case by (intro result(1)) (assumption | blast)+
  next
    case 5
    then show ?case by (intro result(2)) (assumption | blast)+
  next
    case 6
    then show ?case by (intro exhausted) (assumption | blast)+
  qed
qed

theorem header_range_requested_witness:
  "find_and_request_header_range demo_operator (demo_view 7) chain_crates demo_node mem_redis ''avail'' empty_db
     (\<lambda>_. Inr []) 180 [] =
     Inr [header_range_request demo_operator (replicate 32 1) 7 (demo_block_hash 7) 1 (demo_set_hash 1) 10] \<and>
   find_and_request_header_range demo_operator (demo_view 20) chain_crates long_node mem_redis ''avail'' long_db
     (\<lambda>_. Inr []) 2 [] =
     Inr [header_range_request demo_operator (replicate 32 1) 20 (demo_block_hash 20) 4 (demo_set_hash 4) 22] \<and>
   find_and_request_header_range (demo_operator\<lparr>op_is_dummy_operator := True\<rparr>) (demo_view 20) chain_crates
     long_node mem_redis ''avail'' empty_db (\<lambda>_. Inr []) 2 [] =
     Inr [header_range_request (demo_operator\<lparr>op_is_dummy_operator := True\<rparr>) (replicate 32 1) 20
       (demo_block_hash 20) 4 (demo_set_hash 4) 22]"
proof (intro conjI)
  show "find_and_request_header_range demo_operator (demo_view 7) chain_crates demo_node mem_redis ''avail'' empty_db
     (\<lambda>_. Inr []) 180 [] =
     Inr [header_range_request demo_operator (replicate 32 1) 7 (demo_block_hash 7) 1 (demo_set_hash 1) 10]"
    using header_range_requested [where self = demo_operator and C = chain_crates and R = mem_redis
          and chain = "''avail''" and db = empty_db and submit = "\<lambda>_. Inr []" and interval = 180
          and requests = "[]" and f = 10,
        OF demoo.operator_chain_axioms, unfolded Let_def, THEN conjunct1]
    by (simp add: epoch_end_def demo_set_hash_def)
  have none: "\<not> epoch_end (\<lambda>n. n div 5) 23 (20 div 5) f" for f
    by (auto simp: epoch_end_def)
  have below: "\<not> (22 \<le> n \<and> n < 22)" for n :: nat
    by simp
  show "find_and_request_header_range demo_operator (demo_view 20) chain_crates long_node mem_redis ''avail'' long_db
     (\<lambda>_. Inr []) 2 [] =
     Inr [header_range_request demo_operator (replicate 32 1) 20 (demo_block_hash 20) 4 (demo_set_hash 4) 22]"
    using header_range_requested [where self = demo_operator and C = chain_crates and R = mem_redis
          and chain = "''avail''" and db = long_db and submit = "\<lambda>_. Inr []" and interval = 2
          and requests = "[]" and b = 22 and c = 22,
        OF longo.operator_chain_axioms, unfolded Let_def, THEN conjunct2, THEN mp, THEN conjunct2,
        THEN conjunct2, THEN conjunct1, THEN mp]
      long_justified [of MAX_AUTHORITY_SET_SIZE] none
    by (simp add: demo_set_hash_def demo_operator_def below)
  show "find_and_request_header_range (demo_operator\<lparr>op_is_dummy_operator := True\<rparr>) (demo_view 20) chain_crates
     long_node mem_redis ''avail'' empty_db (\<lambda>_. Inr []) 2 [] =
     Inr [header_range_request (demo_operator\<lparr>op_is_dummy_operator := True\<rparr>) (replicate 32 1) 20
       (demo_block_hash 20) 4 (demo_set_hash 4) 22]"
    using header_range_requested [where self = "demo_operator\<lparr>op_is_dummy_operator := True\<rparr>"
          and C = chain_crates and R = mem_redis and chain = "''avail''" and db = empty_db
          and submit = "\<lambda>_. Inr []" and interval = 2 and requests = "[]" and b = 22,
        OF longo.operator_chain_axioms, unfolded Let_def, THEN conjunct2, THEN mp, THEN conjunct2,
        THEN conjunct1, THEN mp] none
    by (simp add: demo_set_hash_def demo_operator_def)
qed

text \<open>
  C16: when no block from the starting point on has a justification yet, and the node's newest block
  lies within one commitment tree of the contract's, the search does not end with "no block to step
  to": it asks the node for the block after its newest one and the service panics.
\<close>

theorem header_range_search_past_tip_panics:
  assumes "operator_chain N head bh hdr sid auths V L w fid rfid hh sh"
    and "L + unat w < 2 ^ 32" and "sh (of_nat (sid L)) \<noteq> zero32"
    and "sid head = sid L" and "interval \<noteq> 0" and "\<not> op_is_dummy_operator self"
    and "b = min (L + unat w) head - min (L + unat w) head mod unat interval" and "L < b"
    and "b \<le> tip" and "tip < L + unat w" and "chain_get_block_hash N (of_nat (tip + 1)) = None"
    and "\<forall>n. b \<le> n \<and> n \<le> tip \<longrightarrow>
      (\<exists>e. get_justification_from_block C N R chain db MAX_AUTHORITY_SET_SIZE (of_nat n) = Inl (Failure e))"
  shows "find_and_request_header_range self V C N R chain db submit interval requests =
    Inl (Panic ''called `unwrap()` on a missing block hash'')"
  by (rule operator_chain.search_past_tip [OF assms(1) _ assms(2,5) _ assms(7,8,6,9-11)])
    (use assms in simp_all)

theorem header_range_search_past_tip_panics_witness:
  "find_and_request_header_range demo_operator (demo_view 20) chain_crates long_node mem_redis ''avail'' empty_db
     (\<lambda>_. Inr []) 2 [] = Inl (Panic ''called `unwrap()` on a missing block hash'')"
proof (rule header_range_search_past_tip_panics [OF longo.operator_chain_axioms, of _ _ 22 23])
  show "\<forall>n. 22 \<le> n \<and> n \<le> 23 \<longrightarrow> (\<exists>e. get_justification_from_block chain_crates long_node mem_redis ''avail''
      empty_db MAX_AUTHORITY_SET_SIZE (of_nat n) = Inl (Failure e))"
    using long_unjustified by blast
qed (simp_all add: demo_set_hash_def demo_operator_def long_node_def chain_node_def Let_def)

text \<open>
  C17: a pass over the rotation requests the hash of the next authority set exactly when the chain
  has a newer set than the one of the contract's latest block and the contract does not know its
  hash; the request is for the current set and its stored hash.
\<close>

theorem rotation_requested_exactly:
  assumes "operator_chain N head bh hdr sid auths V L w fid rfid hh sh"
  shows "find_and_request_rotate self V N submit requests =
    Inr (if sid (L - 1) < sid (head - 1) \<and> sh (of_nat (sid (L - 1) + 1)) = zero32
      then requests @ [rotation_request self rfid (of_nat (sid (L - 1))) (sh (of_nat (sid (L - 1))))]
      else requests)"
  using operator_chain.find_and_request_rotate_eq [OF assms] .

theorem rotation_requested_exactly_witness:
  "find_and_request_rotate demo_operator (demo_view 7) demo_node (\<lambda>_. Inr []) [] = Inr [] \<and>
   find_and_request_rotate demo_operator
     (answering_view (of_nat 7) 8 [] [] (\<lambda>_. []) (\<lambda>i. if i = 1 then [1] else zero32)) demo_node (\<lambda>_. Inr []) [] =
     Inr [rotation_request demo_operator [] 1 [1]]"
proof
  show "find_and_request_rotate demo_operator (demo_view 7) demo_node (\<lambda>_. Inr []) [] = Inr []"
    by (subst rotation_requested_exactly [OF demoo.operator_chain_axioms]) (simp add: demo_set_hash_def)
  show "find_and_request_rotate demo_operator
     (answering_view (of_nat 7) 8 [] [] (\<lambda>_. []) (\<lambda>i. if i = 1 then [1] else zero32)) demo_node (\<lambda>_. Inr []) [] =
     Inr [rotation_request demo_operator [] 1 [1]]"
    by (subst rotation_requested_exactly [OF answering_view [OF demon.avail_chain_axioms]]) simp_all
qed

end
