(* ===== verification/Contract.thy ===== *)
theory Contract
  imports Operator
begin

text \<open>
  The light client contract, \<open>contracts/src/VectorX.sol\<close>. Its storage is a record, a transaction
  is a function from the storage to an error or the new storage together with the calls to the
  gateway and the emitted events. The gateway, the access check of the upgrade library and
  \<open>keccak256\<close> are arguments, since their code is not part of the repository.
\<close>

section \<open>Storage, errors and events\<close>

record vectorx =
  frozen :: bool
  gateway :: bytes
  latestBlock :: u32
  latestAuthoritySetId :: u64
  headerRangeFunctionId :: bytes
  rotateFunctionId :: bytes
  blockHeightToHeaderHash :: "u32 \<Rightarrow> bytes"
  authoritySetIdToHash :: "u64 \<Rightarrow> bytes"
  dataRootCommitments :: "bytes \<Rightarrow> bytes"
  stateRootCommitments :: "bytes \<Rightarrow> bytes"
  rangeStartBlocks :: "bytes \<Rightarrow> u32"
  headerRangeCommitmentTreeSize :: u32

datatype vx_error = NextAuthoritySetExists | ContractFrozen | TrustedHeaderNotFound
  | AuthoritySetNotFound | OldAuthoritySetId | Reverted

datatype vx_event =
    HeaderRangeRequested u32 bytes u64 bytes u32
  | RotateRequested u64 bytes
  | HeadUpdate u32 bytes
  | HeaderRangeCommitmentStored u32 u32 bytes bytes u32
  | AuthoritySetStored u64 bytes

record gateway_request =
  gr_function_id :: bytes
  gr_input :: bytes
  gr_callback :: contract_call
  gr_gas_limit :: nat

text \<open>
  What a transaction finds around the contract: \<open>None\<close> and \<open>False\<close> stand for a call that reverts.
\<close>

record evm =
  keccak256 :: "bytes \<Rightarrow> bytes"
  verifiedCall :: "bytes \<Rightarrow> bytes \<Rightarrow> bytes \<Rightarrow> bytes option"
  requestCall :: "bytes \<Rightarrow> gateway_request \<Rightarrow> bool"
  onlyGuardian :: bool
  initializer :: bool
  timelocked_init :: "bytes \<Rightarrow> bool"

type_synonym transaction = "vx_error + vectorx \<times> gateway_request list \<times> vx_event list"

section \<open>Encodings\<close>

text \<open>\<open>abi.encode\<close> of two block numbers, and \<open>abi.decode\<close> of words of 32 bytes.\<close>

definition abi_encode_u32 :: "u32 \<Rightarrow> bytes" where
  "abi_encode_u32 n = replicate 28 0 @ rev (le_bytes 4 (unat n))"

definition range_hash :: "(bytes \<Rightarrow> bytes) \<Rightarrow> u32 \<Rightarrow> u32 \<Rightarrow> bytes" where
  "range_hash K a b = K (abi_encode_u32 a @ abi_encode_u32 b)"

definition range_key :: "evm \<Rightarrow> u32 \<Rightarrow> u32 \<Rightarrow> bytes" where
  "range_key E = range_hash (keccak256 E)"

text \<open>Different block ranges have different keys.\<close>

definition injective_keys :: "(bytes \<Rightarrow> bytes) \<Rightarrow> bool" where
  "injective_keys K \<longleftrightarrow> inj (\<lambda>(a, b). range_hash K a b)"

definition decode_words :: "nat \<Rightarrow> bytes \<Rightarrow> bytes list option" where
  "decode_words n output =
     (if 32 * n \<le> length output then Some (map (\<lambda>i. subarray (32 * i) (32 * i + 32) output) [0..<n]) else None)"

section \<open>Initialisation and the guardian's transactions\<close>

record InitParameters =
  ip_guardian :: bytes
  ip_gateway :: bytes
  ip_height :: u32
  ip_header :: bytes
  ip_authoritySetId :: u64
  ip_authoritySetHash :: bytes
  ip_headerRangeFunctionId :: bytes
  ip_rotateFunctionId :: bytes
  ip_headerRangeCommitmentTreeSize :: u32

definition initialize :: "evm \<Rightarrow> InitParameters \<Rightarrow> vectorx \<Rightarrow> transaction" where
  "initialize E params st =
     (if \<not> initializer E then Inl Reverted
      else if \<not> timelocked_init E (ip_guardian params) then Inl Reverted
      else Inr (st\<lparr>gateway := ip_gateway params,
          blockHeightToHeaderHash := (blockHeightToHeaderHash st)(ip_height params := ip_header params),
          authoritySetIdToHash := (authoritySetIdToHash st)(ip_authoritySetId params := ip_authoritySetHash params),
          latestAuthoritySetId := ip_authoritySetId params,
          latestBlock := ip_height params,
          rotateFunctionId := ip_rotateFunctionId params,
          headerRangeFunctionId := ip_headerRangeFunctionId params,
          headerRangeCommitmentTreeSize := ip_headerRangeCommitmentTreeSize params\<rparr>, [], []))"

definition guarded :: "evm \<Rightarrow> vectorx \<Rightarrow> transaction" where
  "guarded E st = (if onlyGuardian E then Inr (st, [], []) else Inl Reverted)"

definition updateFreeze :: "evm \<Rightarrow> bool \<Rightarrow> vectorx \<Rightarrow> transaction" where
  "updateFreeze E freeze st = guarded E (st\<lparr>frozen := freeze\<rparr>)"

definition updateFunctionIds :: "evm \<Rightarrow> bytes \<Rightarrow> bytes \<Rightarrow> u32 \<Rightarrow> vectorx \<Rightarrow> transaction" where
  "updateFunctionIds E hr_id rotate_id tree_size st =
     guarded E (st\<lparr>headerRangeFunctionId := hr_id, rotateFunctionId := rotate_id,
       headerRangeCommitmentTreeSize := tree_size\<rparr>)"

definition updateGateway :: "evm \<Rightarrow> bytes \<Rightarrow> vectorx \<Rightarrow> transaction" where
  "updateGateway E address st = guarded E (st\<lparr>gateway := address\<rparr>)"

definition updateGenesisState :: "evm \<Rightarrow> u32 \<Rightarrow> bytes \<Rightarrow> u64 \<Rightarrow> bytes \<Rightarrow> vectorx \<Rightarrow> transaction" where
  "updateGenesisState E height header set_id set_hash st =
     guarded E (st\<lparr>blockHeightToHeaderHash := (blockHeightToHeaderHash st)(height := header),
       latestBlock := height,
       authoritySetIdToHash := (authoritySetIdToHash st)(set_id := set_hash),
       latestAuthoritySetId := set_id\<rparr>)"

text \<open>The loop of \<open>updateBlockRangeData\<close>, over the five arrays in step.\<close>

fun update_ranges ::
  "evm \<Rightarrow> (u32 \<times> u32 \<times> bytes \<times> bytes \<times> bytes) list \<Rightarrow> vectorx \<Rightarrow> vx_event list \<Rightarrow>
   (vectorx \<times> vx_event list) option"
where
  "update_ranges E [] st events = Some (st, events)"
| "update_ranges E ((start, stop, header, data, state) # rest) st events =
     (if (case rest of [] \<Rightarrow> False | (next_start, _) # _ \<Rightarrow> stop \<noteq> next_start) then None
      else
        let key = range_key E start stop;
            st = st\<lparr>dataRootCommitments := (dataRootCommitments st)(key := data),
              stateRootCommitments := (stateRootCommitments st)(key := state),
              rangeStartBlocks := (rangeStartBlocks st)(key := start),
              blockHeightToHeaderHash := (blockHeightToHeaderHash st)(stop := header)\<rparr>;
            events = events @ [HeadUpdate stop header,
              HeaderRangeCommitmentStored start stop data state (headerRangeCommitmentTreeSize st)] in
        update_ranges E rest st events)"

definition updateBlockRangeData ::
  "evm \<Rightarrow> u32 list \<Rightarrow> u32 list \<Rightarrow> bytes list \<Rightarrow> bytes list \<Rightarrow> bytes list \<Rightarrow> u64 \<Rightarrow> bytes \<Rightarrow> vectorx \<Rightarrow>
   transaction"
where
  "updateBlockRangeData E startBlocks endBlocks headerHashes dataRoots stateRoots endSetId endSetHash st =
     (if \<not> onlyGuardian E then Inl Reverted
      else if \<not> (length startBlocks > 0 \<and> length startBlocks = length endBlocks \<and>
        length endBlocks = length headerHashes \<and> length headerHashes = length dataRoots \<and>
        length dataRoots = length stateRoots) then Inl Reverted
      else if startBlocks ! 0 \<noteq> latestBlock st then Inl Reverted
      else
        case update_ranges E (zip startBlocks (zip endBlocks (zip headerHashes (zip dataRoots stateRoots)))) st [] of
          None \<Rightarrow> Inl Reverted
        | Some (st, events) \<Rightarrow>
            Inr (st\<lparr>latestBlock := endBlocks ! (length endBlocks - 1),
                authoritySetIdToHash := (authoritySetIdToHash st)(endSetId := endSetHash),
                latestAuthoritySetId := endSetId\<rparr>, [], events))"

section \<open>Requests\<close>

definition requestHeaderRange :: "evm \<Rightarrow> u64 \<Rightarrow> u32 \<Rightarrow> vectorx \<Rightarrow> transaction" where
  "requestHeaderRange E set_id requestedBlock st =
     (let trustedHeader = blockHeightToHeaderHash st (latestBlock st);
          setHash = authoritySetIdToHash st set_id in
      if trustedHeader = zero32 then Inl AuthoritySetNotFound
      else if setHash = zero32 then Inl AuthoritySetNotFound
      else if \<not> latestBlock st < requestedBlock then Inl Reverted
      else
        let input = packed_header_range_input
              \<lparr>hr_trusted_block = latestBlock st, hr_trusted_header_hash = trustedHeader,
               hr_authority_set_id = set_id, hr_authority_set_hash = setHash, hr_target_block = requestedBlock\<rparr>;
            request = \<lparr>gr_function_id = headerRangeFunctionId st, gr_input = input,
              gr_callback = CommitHeaderRangeCall set_id requestedBlock, gr_gas_limit = 500000\<rparr> in
        if \<not> requestCall E (gateway st) request then Inl Reverted
        else Inr (st, [request],
          [HeaderRangeRequested (latestBlock st) trustedHeader set_id setHash requestedBlock]))"

definition requestRotate :: "evm \<Rightarrow> u64 \<Rightarrow> vectorx \<Rightarrow> transaction" where
  "requestRotate E setId st =
     (let currentHash = authoritySetIdToHash st setId in
      if currentHash = zero32 then Inl AuthoritySetNotFound
      else if unat setId + 1 \<ge> 2 ^ 64 then Inl Reverted
      else if authoritySetIdToHash st (setId + 1) \<noteq> zero32 then Inl NextAuthoritySetExists
      else
        let request = \<lparr>gr_function_id = rotateFunctionId st, gr_input = packed_rotate_input setId currentHash,
              gr_callback = RotateCall setId, gr_gas_limit = 500000\<rparr> in
        if \<not> requestCall E (gateway st) request then Inl Reverted
        else Inr (st, [request], [RotateRequested setId currentHash]))"

section \<open>Updates of the light client\<close>

definition commitHeaderRange :: "evm \<Rightarrow> u64 \<Rightarrow> u32 \<Rightarrow> vectorx \<Rightarrow> transaction" where
  "commitHeaderRange E set_id targetBlock st =
     (if frozen st then Inl ContractFrozen
      else
        let trustedHeader = blockHeightToHeaderHash st (latestBlock st) in
        if trustedHeader = zero32 then Inl TrustedHeaderNotFound
        else
          let setHash = authoritySetIdToHash st set_id in
          if setHash = zero32 then Inl AuthoritySetNotFound
          else if set_id < latestAuthoritySetId st then Inl OldAuthoritySetId
          else
            let st = (if latestAuthoritySetId st < set_id then st\<lparr>latestAuthoritySetId := set_id\<rparr> else st) in
            if \<not> latestBlock st < targetBlock then Inl Reverted
            else
              let input = packed_header_range_input
                    \<lparr>hr_trusted_block = latestBlock st, hr_trusted_header_hash = trustedHeader,
                     hr_authority_set_id = set_id, hr_authority_set_hash = setHash, hr_target_block = targetBlock\<rparr> in
              case Option.bind (verifiedCall E (gateway st) (headerRangeFunctionId st) input) (decode_words 3) of
                None \<Rightarrow> Inl Reverted
              | Some ws \<Rightarrow>
                  let targetHash = ws ! 0; stateRoot = ws ! 1; dataRoot = ws ! 2;
                      key = range_key E (latestBlock st) targetBlock in
                  Inr (st\<lparr>blockHeightToHeaderHash := (blockHeightToHeaderHash st)(targetBlock := targetHash),
                      dataRootCommitments := (dataRootCommitments st)(key := dataRoot),
                      stateRootCommitments := (stateRootCommitments st)(key := stateRoot),
                      rangeStartBlocks := (rangeStartBlocks st)(key := latestBlock st),
                      latestBlock := targetBlock\<rparr>, [],
                    [HeadUpdate targetBlock targetHash,
                     HeaderRangeCommitmentStored (latestBlock st) targetBlock dataRoot stateRoot
                       (headerRangeCommitmentTreeSize st)]))"

definition rotate_contract :: "evm \<Rightarrow> u64 \<Rightarrow> vectorx \<Rightarrow> transaction" where
  "rotate_contract E setId st =
     (if frozen st then Inl ContractFrozen
      else
        let currentHash = authoritySetIdToHash st setId in
        if currentHash = zero32 then Inl AuthoritySetNotFound
        else if unat setId + 1 \<ge> 2 ^ 64 then Inl Reverted
        else if authoritySetIdToHash st (setId + 1) \<noteq> zero32 then Inl NextAuthoritySetExists
        else
          let input = packed_rotate_input setId currentHash in
          case Option.bind (verifiedCall E (gateway st) (rotateFunctionId st) input) (decode_words 1) of
            None \<Rightarrow> Inl Reverted
          | Some ws \<Rightarrow>
              Inr (st\<lparr>authoritySetIdToHash := (authoritySetIdToHash st)(setId + 1 := ws ! 0)\<rparr>, [],
                [AuthoritySetStored (setId + 1) (ws ! 0)]))"

section \<open>The transactions anyone can send\<close>

text \<open>
  The cases of the two updates: what a successful transaction has checked, and the new storage.
\<close>

definition committed :: "evm \<Rightarrow> u64 \<Rightarrow> u32 \<Rightarrow> bytes list \<Rightarrow> vectorx \<Rightarrow> vectorx" where
  "committed E set_id b ws st = st\<lparr>
     latestAuthoritySetId := max (latestAuthoritySetId st) set_id,
     blockHeightToHeaderHash := (blockHeightToHeaderHash st)(b := ws ! 0),
     dataRootCommitments := (dataRootCommitments st)(range_key E (latestBlock st) b := ws ! 2),
     stateRootCommitments := (stateRootCommitments st)(range_key E (latestBlock st) b := ws ! 1),
     rangeStartBlocks := (rangeStartBlocks st)(range_key E (latestBlock st) b := latestBlock st),
     latestBlock := b\<rparr>"

definition commit_input :: "vectorx \<Rightarrow> u64 \<Rightarrow> u32 \<Rightarrow> HeaderRangeInput" where
  "commit_input st set_id b =
     \<lparr>hr_trusted_block = latestBlock st, hr_trusted_header_hash = blockHeightToHeaderHash st (latestBlock st),
      hr_authority_set_id = set_id, hr_authority_set_hash = authoritySetIdToHash st set_id, hr_target_block = b\<rparr>"

lemma commitHeaderRange_iff:
  "commitHeaderRange E set_id b st = Inr (st', requests, events) \<longleftrightarrow>
    \<not> frozen st \<and> blockHeightToHeaderHash st (latestBlock st) \<noteq> zero32 \<and>
    authoritySetIdToHash st set_id \<noteq> zero32 \<and> latestAuthoritySetId st \<le> set_id \<and> latestBlock st < b \<and>
    (\<exists>ws. Option.bind (verifiedCall E (gateway st) (headerRangeFunctionId st)
          (packed_header_range_input (commit_input st set_id b))) (decode_words 3) = Some ws \<and>
      st' = committed E set_id b ws st \<and> requests = [] \<and>
      events = [HeadUpdate b (ws ! 0), HeaderRangeCommitmentStored (latestBlock st) b (ws ! 2) (ws ! 1)
        (headerRangeCommitmentTreeSize st)])"
  by (auto simp: commitHeaderRange_def committed_def commit_input_def Let_def max_def not_less
      split: if_splits option.splits)

lemma rotate_contract_iff:
  "rotate_contract E set_id st = Inr (st', requests, events) \<longleftrightarrow>
    \<not> frozen st \<and> authoritySetIdToHash st set_id \<noteq> zero32 \<and> unat set_id + 1 < 2 ^ 64 \<and>
    authoritySetIdToHash st (set_id + 1) = zero32 \<and>
    (\<exists>ws. Option.bind (verifiedCall E (gateway st) (rotateFunctionId st)
          (packed_rotate_input set_id (authoritySetIdToHash st set_id))) (decode_words 1) = Some ws \<and>
      st' = st\<lparr>authoritySetIdToHash := (authoritySetIdToHash st)(set_id + 1 := ws ! 0)\<rparr> \<and> requests = [] \<and>
      events = [AuthoritySetStored (set_id + 1) (ws ! 0)])"
  by (auto simp: rotate_contract_def Let_def not_le split: if_splits option.splits)

lemma request_transactions:
  "requestHeaderRange E set_id b st = Inr (st', requests, events) \<Longrightarrow> st' = st"
  "requestRotate E set_id st = Inr (st', requests, events) \<Longrightarrow> st' = st"
  by (auto simp: requestHeaderRange_def requestRotate_def Let_def split: if_splits)

text \<open>
  The steps that need no trust in the guardian: the four public transactions, and freezing. Each
  happens in an environment that satisfies \<open>T\<close>.
\<close>

inductive public_step :: "(vectorx \<Rightarrow> evm \<Rightarrow> bool) \<Rightarrow> vectorx \<Rightarrow> vectorx \<Rightarrow> bool" for T where
  request_range: "T st E \<Longrightarrow> requestHeaderRange E i b st = Inr (st', q, ev) \<Longrightarrow> public_step T st st'"
| commit_range: "T st E \<Longrightarrow> commitHeaderRange E i b st = Inr (st', q, ev) \<Longrightarrow> public_step T st st'"
| request_rotation: "T st E \<Longrightarrow> requestRotate E i st = Inr (st', q, ev) \<Longrightarrow> public_step T st st'"
| rotation: "T st E \<Longrightarrow> rotate_contract E i st = Inr (st', q, ev) \<Longrightarrow> public_step T st st'"
| freeze: "T st E \<Longrightarrow> updateFreeze E f st = Inr (st', q, ev) \<Longrightarrow> public_step T st st'"

lemma public_step_cases:
  assumes "public_step T st st'"
  obtains (same) f where "st' = st\<lparr>frozen := f\<rparr>"
  | (commit) E i b ws where "T st E" "blockHeightToHeaderHash st (latestBlock st) \<noteq> zero32"
      "authoritySetIdToHash st i \<noteq> zero32" "latestAuthoritySetId st \<le> i" "latestBlock st < b"
      "Option.bind (verifiedCall E (gateway st) (headerRangeFunctionId st)
        (packed_header_range_input (commit_input st i b))) (decode_words 3) = Some ws"
      "st' = committed E i b ws st"
  | (rotated) E i ws where "T st E" "authoritySetIdToHash st i \<noteq> zero32" "unat i + 1 < 2 ^ 64"
      "authoritySetIdToHash st (i + 1) = zero32"
      "Option.bind (verifiedCall E (gateway st) (rotateFunctionId st)
        (packed_rotate_input i (authoritySetIdToHash st i))) (decode_words 1) = Some ws"
      "st' = st\<lparr>authoritySetIdToHash := (authoritySetIdToHash st)(i + 1 := ws ! 0)\<rparr>"
  using assms
proof cases
  case (request_range E i b q ev)
  then show thesis using request_transactions(1) same [of "frozen st"] by auto
next
  case (commit_range E i b q ev)
  then show thesis using commit unfolding commitHeaderRange_iff by blast
next
  case (request_rotation E i q ev)
  then show thesis using request_transactions(2) same [of "frozen st"] by auto
next
  case (rotation E i q ev)
  then show thesis using rotated unfolding rotate_contract_iff by blast
next
  case (freeze E f q ev)
  then show thesis using same by (auto simp: updateFreeze_def guarded_def split: if_splits)
qed

section \<open>What the contract never takes back\<close>

definition extends :: "(bytes \<Rightarrow> bytes) \<Rightarrow> vectorx \<Rightarrow> vectorx \<Rightarrow> bool" where
  "extends K st st' \<longleftrightarrow>
     latestBlock st \<le> latestBlock st' \<and> latestAuthoritySetId st \<le> latestAuthoritySetId st' \<and>
     (\<forall>b \<le> latestBlock st. blockHeightToHeaderHash st' b = blockHeightToHeaderHash st b) \<and>
     (\<forall>i. authoritySetIdToHash st i \<noteq> zero32 \<longrightarrow> authoritySetIdToHash st' i = authoritySetIdToHash st i) \<and>
     (\<forall>a. \<forall>b \<le> latestBlock st. 
        dataRootCommitments st' (range_hash K a b) = dataRootCommitments st (range_hash K a b) \<and>
        stateRootCommitments st' (range_hash K a b) = stateRootCommitments st (range_hash K a b) \<and>
        rangeStartBlocks st' (range_hash K a b) = rangeStartBlocks st (range_hash K a b)) \<and>
     gateway st' = gateway st \<and> headerRangeFunctionId st' = headerRangeFunctionId st \<and>
     rotateFunctionId st' = rotateFunctionId st"

lemma range_hash_eq: "injective_keys K \<Longrightarrow> range_hash K a b = range_hash K a' b' \<longleftrightarrow> a = a' \<and> b = b'"
  unfolding injective_keys_def inj_def by auto

lemma extends_refl: "extends K st st"
  by (simp add: extends_def)

lemma extends_trans: "extends K st1 st2 \<Longrightarrow> extends K st2 st3 \<Longrightarrow> extends K st1 st3"
  unfolding extends_def by (auto intro: order_trans)

lemma public_step_extends:
  assumes "public_step T st st'" and "\<And>E. T st E \<Longrightarrow> keccak256 E = K" and "injective_keys K"
  shows "extends K st st'"
  using assms(1)
proof (cases rule: public_step_cases)
  case (commit E i b ws)
  then show ?thesis
    using assms(2) range_hash_eq [OF assms(3)] by (auto simp: extends_def committed_def range_key_def)
qed (auto simp: extends_def)

section \<open>The abstract light client\<close>

text \<open>
  What the contract promises: a head and the hashes of the blocks and authority sets it knows,
  extended by verified claims only. Zero words, gas, keys of ranges and freezing are details of the
  contract.
\<close>

record light_client =
  lc_latest :: u32
  lc_set_id :: u64
  lc_hash :: "u32 \<Rightarrow> bytes option"
  lc_set :: "u64 \<Rightarrow> bytes option"
  lc_range :: "u32 \<Rightarrow> u32 \<Rightarrow> bytes \<times> bytes"

definition nonzero :: "bytes \<Rightarrow> bytes option" where
  "nonzero h = (if h = zero32 then None else Some h)"

definition lc_advance ::
  "(HeaderRangeInput \<Rightarrow> (bytes \<times> bytes \<times> bytes) option) \<Rightarrow> u64 \<Rightarrow> u32 \<Rightarrow> light_client \<Rightarrow> light_client option"
where
  "lc_advance verified i b A =
     (case (lc_hash A (lc_latest A), lc_set A i) of
        (Some h, Some s) \<Rightarrow>
          if lc_set_id A \<le> i \<and> lc_latest A < b then
            map_option (\<lambda>(target, state, data).
                A\<lparr>lc_latest := b, lc_set_id := i, lc_hash := (lc_hash A)(b := nonzero target),
                  lc_range := (lc_range A)(lc_latest A := (lc_range A (lc_latest A))(b := (data, state)))\<rparr>)
              (verified \<lparr>hr_trusted_block = lc_latest A, hr_trusted_header_hash = h,
                hr_authority_set_id = i, hr_authority_set_hash = s, hr_target_block = b\<rparr>)
          else None
      | _ \<Rightarrow> None)"

definition lc_learn :: "(u64 \<Rightarrow> bytes \<Rightarrow> bytes option) \<Rightarrow> u64 \<Rightarrow> light_client \<Rightarrow> light_client option" where
  "lc_learn verified i A =
     (case lc_set A i of
        Some s \<Rightarrow>
          if unat i + 1 < 2 ^ 64 \<and> lc_set A (i + 1) = None then
            map_option (\<lambda>h. A\<lparr>lc_set := (lc_set A)(i + 1 := nonzero h)\<rparr>) (verified i s)
          else None
      | None \<Rightarrow> None)"

definition light_client_of :: "(bytes \<Rightarrow> bytes) \<Rightarrow> vectorx \<Rightarrow> light_client" where
  "light_client_of K st =
     \<lparr>lc_latest = latestBlock st, lc_set_id = latestAuthoritySetId st,
      lc_hash = (\<lambda>b. nonzero (blockHeightToHeaderHash st b)),
      lc_set = (\<lambda>i. nonzero (authoritySetIdToHash st i)),
      lc_range = (\<lambda>a b. (dataRootCommitments st (range_hash K a b), stateRootCommitments st (range_hash K a b)))\<rparr>"

lemma light_client_of_simps [simp]:
  "lc_latest (light_client_of K st) = latestBlock st"
  "lc_set_id (light_client_of K st) = latestAuthoritySetId st"
  "lc_hash (light_client_of K st) b = nonzero (blockHeightToHeaderHash st b)"
  "lc_set (light_client_of K st) i = nonzero (authoritySetIdToHash st i)"
  by (simp_all add: light_client_of_def)

lemma nonzero_Some: "h \<noteq> zero32 \<Longrightarrow> nonzero h = Some h"
  by (simp add: nonzero_def)

text \<open>The claims a gateway verifies for the contract, and the outcome of a transaction.\<close>

definition verified_range :: "evm \<Rightarrow> vectorx \<Rightarrow> HeaderRangeInput \<Rightarrow> (bytes \<times> bytes \<times> bytes) option" where
  "verified_range E st input =
     map_option (\<lambda>ws. (ws ! 0, ws ! 1, ws ! 2))
       (Option.bind (verifiedCall E (gateway st) (headerRangeFunctionId st) (packed_header_range_input input))
         (decode_words 3))"

definition verified_set :: "evm \<Rightarrow> vectorx \<Rightarrow> u64 \<Rightarrow> bytes \<Rightarrow> bytes option" where
  "verified_set E st i s =
     map_option (\<lambda>ws. ws ! 0)
       (Option.bind (verifiedCall E (gateway st) (rotateFunctionId st) (packed_rotate_input i s)) (decode_words 1))"

definition outcome :: "transaction \<Rightarrow> vectorx option" where
  "outcome t = (case t of Inl _ \<Rightarrow> None | Inr (st, _) \<Rightarrow> Some st)"

lemma light_client_of_committed:
  assumes "injective_keys (keccak256 E)" and "latestAuthoritySetId st \<le> i"
  shows "light_client_of (keccak256 E) (committed E i b ws st) =
    (light_client_of (keccak256 E) st)\<lparr>lc_latest := b, lc_set_id := i,
      lc_hash := (lc_hash (light_client_of (keccak256 E) st))(b := nonzero (ws ! 0)),
      lc_range := (lc_range (light_client_of (keccak256 E) st))(latestBlock st :=
        (lc_range (light_client_of (keccak256 E) st) (latestBlock st))(b := (ws ! 2, ws ! 1)))\<rparr>"
  using range_hash_eq [OF assms(1)] assms(2)
  by (auto simp: light_client_of_def committed_def range_key_def max_def fun_eq_iff)

lemma commit_refines:
  assumes "injective_keys (keccak256 E)"
  shows "map_option (light_client_of (keccak256 E)) (outcome (commitHeaderRange E i b st)) =
    (if frozen st then None
     else lc_advance (verified_range E st) i b (light_client_of (keccak256 E) st))"
proof (cases "commitHeaderRange E i b st")
  case (Inl e)
  then show ?thesis
    by (auto simp: outcome_def commitHeaderRange_def lc_advance_def light_client_of_def nonzero_def
        verified_range_def Let_def split: if_splits option.splits)
next
  case (Inr r)
  obtain st' q ev where r: "r = (st', q, ev)"
    by (cases r)
  note c = Inr [unfolded r commitHeaderRange_iff]
  then obtain ws where st': "st' = committed E i b ws st" and
      v: "Option.bind (verifiedCall E (gateway st) (headerRangeFunctionId st)
          (packed_header_range_input (commit_input st i b))) (decode_words 3) = Some ws"
    by blast
  have "verified_range E st \<lparr>hr_trusted_block = latestBlock st,
      hr_trusted_header_hash = blockHeightToHeaderHash st (latestBlock st), hr_authority_set_id = i,
      hr_authority_set_hash = authoritySetIdToHash st i, hr_target_block = b\<rparr> = Some (ws ! 0, ws ! 1, ws ! 2)"
    using v by (simp add: verified_range_def commit_input_def)
  then show ?thesis
    using c light_client_of_committed [OF assms, of st i b ws]
    by (simp add: Inr r st' outcome_def lc_advance_def nonzero_Some)
qed

lemma rotate_refines:
  "map_option (light_client_of K) (outcome (rotate_contract E i st)) =
    (if frozen st then None else lc_learn (verified_set E st) i (light_client_of K st))"
  by (auto simp: outcome_def rotate_contract_def lc_learn_def light_client_of_def nonzero_def
      verified_set_def Let_def fun_eq_iff split: option.splits)

section \<open>A contract on the demonstration chain\<close>

lemma abi_encode_u32_eq [simp]: "abi_encode_u32 a = abi_encode_u32 b \<longleftrightarrow> a = b"
proof
  assume "abi_encode_u32 a = abi_encode_u32 b"
  then have "le_nat (le_bytes 4 (unat a)) = le_nat (le_bytes 4 (unat b))"
    by (simp add: abi_encode_u32_def del: le_bytes.simps)
  then show "a = b"
    using unat_u32_less [of a] unat_u32_less [of b] by (simp add: le_nat_le_bytes word_unat_eq_iff del: le_bytes.simps)
qed simp

lemma injective_keys_id: "injective_keys (\<lambda>bs. bs)"
proof -
  have "length (abi_encode_u32 a) = 32" for a
    by (simp add: abi_encode_u32_def del: le_bytes.simps)
  then show ?thesis
    by (auto simp: injective_keys_def inj_def range_hash_def)
qed

definition answering_evm :: "(bytes \<Rightarrow> bytes \<Rightarrow> bytes option) \<Rightarrow> evm" where
  "answering_evm verified =
     \<lparr>keccak256 = (\<lambda>bs. bs), verifiedCall = (\<lambda>_. verified), requestCall = (\<lambda>_ _. True), onlyGuardian = True,
      initializer = True, timelocked_init = (\<lambda>_. True)\<rparr>"

definition contract_at :: "u32 \<Rightarrow> bytes \<Rightarrow> u64 \<Rightarrow> bytes \<Rightarrow> vectorx" where
  "contract_at height header set_id set_hash =
     \<lparr>frozen = False, gateway = replicate 20 3, latestBlock = height, latestAuthoritySetId = set_id,
      headerRangeFunctionId = replicate 32 1, rotateFunctionId = replicate 32 2,
      blockHeightToHeaderHash = (\<lambda>_. zero32)(height := header),
      authoritySetIdToHash = (\<lambda>_. zero32)(set_id := set_hash),
      dataRootCommitments = (\<lambda>_. zero32), stateRootCommitments = (\<lambda>_. zero32), rangeStartBlocks = (\<lambda>_. 0),
      headerRangeCommitmentTreeSize = 8\<rparr>"

text \<open>A fresh contract, initialised with the parameters of the deployment.\<close>

definition fresh :: vectorx where
  "fresh = \<lparr>frozen = False, gateway = replicate 20 0, latestBlock = 0, latestAuthoritySetId = 0,
     headerRangeFunctionId = zero32, rotateFunctionId = zero32, blockHeightToHeaderHash = (\<lambda>_. zero32),
     authoritySetIdToHash = (\<lambda>_. zero32), dataRootCommitments = (\<lambda>_. zero32),
     stateRootCommitments = (\<lambda>_. zero32), rangeStartBlocks = (\<lambda>_. 0), headerRangeCommitmentTreeSize = 0\<rparr>"

lemma initialize_fresh:
  "initialize (answering_evm v) \<lparr>ip_guardian = g, ip_gateway = replicate 20 3, ip_height = height,
     ip_header = header, ip_authoritySetId = set_id, ip_authoritySetHash = set_hash,
     ip_headerRangeFunctionId = replicate 32 1, ip_rotateFunctionId = replicate 32 2,
     ip_headerRangeCommitmentTreeSize = 8\<rparr> fresh = Inr (contract_at height header set_id set_hash, [], [])"
  by (simp add: initialize_def answering_evm_def fresh_def contract_at_def)

section \<open>Properties\<close>

text \<open>
  C6: whatever the gateway answers, no sequence of public transactions and freezes takes anything
  back: the head and the authority set id in use never decrease, a header hash up to the head, the
  commitments and the start block of a range that ends there, and every known authority set hash
  stay as they are, and so do the gateway and the two function ids. Different ranges are assumed to
  have different keys.
\<close>

theorem contract_append_only:
  assumes "(public_step T)\<^sup>*\<^sup>* st st'" and "\<forall>st E. T st E \<longrightarrow> keccak256 E = K" and "injective_keys K"
  shows "extends K st st'"
  using assms(1)
proof (induction rule: rtranclp_induct)
  case base
  show ?case by (rule extends_refl)
next
  case (step st1 st2)
  with assms(2,3) show ?case
    by (blast intro: extends_trans public_step_extends)
qed

theorem contract_append_only_witness:
  "\<exists>st'. (public_step (\<lambda>_ E. E = answering_evm (\<lambda>_ _. Some (replicate 96 9))))\<^sup>*\<^sup>*
     (contract_at 7 (replicate 32 1) 1 (replicate 32 2)) st' \<and> latestBlock st' = 10 \<and>
     extends (\<lambda>bs. bs) (contract_at 7 (replicate 32 1) 1 (replicate 32 2)) st'"
proof -
  let ?T = "\<lambda>_ E. E = answering_evm (\<lambda>_ _. Some (replicate 96 9))"
  let ?st = "contract_at 7 (replicate 32 1) 1 (replicate 32 2)"
  let ?st' = "committed (answering_evm (\<lambda>_ _. Some (replicate 96 9))) 1 10
    (map (\<lambda>i. subarray (32 * i) (32 * i + 32) (replicate 96 9)) [0..<3]) ?st"
  have "\<exists>q ev. commitHeaderRange (answering_evm (\<lambda>_ _. Some (replicate 96 9))) 1 10 ?st = Inr (?st', q, ev)"
    unfolding commitHeaderRange_iff by (simp add: contract_at_def answering_evm_def decode_words_def)
  then have step: "(public_step ?T)\<^sup>*\<^sup>* ?st ?st'"
    by (blast intro: public_step.commit_range)
  have "extends (\<lambda>bs. bs) ?st ?st'"
    by (rule contract_append_only [OF step]) (simp_all add: answering_evm_def injective_keys_id)
  with step show ?thesis
    by (intro exI [of _ ?st']) (simp add: committed_def)
qed

text \<open>
  C4: the contract implements the abstract light client. Unless it is frozen, a header range
  transaction succeeds exactly when the abstract client can advance on the claim the gateway
  verifies, and a rotation exactly when it can learn the next authority set, and the new storage
  represents the new abstract state; a frozen contract makes no step. Different ranges are assumed
  to have different keys.
\<close>

theorem contract_refines_light_client:
  assumes "injective_keys (keccak256 E)"
  shows "map_option (light_client_of (keccak256 E)) (outcome (commitHeaderRange E i b st)) =
      (if frozen st then None
       else lc_advance (verified_range E st) i b (light_client_of (keccak256 E) st)) \<and>
    map_option (light_client_of (keccak256 E)) (outcome (rotate_contract E i st)) =
      (if frozen st then None else lc_learn (verified_set E st) i (light_client_of (keccak256 E) st))"
  using commit_refines [OF assms] rotate_refines by blast

theorem contract_refines_light_client_witness:
  "\<exists>A. lc_advance (\<lambda>_. Some (replicate 32 9, replicate 32 9, replicate 32 9)) 1 10
      (light_client_of (\<lambda>bs. bs) (contract_at 7 (replicate 32 1) 1 (replicate 32 2))) = Some A \<and>
    map_option (light_client_of (\<lambda>bs. bs)) (outcome (commitHeaderRange
      (answering_evm (\<lambda>_ _. Some (replicate 96 9))) 1 10 (contract_at 7 (replicate 32 1) 1 (replicate 32 2)))) = Some A"
proof -
  let ?E = "answering_evm (\<lambda>_ _. Some (replicate 96 9))"
  let ?st = "contract_at 7 (replicate 32 1) 1 (replicate 32 2)"
  have "verified_range ?E ?st = (\<lambda>_. Some (replicate 32 9, replicate 32 9, replicate 32 9))"
    by (simp add: fun_eq_iff verified_range_def answering_evm_def decode_words_def subarray_def
        upt_rec)
  moreover have "injective_keys (keccak256 ?E)" "keccak256 ?E = (\<lambda>bs. bs)"
    using injective_keys_id by (simp_all add: answering_evm_def)
  ultimately show ?thesis
    using contract_refines_light_client [of ?E 1 10 ?st, THEN conjunct1]
    by (simp add: lc_advance_def nonzero_def) (simp add: contract_at_def)
qed

end
