(* ===== verification/Light_Client.thy ===== *)
theory Light_Client
  imports Contract
begin

text \<open>
  The system: the contract, fed by a gateway that verifies proofs of the two circuits, on the
  finalized chain. The locale \<open>light_client_chain\<close> states what is assumed of GRANDPA and of the
  chain, \<open>attested\<close> what a verified proof means. Every storage the contract reaches then holds
  data of the finalized chain only, and the operator, the prover and the contract together make
  progress.
\<close>

section \<open>Definitions\<close>

text \<open>
  A header that is no second preimage: if its hash is the hash of a finalized block, its bytes are
  those of the block.
\<close>

definition collision_free ::
  "crates \<Rightarrow> plonky2x \<Rightarrow> nat \<Rightarrow> (nat \<Rightarrow> bytes) \<Rightarrow> (nat \<Rightarrow> avail_header) \<Rightarrow> EncodedHeader \<Rightarrow> bool"
where
  "collision_free C B head bh hdr h \<longleftrightarrow>
     unat (header_size h) \<le> length (header_bytes h) \<and>
     (\<forall>n \<le> head. hash_encoded_header B h = bh n \<longrightarrow>
        take (unat (header_size h)) (header_bytes h) = encode_header C (hdr n))"

text \<open>
  The position of a rotation is the one of a scheduled change in the header of the block it is
  about, as the hint computes it.
\<close>

definition points_at_change ::
  "crates \<Rightarrow> nat \<Rightarrow> (nat \<Rightarrow> avail_header) \<Rightarrow> EncodedHeader \<Rightarrow> nat \<Rightarrow> bool"
where
  "points_at_change C head hdr h position \<longleftrightarrow>
     (\<forall>n \<le> head. take (unat (header_size h)) (header_bytes h) = encode_header C (hdr n) \<longrightarrow>
        (\<exists>pre ks post. h_logs (hdr n) = pre @ Consensus [70, 82, 78, 75] (scheduled_change ks) # post \<and>
           length (h_logs (hdr n)) < 64 \<and> ks \<noteq> [] \<and> list_all (\<lambda>k. length k = 32) ks \<and>
           position = 96 + compact_length (of_nat n) + length (concat (map (encode_log C) pre))))"

text \<open>
  What the answers of the gateway stand for: hints that the circuit accepts with these public
  inputs and outputs. The slots behind the declared authorities are unmarked, and the SHA-256 and
  BLAKE2b inputs involved do not collide.
\<close>

definition attested_range ::
  "crates \<Rightarrow> plonky2x \<Rightarrow> subchain_mapreduce \<Rightarrow> nat \<Rightarrow> (nat \<Rightarrow> bytes) \<Rightarrow> (nat \<Rightarrow> avail_header) \<Rightarrow>
   (u64 \<Rightarrow> bytes list) \<Rightarrow> nat \<Rightarrow> nat \<Rightarrow> nat \<Rightarrow> HeaderRangeInput \<Rightarrow> bytes \<Rightarrow> bool"
where
  "attested_range C B mapreduce head bh hdr keys M max_num_headers k evm output \<longleftrightarrow>
     (\<exists>hint j out. header_range_circuit B mapreduce M max_num_headers hint j evm = Some out \<and>
        output = packed_header_range_output out \<and>
        (\<forall>nums. length nums = HEADERS_PER_MAP \<longrightarrow> length (hint nums) = HEADERS_PER_MAP) \<and>
        (\<forall>h \<in> set (take (unat (hr_target_block evm) - unat (hr_trusted_block evm)) (hinted hint 0 k)).
           collision_free C B head bh hdr h) \<and>
        trusted_set_assumptions B M j (keys (hr_authority_set_id evm)))"

definition attested_rotation ::
  "crates \<Rightarrow> plonky2x \<Rightarrow> nat \<Rightarrow> (nat \<Rightarrow> bytes) \<Rightarrow> (nat \<Rightarrow> avail_header) \<Rightarrow> (u64 \<Rightarrow> bytes list) \<Rightarrow>
   nat \<Rightarrow> nat \<Rightarrow> u64 \<Rightarrow> bytes \<Rightarrow> bytes \<Rightarrow> bool"
where
  "attested_rotation C B head bh hdr keys M S set_id set_hash output \<longleftrightarrow>
     (\<exists>rot j. rotate_circuit B M (M * VALIDATOR_LENGTH + DELAY_LENGTH) rot j set_id set_hash = Some output \<and>
        wf_header S (target_header rot) \<and> S < 2 ^ 32 \<and> collision_free C B head bh hdr (target_header rot) \<and>
        wf_pubkeys M (new_pubkeys rot) \<and> target_header_num_authorities rot \<le> M \<and>
        points_at_change C head hdr (target_header rot) (next_authority_set_start_position rot) \<and>
        trusted_set_assumptions B M j (keys set_id))"

definition attested ::
  "(bytes \<Rightarrow> bytes) \<Rightarrow> crates \<Rightarrow> plonky2x \<Rightarrow> subchain_mapreduce \<Rightarrow> nat \<Rightarrow> (nat \<Rightarrow> bytes) \<Rightarrow> (nat \<Rightarrow> avail_header) \<Rightarrow>
   (u64 \<Rightarrow> bytes list) \<Rightarrow> nat \<Rightarrow> nat \<Rightarrow> nat \<Rightarrow> nat \<Rightarrow> vectorx \<Rightarrow> evm \<Rightarrow> bool"
where
  "attested K C B mapreduce head bh hdr keys M S max_num_headers k st E \<longleftrightarrow>
     keccak256 E = K \<and>
     (\<forall>evm output. length (hr_trusted_header_hash evm) = 32 \<longrightarrow> length (hr_authority_set_hash evm) = 32 \<longrightarrow>
        verifiedCall E (gateway st) (headerRangeFunctionId st) (packed_header_range_input evm) = Some output \<longrightarrow>
        attested_range C B mapreduce head bh hdr keys M max_num_headers k evm output) \<and>
     (\<forall>set_id set_hash output. length set_hash = 32 \<longrightarrow>
        verifiedCall E (gateway st) (rotateFunctionId st) (packed_rotate_input set_id set_hash) = Some output \<longrightarrow>
        attested_rotation C B head bh hdr keys M S set_id set_hash output)"

text \<open>Everything the contract stores is data of the finalized chain.\<close>

definition canonical ::
  "(bytes \<Rightarrow> bytes) \<Rightarrow> plonky2x \<Rightarrow> nat \<Rightarrow> (nat \<Rightarrow> bytes) \<Rightarrow> (nat \<Rightarrow> avail_header) \<Rightarrow> (u64 \<Rightarrow> bytes list) \<Rightarrow>
   nat \<Rightarrow> vectorx \<Rightarrow> bool"
where
  "canonical K B head bh hdr keys k st \<longleftrightarrow>
     (\<forall>b. blockHeightToHeaderHash st b \<noteq> zero32 \<longrightarrow>
        unat b \<le> head \<and> blockHeightToHeaderHash st b = bh (unat b)) \<and>
     (\<forall>i. authoritySetIdToHash st i \<noteq> zero32 \<longrightarrow>
        authoritySetIdToHash st i = chain_hash (curta_sha256 B) (keys i)) \<and>
     (\<forall>a b. dataRootCommitments st (range_hash K a b) \<noteq> zero32 \<longrightarrow> unat b \<le> head \<and>
        dataRootCommitments st (range_hash K a b) =
          padded_root B (3 + k) (map (\<lambda>n. h_data_root (hdr n)) [unat a + 1..<unat b + 1])) \<and>
     (\<forall>a b. stateRootCommitments st (range_hash K a b) \<noteq> zero32 \<longrightarrow> unat b \<le> head \<and>
        stateRootCommitments st (range_hash K a b) =
          padded_root B (3 + k) (map (\<lambda>n. h_state_root (hdr n)) [unat a + 1..<unat b + 1]))"

section \<open>Scheduled changes\<close>

lemma encode_authorities_inject:
  assumes "length ks = length ls" "list_all (\<lambda>k. length k = 32) ks" "list_all (\<lambda>k. length k = 32) ls"
    and "encode_authorities ks = encode_authorities ls"
  shows "ks = ls"
  using assms by (induction ks ls rule: list_induct2) (simp_all add: encode_authorities_def)

context plonky2x_gadgets
begin

text \<open>The keys read at the position of a digest item are the ones it encodes.\<close>

lemma scheduled_change_keys:
  assumes hb: "hb = pre @ x # consensus_log (scheduled_change ks) @ post" "length hb < 2 ^ 32"
    and ks: "list_all (\<lambda>k. length k = 32) ks" "ks \<noteq> []"
    and read: "scheduled_change_at B hb (length pre) (length ls) c" "length ls < 2 ^ 32"
      "subarray c (c + 40 * length ls) hb = encode_authorities ls" "list_all (\<lambda>k. length k = 32) ls"
  shows "ls = ks"
proof -
  let ?n = "of_nat (length ks) :: u32" and ?l = "of_nat (length (scheduled_change ks)) :: u32"
  define front where "front = pre @ x # [4, 70, 82, 78, 75] @ scale_compact ?l @ 1 # scale_compact ?n"
  have front: "hb = front @ encode_authorities ks @ expected_delay_bytes @ post"
    by (simp add: hb(1) front_def consensus_log_def scheduled_change_def)
  have "length ks \<le> length (encode_authorities ks)"
    using ks(1) by (simp add: length_encode_authorities)
  then have small: "length ks < 2 ^ 32"
    using hb(2) front by simp
  note at = scheduled_change_at_unique
    [OF scheduled_change_at_encoded [OF hb(1) ks hb(2)] read(1) small read(2)]
  have "length front = c"
    using at(2) by (simp add: front_def length_scale_compact)
  then have "subarray c (c + 40 * length ks) hb = encode_authorities ks"
    by (simp add: front subarray_def length_encode_authorities [OF ks(1)])
  then show ?thesis
    using read(3,4) at(1) ks(1) by (intro encode_authorities_inject) simp_all
qed

end

lemma decode_three:
  assumes "length x = 32" "length y = 32" "length z = 32"
  shows "decode_words 3 (x @ y @ z) = Some [x, y, z]"
  using assms by (simp add: decode_words_def subarray_def upt_rec)

section \<open>The contract of the chain\<close>

text \<open>
  GRANDPA's safety: what more than two thirds of an authority set sign for its id is the finalized
  block of that number, and the scheduled change in such a block announces the next set. The
  header numbers leave room for the leaves of one commitment tree.
\<close>

locale light_client_chain =
  chain_prover N head bh hdr sid auths C B blake2b_256 ed25519_verify mapreduce
  for N head bh hdr sid auths C B blake2b_256 ed25519_verify mapreduce +
  fixes keys :: "u64 \<Rightarrow> bytes list" and max_num_headers k :: nat
  assumes tree: "next_power_of_two (max_num_headers div HEADERS_PER_MAP) = 2 ^ k"
    and room: "head + 1 + HEADERS_PER_MAP * 2 ^ k < 2 ^ 32"
    and keys_nonempty: "keys t \<noteq> []"
    and grandpa_safety: "length h = 32 \<Longrightarrow> finalized ed25519_verify (keys t) sigs h b t \<Longrightarrow>
      unat b \<le> head \<and> h = bh (unat b)"
    and announces: "n \<le> head \<Longrightarrow> finalized ed25519_verify (keys t) sigs (bh n) (of_nat n) t \<Longrightarrow>
      h_logs (hdr n) = pre @ Consensus [70, 82, 78, 75] (scheduled_change ks) # post \<Longrightarrow>
      ks \<noteq> [] \<Longrightarrow> list_all (\<lambda>k. length k = 32) ks \<Longrightarrow> ks = keys (t + 1)"
begin

abbreviation genuine :: "EncodedHeader \<Rightarrow> bool" where
  "genuine \<equiv> collision_free C B head bh hdr"

lemma genuine_bytes:
  assumes "genuine h" and "hash_encoded_header B h = bh n" and "n \<le> head"
  shows "header_bytes h = encode_header C (hdr n) @ drop (unat (header_size h)) (header_bytes h)"
    and "unat (header_size h) = length (encode_header C (hdr n))"
proof -
  have "take (unat (header_size h)) (header_bytes h) = encode_header C (hdr n)"
    and "unat (header_size h) \<le> length (header_bytes h)"
    using assms by (auto simp: collision_free_def)
  then show "header_bytes h = encode_header C (hdr n) @ drop (unat (header_size h)) (header_bytes h)"
    and "unat (header_size h) = length (encode_header C (hdr n))"
    by (metis append_take_drop_id, metis length_take min.absorb2)
qed

lemmas genuine_header = header_of_block [OF _ genuine_bytes]

text \<open>A chain of genuine headers that ends in a finalized block runs through finalized blocks.\<close>

lemma linked_genuine:
  assumes hs: "linked B parent (a + 1) hs" "\<forall>h \<in> set hs. genuine h"
    and end_block: "hash_encoded_header B (last hs) = bh (a + length hs)" "a + length hs \<le> head"
    and i: "i < length hs"
  shows "hash_encoded_header B (hs ! i) = bh (a + 1 + i)"
  using i
proof (induction "length hs - Suc i" arbitrary: i)
  case 0
  then have i: "length hs - 1 = i" "hs \<noteq> []" "a + 1 + i = a + length hs"
    by auto
  show ?case
    unfolding i(3) using end_block(1) unfolding last_conv_nth [OF i(2)] i(1) .
next
  case (Suc d)
  then have j: "Suc i < length hs" "a + 1 + Suc i \<le> head" "a + 1 + i < head"
    using end_block(2) by auto
  have "hash_encoded_header B (hs ! Suc i) = bh (a + 1 + Suc i)"
    using Suc.hyps(2) j(1) by (intro Suc.hyps(1)) auto
  moreover have "genuine (hs ! Suc i)"
    using hs(2) j(1) by simp
  ultimately have "header_of B (hs ! Suc i) = Some \<lparr>hv_block_number = of_nat (a + 1 + Suc i),
      hv_parent_hash = h_parent_hash (hdr (a + 1 + Suc i)), hv_state_root = h_state_root (hdr (a + 1 + Suc i)),
      hv_data_root = h_data_root (hdr (a + 1 + Suc i))\<rparr>"
    using j(2) by (intro genuine_header) simp_all
  then have "hash_encoded_header B (hs ! i) = h_parent_hash (hdr (Suc (a + 1 + i)))"
    using hs(1) [unfolded linked_iff_nth] j(1) by fastforce
  then show ?case
    using parent_hash [OF j(3)] by simp
qed

lemma linked_genuine_roots:
  assumes hs: "linked B parent (a + 1) hs" "\<forall>h \<in> set hs. genuine h"
    and end_block: "hash_encoded_header B (last hs) = bh (a + length hs)" "a + length hs \<le> head"
  shows "map (state_root_of B) hs = map (\<lambda>n. h_state_root (hdr n)) [a + 1..<a + length hs + 1]"
    and "map (data_root_of B) hs = map (\<lambda>n. h_data_root (hdr n)) [a + 1..<a + length hs + 1]"
proof -
  have "header_of B (hs ! i) = Some \<lparr>hv_block_number = of_nat (a + 1 + i),
      hv_parent_hash = h_parent_hash (hdr (a + 1 + i)), hv_state_root = h_state_root (hdr (a + 1 + i)),
      hv_data_root = h_data_root (hdr (a + 1 + i))\<rparr>" if "i < length hs" for i
    using that hs(2) end_block(2) linked_genuine [OF hs end_block that] by (intro genuine_header) simp_all
  then show "map (state_root_of B) hs = map (\<lambda>n. h_state_root (hdr n)) [a + 1..<a + length hs + 1]"
    and "map (data_root_of B) hs = map (\<lambda>n. h_data_root (hdr n)) [a + 1..<a + length hs + 1]"
    by (auto intro!: nth_equalityI simp: state_root_of_def data_root_of_def simp del: upt_Suc)
qed

text \<open>An attested header range: the output is the finalized block and its commitments.\<close>

lemma attested_range_output:
  assumes att: "attested_range C B mapreduce head bh hdr keys M max_num_headers k evm output"
    and set: "hr_authority_set_hash evm = chain_hash (curta_sha256 B) (keys (hr_authority_set_id evm))"
    and a: "unat (hr_trusted_block evm) \<le> head" "hr_trusted_block evm < hr_target_block evm"
  defines "a' \<equiv> unat (hr_trusted_block evm)" and "b' \<equiv> unat (hr_target_block evm)"
  shows "b' \<le> head" and "output = bh b' @
      padded_root B (3 + k) (map (\<lambda>n. h_state_root (hdr n)) [a' + 1..<b' + 1]) @
      padded_root B (3 + k) (map (\<lambda>n. h_data_root (hdr n)) [a' + 1..<b' + 1])"
proof -
  define hs where "hs hint = take (b' - a') (hinted hint 0 k)" for hint
  obtain hint j out where ok: "header_range_circuit B mapreduce M max_num_headers hint j evm = Some out"
      and out: "output = packed_header_range_output out"
      and hint: "\<forall>nums. length nums = 8 \<longrightarrow> length (hint nums) = 8"
      and gen: "\<forall>h \<in> set (hs hint). genuine h"
      and trusted: "trusted_set_assumptions B M j (keys (hr_authority_set_id evm))"
    using att unfolding attested_range_def HEADERS_PER_MAP_def hs_def a'_def b'_def by blast
  have bound: "a' + 1 + 8 * 2 ^ k < 2 ^ 32"
    using a(1) room by (simp add: a'_def HEADERS_PER_MAP_def)
  have "a' < b'"
    using a(2) by (simp add: a'_def b'_def word_less_nat_alt)
  then have target: "hr_target_block evm \<noteq> 0"
    by (auto simp: b'_def)
  have size: "\<forall>h \<in> set (hs hint). unat (header_size h) \<le> length (header_bytes h)"
    using gen by (auto simp: collision_free_def)
  note s = header_range_circuit_accepted [OF tree [unfolded HEADERS_PER_MAP_def] hint
      bound [unfolded a'_def] target set trusted ok hs_def [unfolded a'_def b'_def] size]
  have last: "last (hs hint) \<in> set (hs hint)"
    using s(2) by simp
  have "length (hr_target_header_hash out) = 32"
    unfolding s(4) using size last by (intro length_header_hash) blast
  then have fin: "b' \<le> head" "hr_target_header_hash out = bh b'"
    using grandpa_safety s(5) by (simp_all add: b'_def)
  show "b' \<le> head" by fact
  have len: "a' + length (hs hint) = b'"
    using s(1) \<open>a' < b'\<close> by (simp add: a'_def b'_def)
  note roots = linked_genuine_roots [of "hr_trusted_header_hash evm" a' "hs hint", unfolded len]
  have "map (state_root_of B) (hs hint) = map (\<lambda>n. h_state_root (hdr n)) [a' + 1..<b' + 1]"
    and "map (data_root_of B) (hs hint) = map (\<lambda>n. h_data_root (hdr n)) [a' + 1..<b' + 1]"
    using s(3,4) fin gen by (intro roots; simp add: a'_def)+
  then show "output = bh b' @
      padded_root B (3 + k) (map (\<lambda>n. h_state_root (hdr n)) [a' + 1..<b' + 1]) @
      padded_root B (3 + k) (map (\<lambda>n. h_data_root (hdr n)) [a' + 1..<b' + 1])"
    using s(6,7) fin by (simp add: out packed_header_range_output_def)
qed

text \<open>An attested rotation: the output is the hash of the next authority set.\<close>

text \<open>The keys read from a genuine header of block \<open>n\<close> are the ones its digest announces.\<close>

lemma announced_keys:
  assumes gen: "genuine h" and n: "n \<le> head" "hash_encoded_header B h = bh n"
    and pos: "points_at_change C head hdr h p" and S: "length (header_bytes h) < 2 ^ 32"
    and read: "scheduled_change_at B (header_bytes h) p (length ls) c" "length ls < 2 ^ 32"
      "subarray c (c + 40 * length ls) (header_bytes h) = encode_authorities ls" "list_all (\<lambda>k. length k = 32) ls"
  shows "ls \<noteq> [] \<and> (\<exists>pre post. h_logs (hdr n) = pre @ Consensus [70, 82, 78, 75] (scheduled_change ls) # post)"
proof -
  note bytes = genuine_bytes [OF gen n(2,1)]
  have "take (unat (header_size h)) (header_bytes h) = encode_header C (hdr n)"
    using gen n by (simp add: collision_free_def)
  then obtain pre ks post where log: "h_logs (hdr n) = pre @ Consensus [70, 82, 78, 75] (scheduled_change ks) # post"
      "length (h_logs (hdr n)) < 64" "ks \<noteq> []" "list_all (\<lambda>k. length k = 32) ks"
      "p = 96 + compact_length (of_nat n) + length (concat (map (encode_log C) pre))"
    using pos n(1) unfolding points_at_change_def by blast
  obtain before x after where item: "encode_header C (hdr n) = before @ x # consensus_log (scheduled_change ks) @ after"
      "length before = p"
    using block_digest_item [OF n(1) log(2,1)] log(5) by metis
  have "header_bytes h = before @ x # consensus_log (scheduled_change ks) @
      after @ drop (unat (header_size h)) (header_bytes h)"
    by (subst bytes(1)) (simp add: item(1))
  then have "ls = ks"
    using read(1) [folded item(2)] by (rule scheduled_change_keys [OF _ S log(4,3) _ read(2,3,4)])
  with log(1,3) show ?thesis
    by blast
qed

lemma attested_rotation_output:
  assumes att: "attested_rotation C B head bh hdr keys M S set_id set_hash output"
    and set: "set_hash = chain_hash (curta_sha256 B) (keys set_id)"
  shows "output = chain_hash (curta_sha256 B) (keys (set_id + 1))"
proof -
  obtain rot j where ok: "rotate_circuit B M (M * VALIDATOR_LENGTH + DELAY_LENGTH) rot j set_id set_hash = Some output"
      and wf: "wf_header S (target_header rot)" "S < 2 ^ 32" "wf_pubkeys M (new_pubkeys rot)"
        "target_header_num_authorities rot \<le> M"
      and gen: "genuine (target_header rot)"
      and pos: "points_at_change C head hdr (target_header rot) (next_authority_set_start_position rot)"
      and trusted: "trusted_set_assumptions B M j (keys set_id)"
    using att unfolding attested_rotation_def by blast
  let ?h = "target_header rot" and ?num = "target_header_num_authorities rot"
  let ?ls = "take ?num (new_pubkeys rot)"
  have len: "length (header_bytes ?h) = S" and size: "unat (header_size ?h) \<le> S"
    using wf(1) gen by (simp_all add: wf_header_def collision_free_def)
  note s = rotate_circuit_accepted [OF wf(1,2) size wf(3) refl wf(4) set trusted ok]
  define n where "n = unat (epoch_end_block_number rot)"
  have "length (hash_encoded_header B ?h) = 32"
    using size len by (intro length_header_hash) simp
  then have n: "n \<le> head" "hash_encoded_header B ?h = bh n"
    using grandpa_safety s(1) by (simp_all add: n_def)
  obtain c where c: "scheduled_change_at B (header_bytes ?h) (next_authority_set_start_position rot) ?num c"
      "subarray c (c + 40 * ?num) (header_bytes ?h) = encode_authorities ?ls"
    using s(2) by blast
  have ls: "length ?ls = ?num" "list_all (\<lambda>k. length k = 32) ?ls" "?num < 2 ^ 32"
    using wf(3,4) trusted by (auto simp: wf_pubkeys_def trusted_set_assumptions_def list_all_iff dest: in_set_takeD)
  have "?ls \<noteq> [] \<and> (\<exists>pre post. h_logs (hdr n) = pre @ Consensus [70, 82, 78, 75] (scheduled_change ?ls) # post)"
    using c ls len wf(2) by (intro announced_keys [OF gen n pos]) simp_all
  then have "?ls = keys (set_id + 1)"
    using s(1) n ls(2) announces [of n set_id "js_signatures j" _ ?ls] by (auto simp: n_def)
  then show ?thesis
    using s(3) by simp
qed

lemma length_padded_root: "length (padded_root B (3 + k) leaves) = 32"
proof -
  have "3 + k = Suc (2 + k)"
    by simp
  then show ?thesis
    by (simp only: padded_root_def merkle_tree.simps length_curta_sha256)
qed

lemma length_keys_hash: "length (chain_hash (curta_sha256 B) (keys i)) = 32"
  using keys_nonempty [of i] by (simp add: length_chain_hash length_curta_sha256)

text \<open>The step of the invariant.\<close>

abbreviation genuine_storage :: "(bytes \<Rightarrow> bytes) \<Rightarrow> vectorx \<Rightarrow> bool" where
  "genuine_storage K \<equiv> canonical K B head bh hdr keys k"

lemma canonicalD:
  assumes "genuine_storage K st"
  shows "blockHeightToHeaderHash st b \<noteq> zero32 \<Longrightarrow> unat b \<le> head \<and> blockHeightToHeaderHash st b = bh (unat b)"
    and "authoritySetIdToHash st i \<noteq> zero32 \<Longrightarrow> authoritySetIdToHash st i = chain_hash (curta_sha256 B) (keys i)"
  using assms unfolding canonical_def by blast+

lemma canonical_committed:
  assumes st: "genuine_storage K st" and K: "injective_keys K" "keccak256 E = K"
    and b: "unat b \<le> head"
  shows "genuine_storage K (committed E i b [bh (unat b),
      padded_root B (3 + k) (map (\<lambda>n. h_state_root (hdr n)) [unat (latestBlock st) + 1..<unat b + 1]),
      padded_root B (3 + k) (map (\<lambda>n. h_data_root (hdr n)) [unat (latestBlock st) + 1..<unat b + 1])] st)"
  using st b range_hash_eq [OF K(1)] K(2)
  unfolding canonical_def committed_def range_key_def by (simp del: upt_Suc)

text \<open>An answer of the gateway to a rotation from a genuine set is the hash of the next one.\<close>

lemma rotation_answer:
  assumes "attested K C B mapreduce head bh hdr keys M S max_num_headers k st E"
    and set: "set_hash = chain_hash (curta_sha256 B) (keys i)"
    and call: "verifiedCall E (gateway st) (rotateFunctionId st) (packed_rotate_input i set_hash) = Some ans"
      "decode_words 1 ans = Some ws"
  shows "ws ! 0 = chain_hash (curta_sha256 B) (keys (i + 1))"
proof -
  have "attested_rotation C B head bh hdr keys M S i set_hash ans"
    using assms(1) set call(1) length_keys_hash unfolding attested_def by auto
  then have "ans = chain_hash (curta_sha256 B) (keys (i + 1))"
    using set by (rule attested_rotation_output)
  then show ?thesis
    using call(2) length_keys_hash [of "i + 1"] by (auto simp: decode_words_def subarray_def)
qed

lemma canonical_step:
  assumes st: "genuine_storage K st" and K: "injective_keys K"
    and step: "public_step (attested K C B mapreduce head bh hdr keys M S max_num_headers k) st st'"
  shows "genuine_storage K st'"
  using step
proof (cases rule: public_step_cases)
  case (same f)
  then show ?thesis
    using st by (simp add: canonical_def)
next
  case (commit E i b ws)
  let ?evm = "commit_input st i b"
  have latest: "unat (latestBlock st) \<le> head" "blockHeightToHeaderHash st (latestBlock st) = bh (unat (latestBlock st))"
    using canonicalD(1) [OF st commit(2)] by simp_all
  have set: "authoritySetIdToHash st i = chain_hash (curta_sha256 B) (keys i)"
    using canonicalD(2) [OF st commit(3)] .
  obtain ans where ans: "verifiedCall E (gateway st) (headerRangeFunctionId st)
        (packed_header_range_input ?evm) = Some ans" "decode_words 3 ans = Some ws"
    using commit(6) by (auto simp: bind_eq_Some_conv)
  have "length (hr_trusted_header_hash ?evm) = 32" "length (hr_authority_set_hash ?evm) = 32"
    using latest set length_bh length_keys_hash by (simp_all add: commit_input_def)
  then have att: "attested_range C B mapreduce head bh hdr keys M max_num_headers k ?evm ans"
    and K': "keccak256 E = K"
    using commit(1) ans(1) unfolding attested_def by blast+
  note out = attested_range_output [OF att]
  have b: "unat b \<le> head" and ws: "ws = [bh (unat b),
      padded_root B (3 + k) (map (\<lambda>n. h_state_root (hdr n)) [unat (latestBlock st) + 1..<unat b + 1]),
      padded_root B (3 + k) (map (\<lambda>n. h_data_root (hdr n)) [unat (latestBlock st) + 1..<unat b + 1])]"
    using out ans(2) set latest commit(5) decode_three [OF length_bh length_padded_root length_padded_root]
    by (simp_all add: commit_input_def del: upt_Suc)
  show ?thesis
    unfolding commit(7) ws by (rule canonical_committed [OF st K K' b])
next
  case (rotated E i ws)
  have set: "authoritySetIdToHash st i = chain_hash (curta_sha256 B) (keys i)"
    using canonicalD(2) [OF st rotated(2)] .
  obtain ans where ans: "verifiedCall E (gateway st) (rotateFunctionId st)
        (packed_rotate_input i (authoritySetIdToHash st i)) = Some ans" "decode_words 1 ans = Some ws"
    using rotated(5) by (auto simp: bind_eq_Some_conv)
  from rotation_answer [OF rotated(1) set this] show ?thesis
    using st rotated(6) by (simp add: canonical_def)
qed

text \<open>The honest prover is attested, when different blocks have different hashes.\<close>

lemma hinted_honest: "hinted (honest_headers S H a b) r i = honest_headers S H a b (relative_nums r i)"
proof (induction i arbitrary: r)
  case 0
  show ?case by simp
next
  case (Suc i)
  have "relative_nums r (Suc i) = relative_nums r i @ relative_nums (r + 8 * 2 ^ i) i"
    by (rule nth_equalityI) (auto simp: relative_nums_def nth_append ac_simps simp del: upt_Suc)
  moreover have "honest_headers S H a b (xs @ ys) = honest_headers S H a b xs @ honest_headers S H a b ys" for xs ys
    by (simp add: honest_headers_def)
  ultimately show ?case
    by (simp add: Suc)
qed

lemma encoded_genuine:
  assumes "inj_on bh {..head}" and "n \<le> head" and "length (encode_header C (hdr n)) \<le> S" and "S < 2 ^ 32"
  shows "genuine (encoded_header C S (hdr n))"
proof -
  have size: "unat (header_size (encoded_header C S (hdr n))) = length (encode_header C (hdr n))"
    using assms(3,4) by (simp add: encoded_header_def unat_of_nat_small)
  have "m = n" if "m \<le> head" "hash_encoded_header B (encoded_header C S (hdr n)) = bh m" for m
    using that(2) inj_onD [OF assms(1), of n m] that(1) assms(2) by (simp add: hash_encoded [OF assms(2-4)])
  then show ?thesis
    unfolding collision_free_def size by (auto simp: encoded_header_def)
qed

lemma hint_trusted_set:
  assumes hint: "HintSimpleJustification C N R chain db M n t = Inr j"
    and j: "supermajority M j h n t (keys t)" "\<forall>key \<in> set (keys t). length key = 32"
    and inj: "inj_on (curta_sha256 B) (set (chain_inputs (curta_sha256 B) [] (keys t)))"
  shows "trusted_set_assumptions B M j (keys t)"
proof -
  have M: "length (js_validator_signed j) = M" "0 < M" "M < 2 ^ 30"
    and sel: "take (unat (js_num_authorities j)) (js_pubkeys j) = keys t"
    using j(1) by (auto simp: supermajority_def)
  have M': "M < 2 ^ 32"
    using M(3) by simp
  have "wf_justification M j \<and> unat (js_num_authorities j) \<le> M \<and>
      (\<forall>i < M. unat (js_num_authorities j) \<le> i \<longrightarrow> \<not> js_validator_signed j ! i)"
    by (rule HintSimpleJustification_Inr [OF hint M(1) M']) blast
  then show ?thesis
    using M sel inj j(2) keys_nonempty by (simp add: trusted_set_assumptions_def)
qed

lemma honest_range_attested:
  assumes range: "a < b" "b \<le> head" "b \<le> a + 8 * 2 ^ k"
    and S: "\<And>n. n \<le> b \<Longrightarrow> length (encode_header C (hdr n)) \<le> S" "S < 2 ^ 32"
    and hint: "HintSimpleJustification C N R chain db M (of_nat b) t = Inr j"
    and j: "supermajority M j (bh b) (of_nat b) t (keys t)" "\<forall>key \<in> set (keys t). length key = 32"
    and inj: "inj_on (curta_sha256 B) (set (chain_inputs (curta_sha256 B) [] (keys t)))" "inj_on bh {..head}"
  shows "attested_range C B mapreduce head bh hdr keys M max_num_headers k
    \<lparr>hr_trusted_block = of_nat a, hr_trusted_header_hash = bh a, hr_authority_set_id = t,
     hr_authority_set_hash = chain_hash (curta_sha256 B) (keys t), hr_target_block = of_nat b\<rparr>
    (bh b @ padded_root B (3 + k) (map (\<lambda>n. h_state_root (hdr n)) [a + 1..<b + 1]) @
      padded_root B (3 + k) (map (\<lambda>n. h_data_root (hdr n)) [a + 1..<b + 1]))"
    (is "attested_range _ _ _ _ _ _ _ _ _ _ ?evm ?ans")
proof -
  let ?hint = "honest_headers S (\<lambda>n. encoded_header C S (hdr n)) a b"
  have bound: "a + 1 + 8 * 2 ^ k < 2 ^ 32"
    using range room by (simp add: HEADERS_PER_MAP_def)
  have un: "unat (of_nat a :: u32) = a" "unat (of_nat b :: u32) = b"
    using range head_bound by (auto intro!: unat_of_nat_small)
  have just: "verify_simple_justification B M (of_nat b) (bh b) t (chain_hash (curta_sha256 B) (keys t)) j = Some ()"
    by (rule supermajority_accepted [OF hint j(1) length_bh [OF range(2)]])
  have length_honest: "length (?hint (relative_nums 0 k)) = 8 * 2 ^ k"
    by (simp add: honest_headers_def)
  have gen: "genuine h" if h: "h \<in> set (take (b - a) (hinted ?hint 0 k))" for h
  proof -
    obtain i where i: "i < b - a" "i < 8 * 2 ^ k" "h = ?hint (relative_nums 0 k) ! i"
      using h unfolding hinted_honest in_set_conv_nth by (auto simp: length_honest)
    have "unat (of_nat (1 + i) :: u32) = 1 + i"
      using i(2) bound by (intro unat_of_nat_small) simp
    then have "h = encoded_header C S (hdr (a + 1 + i))"
      using i by (simp add: honest_headers_def relative_nums_def del: upt_Suc)
    then show ?thesis
      using i(1) range(2) S by (simp only:) (intro encoded_genuine [OF inj(2)]; simp)
  qed
  have "header_range_circuit B mapreduce M max_num_headers ?hint j ?evm = Some
      \<lparr>hr_target_header_hash = bh b,
       hr_state_root_commitment = padded_root B (3 + k) (map (\<lambda>n. h_state_root (hdr n)) [a + 1..<b + 1]),
       hr_data_root_commitment = padded_root B (3 + k) (map (\<lambda>n. h_data_root (hdr n)) [a + 1..<b + 1])\<rparr>"
    unfolding header_range_circuit_iff
    using verify_subchain_blocks [OF tree [unfolded HEADERS_PER_MAP_def] bound range S] just by simp
  then show ?thesis
    unfolding attested_range_def
    using gen hint_trusted_set [OF hint j inj(1)]
    by (intro exI [of _ ?hint] exI [of _ j] exI conjI)
      (auto simp: packed_header_range_output_def un honest_headers_def HEADERS_PER_MAP_def simp del: upt_Suc)
qed

end

section \<open>From the request to the new head\<close>

text \<open>What the operator reads of a contract: the getters of the public storage variables.\<close>

definition contract_view_of :: "vectorx \<Rightarrow> contract_view" where
  "contract_view_of st = answering_view (latestBlock st) (headerRangeCommitmentTreeSize st)
     (headerRangeFunctionId st) (rotateFunctionId st) (blockHeightToHeaderHash st) (authoritySetIdToHash st)"

text \<open>A contract at block \<open>L\<close>, ready for a header range under the given authority set.\<close>

definition tracks :: "(nat \<Rightarrow> bytes) \<Rightarrow> nat \<Rightarrow> u64 \<Rightarrow> bytes \<Rightarrow> u32 \<Rightarrow> vectorx \<Rightarrow> bool" where
  "tracks bh L set_id set_hash tree_size st \<longleftrightarrow>
     \<not> frozen st \<and> latestBlock st = of_nat L \<and>
     blockHeightToHeaderHash st (of_nat L) = bh L \<and> bh L \<noteq> zero32 \<and>
     authoritySetIdToHash st set_id = set_hash \<and> set_hash \<noteq> zero32 \<and>
     latestAuthoritySetId st \<le> set_id \<and> headerRangeCommitmentTreeSize st = tree_size"

context chain_prover
begin

lemma commit_accepted:
  assumes st: "tracks bh L t (chain_hash (curta_sha256 B) (auths (f - 1))) w st"
    and f: "L < f" "f \<le> head" "f \<le> L + 8 * 2 ^ k"
    and k: "next_power_of_two (max_num_headers div 8) = 2 ^ k" "3 + k < 32" "L + 1 + 8 * 2 ^ k < 2 ^ 32"
    and S: "\<And>n. n \<le> f \<Longrightarrow> length (encode_header C (hdr n)) \<le> S" "S < 2 ^ 32"
    and j: "HintSimpleJustification C N R chain db M (of_nat f) t = Inr j"
      "supermajority M j (bh f) (of_nat f) t (auths (f - 1))"
    and gw: "\<And>out. header_range_circuit B mapreduce M max_num_headers
        (fetched_headers C N B S \<lparr>global_start_block = of_nat L, global_end_block = of_nat f\<rparr>) j
        (commit_input st t (of_nat f)) = Some out \<Longrightarrow>
      verifiedCall E (gateway st) (headerRangeFunctionId st)
        (packed_header_range_input (commit_input st t (of_nat f))) = Some (packed_header_range_output out)"
  shows "\<exists>state data st' ev.
    get_merkle_root_commitments C N (of_nat (2 ^ (3 + k))) (of_nat L) (of_nat f) = Inr (state, data) \<and>
    commitHeaderRange E t (of_nat f) st = Inr (st', [], ev) \<and>
    st' = committed E t (of_nat f) [bh f, state, data] st"
proof -
  have input: "commit_input st t (of_nat f) = \<lparr>hr_trusted_block = of_nat L, hr_trusted_header_hash = bh L,
      hr_authority_set_id = t, hr_authority_set_hash = chain_hash (curta_sha256 B) (auths (f - 1)),
      hr_target_block = of_nat f\<rparr>"
    using st by (simp add: commit_input_def tracks_def)
  obtain state data where roots: "get_merkle_root_commitments C N (of_nat (2 ^ (3 + k))) (of_nat L) (of_nat f) =
        Inr (state, data)"
      and out: "header_range_circuit B mapreduce M max_num_headers
        (fetched_headers C N B S \<lparr>global_start_block = of_nat L, global_end_block = of_nat f\<rparr>) j
        (commit_input st t (of_nat f)) =
      Some \<lparr>hr_target_header_hash = bh f, hr_state_root_commitment = state, hr_data_root_commitment = data\<rparr>"
    using header_range_accepted [OF k f S j] unfolding input by blast
  have "3 + k = Suc (2 + k)" "f - L \<le> 2 ^ (3 + k)"
    using f(3) by (simp_all add: power_add)
  then have root: "length (merkle_tree (sha256 C) (3 + k) leaves) = 32" for leaves
    by (simp only: merkle_tree.simps same_sha256 length_curta_sha256)
  have "length state = 32" "length data = 32"
    using roots [unfolded get_merkle_root_commitments_ok [OF k(2) less_imp_le [OF f(1)] f(2)
        \<open>f - L \<le> 2 ^ (3 + k)\<close>]] root by (simp_all only: sum.inject prod.inject) auto
  then have "Option.bind (verifiedCall E (gateway st) (headerRangeFunctionId st)
      (packed_header_range_input (commit_input st t (of_nat f)))) (decode_words 3) = Some [bh f, state, data]"
    using gw [OF out] decode_three length_bh [OF f(2)] by (simp add: packed_header_range_output_def)
  moreover have "(of_nat L :: u32) < of_nat f"
    using f head_bound unat_of_nat_small [of L, where 'a = 32] unat_of_nat_small [of f, where 'a = 32]
    by (simp add: word_less_nat_alt)
  ultimately show ?thesis
    using st roots unfolding commitHeaderRange_iff tracks_def by simp
qed

end

section \<open>The light client of the demonstration chain\<close>

lemma scheduled_change_single:
  assumes "scheduled_change ks = scheduled_change [key]" and "list_all (\<lambda>k. length k = 32) ks" "length key = 32"
  shows "ks = [key]"
proof -
  have "length (scheduled_change ks) = length (scheduled_change [key])"
    using assms(1) by simp
  then have "compact_length (of_nat (length ks)) + 40 * length ks = compact_length (of_nat (length [key])) + 40"
    using assms(2,3) length_encode_authorities [of ks] length_encode_authorities [of "[key]"]
    by (simp add: scheduled_change_def length_scale_compact del: of_nat_Suc)
  then have "length ks = 1"
    using compact_length_bounds [of "of_nat (length ks)"] compact_length_bounds [of "of_nat (length [key])"] by linarith
  then obtain k where "ks = [k]"
    by (cases ks) auto
  then show ?thesis
    using assms by (simp add: scheduled_change_def encode_authorities_def)
qed

interpretation demol: light_client_chain demo_node 20 demo_block_hash demo_avail_header "\<lambda>n. n div 5"
  "\<lambda>_. [replicate 32 7]" chain_crates chain_gadgets "\<lambda>bs. pad32 (drop 32 bs)" chain_verify ref_mapreduce
  "\<lambda>_. [replicate 32 7]" 8 0
proof (intro light_client_chain.intro light_client_chain_axioms.intro demop.chain_prover_axioms demo_range_jobs)
  show "unat b \<le> 20 \<and> h = demo_block_hash (unat b)"
    if h: "length h = 32" "finalized chain_verify [replicate 32 7] sigs h b t" for h sigs b t
  proof -
    obtain rnd where "2 * length [replicate 32 (7 :: byte)] < 3 * card {i. i < length [replicate 32 (7 :: byte)] \<and>
        chain_verify ([replicate 32 7] ! i) (encode_precommit h b rnd t) (sigs ! i)}"
      using h(2) unfolding finalized_def by blast
    then have "{i. i < length [replicate 32 (7 :: byte)] \<and>
        chain_verify ([replicate 32 7] ! i) (encode_precommit h b rnd t) (sigs ! i)} \<noteq> {}"
      by (metis card.empty less_nat_zero_code mult_0_right)
    then obtain i where "chain_verify ([replicate 32 7] ! i) (encode_precommit h b rnd t) (sigs ! i)"
      by blast
    then show ?thesis
      using block_message_precommit [OF h(1)] by (simp add: chain_verify_def)
  qed
  show "ks = [replicate 32 7]"
    if "h_logs (demo_avail_header n) = pre @ Consensus [70, 82, 78, 75] (scheduled_change ks) # post"
      "list_all (\<lambda>k. length k = 32) ks" for n pre ks post
    using that by (intro scheduled_change_single)
      (auto simp: demo_avail_header_def Cons_eq_append_conv append_eq_Cons_conv split: if_splits)
qed (simp_all add: HEADERS_PER_MAP_def)

text \<open>The public inputs are packed without loss.\<close>

lemma packed_header_range_input_inject:
  assumes "packed_header_range_input x = packed_header_range_input y"
    and "length (hr_trusted_header_hash x) = 32" "length (hr_authority_set_hash x) = 32"
    and "length (hr_trusted_header_hash y) = 32" "length (hr_authority_set_hash y) = 32"
  shows "x = (y :: HeaderRangeInput)"
proof -
  note u = unpack_header_range_input [OF assms(2,3), unfolded assms(1) unpack_header_range_input [OF assms(4,5)]]
  have "hr_trusted_block x = hr_trusted_block y" "hr_authority_set_id x = hr_authority_set_id y"
    "hr_target_block x = hr_target_block y"
    using u(1,3,5) by (metis Inr_inject from_be_bytes_packed)+
  then show ?thesis
    using u(2,4) by (simp add: HeaderRangeInput.equality)
qed

definition demo_evm :: evm where
  "demo_evm = answering_evm (\<lambda>fid input.
     if fid = replicate 32 1 \<and> input = packed_header_range_input
         \<lparr>hr_trusted_block = of_nat 7, hr_trusted_header_hash = demo_block_hash 7, hr_authority_set_id = of_nat 1,
          hr_authority_set_hash = chain_hash (curta_sha256 chain_gadgets) [replicate 32 7],
          hr_target_block = of_nat 10\<rparr>
     then Some (demo_block_hash 10 @
       padded_root chain_gadgets (3 + 0) (map (\<lambda>n. h_state_root (demo_avail_header n)) [7 + 1..<10 + 1]) @
       padded_root chain_gadgets (3 + 0) (map (\<lambda>n. h_data_root (demo_avail_header n)) [7 + 1..<10 + 1]))
     else None)"

definition demo_contract :: vectorx where
  "demo_contract = contract_at (of_nat 7) (demo_block_hash 7) (of_nat 1)
     (chain_hash (curta_sha256 chain_gadgets) [replicate 32 7])"

lemma demo_attested:
  "attested (\<lambda>bs. bs) chain_crates chain_gadgets ref_mapreduce 20 demo_block_hash demo_avail_header
     (\<lambda>_. [replicate 32 7]) 2 400 8 0 demo_contract demo_evm"
proof (rule demo_epoch_end_hint)
  let ?evm = "\<lparr>hr_trusted_block = of_nat 7, hr_trusted_header_hash = demo_block_hash 7,
    hr_authority_set_id = of_nat 1, hr_authority_set_hash = chain_hash (curta_sha256 chain_gadgets) [replicate 32 7],
    hr_target_block = of_nat 10\<rparr>"
  fix j
  assume j: "HintSimpleJustification chain_crates demo_node mem_redis ''avail'' empty_db 2
      (of_nat 10) (of_nat 1) = Inr j"
    "supermajority 2 j (demo_block_hash 10) (of_nat 10) (of_nat 1) [replicate 32 7]"
  have size: "length (encode_header chain_crates (demo_avail_header n)) \<le> 400" if "n \<le> 10" for n
    using demo_header_length [of n] that by simp
  have range: "attested_range chain_crates chain_gadgets ref_mapreduce 20 demo_block_hash demo_avail_header
      (\<lambda>_. [replicate 32 7]) 2 8 0 ?evm (demo_block_hash 10 @
       padded_root chain_gadgets (3 + 0) (map (\<lambda>n. h_state_root (demo_avail_header n)) [7 + 1..<10 + 1]) @
       padded_root chain_gadgets (3 + 0) (map (\<lambda>n. h_data_root (demo_avail_header n)) [7 + 1..<10 + 1]))"
    by (rule demol.honest_range_attested [OF _ _ _ size _ j])
      (simp_all add: demo_block_hash_inj)
  have "length (chain_hash (curta_sha256 chain_gadgets) [replicate 32 7]) = 32"
    by (rule demol.length_keys_hash)
  then have "evm = ?evm" if "length (hr_trusted_header_hash evm) = 32" "length (hr_authority_set_hash evm) = 32"
      "packed_header_range_input evm = packed_header_range_input ?evm" for evm :: HeaderRangeInput
    using that by (intro packed_header_range_input_inject) simp_all
  then show ?thesis
    using range unfolding attested_def demo_evm_def demo_contract_def answering_evm_def contract_at_def
    by (auto split: if_splits simp del: upt_Suc)
qed

lemma demo_canonical:
  "canonical (\<lambda>bs. bs) chain_gadgets 20 demo_block_hash demo_avail_header (\<lambda>_. [replicate 32 7]) 0 demo_contract"
  by (auto simp: canonical_def demo_contract_def contract_at_def)

lemma demo_nonzero:
  "demo_block_hash 7 \<noteq> zero32" "chain_hash (curta_sha256 chain_gadgets) [replicate 32 7] \<noteq> zero32"
proof -
  have "hd (demo_block_hash 7) \<noteq> hd zero32"
    by (simp add: demo_block_hash_eq)
  then show "demo_block_hash 7 \<noteq> zero32"
    by metis
  show "chain_hash (curta_sha256 chain_gadgets) [replicate 32 7] \<noteq> zero32"
    by (simp add: chain_gadgets_def ref_gadgets_def chain_hash_def pad32_def)
qed

text \<open>Its gateway answers with the output of the circuit on the honest prover's hints.\<close>

lemma demo_evm_serves:
  assumes j: "HintSimpleJustification chain_crates demo_node mem_redis ''avail'' empty_db 2
      (of_nat 10) (of_nat 1) = Inr j"
    "supermajority 2 j (demo_block_hash 10) (of_nat 10) (of_nat 1) [replicate 32 7]"
    and out: "header_range_circuit chain_gadgets ref_mapreduce 2 8 (fetched_headers chain_crates demo_node chain_gadgets
        400 \<lparr>global_start_block = of_nat 7, global_end_block = of_nat 10\<rparr>) j
        (commit_input demo_contract (of_nat 1) (of_nat 10)) = Some out"
  shows "verifiedCall demo_evm (gateway demo_contract) (headerRangeFunctionId demo_contract)
      (packed_header_range_input (commit_input demo_contract (of_nat 1) (of_nat 10))) =
    Some (packed_header_range_output out)"
proof -
  have size: "length (encode_header chain_crates (demo_avail_header n)) \<le> 400" if "n \<le> 10" for n
    using demo_header_length [of n] that by simp
  have sub: "verify_subchain chain_gadgets ref_mapreduce (fetched_headers chain_crates demo_node chain_gadgets 400
      \<lparr>global_start_block = of_nat 7, global_end_block = of_nat 10\<rparr>) 8 (of_nat 7) (demo_block_hash 7) (of_nat 10) =
    Some \<lparr>target_header_hash = demo_block_hash 10,
      state_root_merkle_root = padded_root chain_gadgets (3 + 0) (map (\<lambda>n. h_state_root (demo_avail_header n)) [7 + 1..<10 + 1]),
      data_root_merkle_root = padded_root chain_gadgets (3 + 0) (map (\<lambda>n. h_data_root (demo_avail_header n)) [7 + 1..<10 + 1])\<rparr>"
    by (rule demop.verify_subchain_fetched [OF demo_range_jobs [unfolded HEADERS_PER_MAP_def] _ _ _ _ size]) simp_all
  have input: "commit_input demo_contract (of_nat 1) (of_nat 10) =
      \<lparr>hr_trusted_block = of_nat 7, hr_trusted_header_hash = demo_block_hash 7, hr_authority_set_id = of_nat 1,
       hr_authority_set_hash = chain_hash (curta_sha256 chain_gadgets) [replicate 32 7], hr_target_block = of_nat 10\<rparr>"
    by (simp add: commit_input_def demo_contract_def contract_at_def)
  have "out = \<lparr>hr_target_header_hash = demo_block_hash 10,
      hr_state_root_commitment = padded_root chain_gadgets (3 + 0) (map (\<lambda>n. h_state_root (demo_avail_header n)) [7 + 1..<10 + 1]),
      hr_data_root_commitment = padded_root chain_gadgets (3 + 0) (map (\<lambda>n. h_data_root (demo_avail_header n)) [7 + 1..<10 + 1])\<rparr>"
    using out sub unfolding header_range_circuit_iff input by (simp del: upt_Suc of_nat_numeral)
  then show ?thesis
    unfolding input by (simp add: demo_evm_def answering_evm_def demo_contract_def contract_at_def
        packed_header_range_output_def del: upt_Suc of_nat_numeral)
qed

lemma demo_commit:
  "\<exists>st' ev. commitHeaderRange demo_evm (of_nat 1) (of_nat 10) demo_contract = Inr (st', [], ev) \<and>
     blockHeightToHeaderHash st' (of_nat 10) = demo_block_hash 10 \<and> latestBlock st' = 10"
proof -
  show ?thesis
    using demo_nonzero unfolding commitHeaderRange_iff
    using decode_three [OF _ demol.length_padded_root demol.length_padded_root, of "demo_block_hash 10"]
    by (simp add: demo_evm_def demo_contract_def contract_at_def answering_evm_def commit_input_def committed_def
        del: upt_Suc)
qed

section \<open>Properties\<close>

text \<open>
  C3: the light client is safe. Under GRANDPA's safety, every storage the contract reaches from
  one that holds finalized data by transactions anyone can send, with a gateway whose answers are
  verified proofs of the two circuits, holds data of the finalized chain only: each stored header
  hash is the hash of the finalized block of that height, each stored authority set hash commits
  to the keys of that authority set, and the commitments of a block range are the roots of the
  trees over the data roots and state roots of its blocks. A verified proof is an accepted run of a
  circuit whose padding slots are not marked as signed and, for a rotation, whose start position is
  the one of a scheduled change of the header: C36 and C37 show that the circuits do not check these.
\<close>

theorem light_client_safe:
  assumes "light_client_chain N head bh hdr sid auths C B blake2b_256 ed25519_verify mapreduce keys max_num_headers k"
    and "injective_keys K" and "canonical K B head bh hdr keys k st"
    and "(public_step (attested K C B mapreduce head bh hdr keys M S max_num_headers k))\<^sup>*\<^sup>* st st'"
  shows "canonical K B head bh hdr keys k st'"
  using assms(4,3)
  by (induction rule: rtranclp_induct) (auto intro: light_client_chain.canonical_step [OF assms(1) _ assms(2)])

theorem light_client_safe_witness:
  "\<exists>st'. (public_step (attested (\<lambda>bs. bs) chain_crates chain_gadgets ref_mapreduce 20 demo_block_hash
      demo_avail_header (\<lambda>_. [replicate 32 7]) 2 400 8 0))\<^sup>*\<^sup>* demo_contract st' \<and> latestBlock st' = 10 \<and>
     canonical (\<lambda>bs. bs) chain_gadgets 20 demo_block_hash demo_avail_header (\<lambda>_. [replicate 32 7]) 0 st'"
proof -
  obtain st' ev where st': "commitHeaderRange demo_evm (of_nat 1) (of_nat 10) demo_contract = Inr (st', [], ev)"
      "latestBlock st' = 10"
    using demo_commit by blast
  then have "(public_step (attested (\<lambda>bs. bs) chain_crates chain_gadgets ref_mapreduce 20 demo_block_hash
      demo_avail_header (\<lambda>_. [replicate 32 7]) 2 400 8 0))\<^sup>*\<^sup>* demo_contract st'"
    using demo_attested by (blast intro: public_step.commit_range)
  with st' show ?thesis
    using light_client_safe [OF demol.light_client_chain_axioms injective_keys_id demo_canonical] by blast
qed

text \<open>
  C5: the parts together make progress. On a chain with an epoch end within one commitment tree of
  the contract's head, a pass of the operator requests the header range up to it with exactly the
  input the contract will verify; the honest prover's hints satisfy the circuit, and when the
  gateway answers with the circuit's output, the commit transaction succeeds: the epoch end
  becomes the head with its hash, and the stored commitments are the ones the host computes.
\<close>

theorem request_reaches_new_head:
  assumes "chain_prover N head bh hdr sid auths C B blake2b_256 ed25519_verify mapreduce"
    and "t = of_nat (sid L)" and "0 < L" and "L \<le> head" and "epoch_end sid head (sid L) f"
    and "tracks bh L t (chain_hash (curta_sha256 B) (auths (f - 1))) (of_nat (HEADERS_PER_MAP * 2 ^ k)) st"
    and "next_power_of_two (max_num_headers div HEADERS_PER_MAP) = 2 ^ k" and "3 + k < 32"
    and "L + 1 + HEADERS_PER_MAP * 2 ^ k < 2 ^ 32" and "f \<le> L + HEADERS_PER_MAP * 2 ^ k"
    and "\<forall>n \<le> f. length (encode_header C (hdr n)) \<le> S" and "S < 2 ^ 32"
    and "HintSimpleJustification C N R chain db M (of_nat f) t = Inr j"
    and "supermajority M j (bh f) (of_nat f) t (auths (f - 1))"
    and "\<forall>out. header_range_circuit B mapreduce M max_num_headers
        (fetched_headers C N B S \<lparr>global_start_block = of_nat L, global_end_block = of_nat f\<rparr>) j
        (commit_input st t (of_nat f)) = Some out \<longrightarrow>
      verifiedCall E (gateway st) (headerRangeFunctionId st)
        (packed_header_range_input (commit_input st t (of_nat f))) = Some (packed_header_range_output out)"
  shows "\<exists>req state data st' ev.
    find_and_request_header_range self (contract_view_of st) C N R chain db submit interval requests =
      Inr (requests @ [req]) \<and>
    rq_function_id req = headerRangeFunctionId st \<and> rq_function_data req = CommitHeaderRangeCall t (of_nat f) \<and>
    rq_input req = packed_header_range_input (commit_input st t (of_nat f)) \<and>
    get_merkle_root_commitments C N (of_nat (2 ^ (3 + k))) (of_nat L) (of_nat f) = Inr (state, data) \<and>
    commitHeaderRange E t (of_nat f) st = Inr (st', [], ev) \<and>
    latestBlock st' = of_nat f \<and> blockHeightToHeaderHash st' (of_nat f) = bh f \<and>
    stateRootCommitments st' (range_key E (of_nat L) (of_nat f)) = state \<and>
    dataRootCommitments st' (range_key E (of_nat L) (of_nat f)) = data"
proof -
  note chain = chain_prover.axioms(1) [OF assms(1)]
  have st: "latestBlock st = of_nat L" "headerRangeCommitmentTreeSize st = of_nat (HEADERS_PER_MAP * 2 ^ k)"
    "authoritySetIdToHash st t \<noteq> zero32"
    using assms(6) by (auto simp: tracks_def)
  have w: "unat (of_nat (HEADERS_PER_MAP * 2 ^ k) :: u32) = HEADERS_PER_MAP * 2 ^ k"
    using assms(9) by (intro unat_of_nat_small) simp
  have opc: "operator_chain N head bh hdr sid auths (contract_view_of st) L
      (of_nat (HEADERS_PER_MAP * 2 ^ k)) (headerRangeFunctionId st) (rotateFunctionId st)
      (blockHeightToHeaderHash st) (authoritySetIdToHash st)"
    unfolding contract_view_of_def st(1,2) by (rule answering_view [OF chain assms(3,4)])
  have request: "find_and_request_header_range self (contract_view_of st) C N R chain db submit interval requests =
      Inr (requests @ [header_range_request self (headerRangeFunctionId st) (of_nat L)
        (blockHeightToHeaderHash st (of_nat L)) t (authoritySetIdToHash st t) (of_nat f)])"
    unfolding assms(2)
    by (rule operator_chain.epoch_end_requested [OF opc assms(5), unfolded w])
      (use assms(9,10) st(3) in \<open>simp_all only: assms(2)\<close>, simp)
  have f: "L < f" "f \<le> head"
    using assms(4,5) avail_chain.set_id_mono [OF chain, of f L] by (auto simp: epoch_end_def intro: ccontr)
  obtain state data st' ev where c:
      "get_merkle_root_commitments C N (of_nat (2 ^ (3 + k))) (of_nat L) (of_nat f) = Inr (state, data)"
      "commitHeaderRange E t (of_nat f) st = Inr (st', [], ev)" "st' = committed E t (of_nat f) [bh f, state, data] st"
    using chain_prover.commit_accepted [OF assms(1,6) f _ _ assms(8) _ _ assms(12-14),
        where max_num_headers = max_num_headers and E = E] assms(7,9,10,11,15)
    by (auto simp: HEADERS_PER_MAP_def)
  show ?thesis
    by (intro exI [of _ "header_range_request self (headerRangeFunctionId st) (of_nat L)
        (blockHeightToHeaderHash st (of_nat L)) t (authoritySetIdToHash st t) (of_nat f)"]
        exI [of _ state] exI [of _ data] exI [of _ st'] exI [of _ ev] conjI request c(1,2))
      (simp_all add: header_range_request_def commit_input_def st c(3) committed_def)
qed

theorem request_reaches_new_head_witness:
  "\<exists>req st' ev. find_and_request_header_range demo_operator (contract_view_of demo_contract) chain_crates demo_node
      mem_redis ''avail'' empty_db (\<lambda>_. Inr []) 180 [] = Inr [req] \<and>
    commitHeaderRange demo_evm (of_nat (7 div 5)) (of_nat 10) demo_contract = Inr (st', [], ev) \<and> latestBlock st' = of_nat 10"
proof (rule demo_epoch_end_hint)
  fix j
  assume j: "HintSimpleJustification chain_crates demo_node mem_redis ''avail'' empty_db 2
      (of_nat 10) (of_nat 1) = Inr j"
    "supermajority 2 j (demo_block_hash 10) (of_nat 10) (of_nat 1) [replicate 32 7]"
  have "\<forall>n \<le> 10. length (encode_header chain_crates (demo_avail_header n)) \<le> 400"
    by (intro allI impI order_trans [OF demo_header_length]) simp_all
  moreover have "tracks demo_block_hash 7 (of_nat (7 div 5)) (chain_hash (curta_sha256 chain_gadgets) [replicate 32 7])
      (of_nat (HEADERS_PER_MAP * 2 ^ 0)) demo_contract"
    using demo_nonzero by (simp add: tracks_def demo_contract_def contract_at_def HEADERS_PER_MAP_def)
  ultimately show ?thesis
    using request_reaches_new_head [OF demop.chain_prover_axioms refl, of 7 10 0 demo_contract 8 400 mem_redis
        "''avail''" empty_db 2 j demo_evm demo_operator "\<lambda>_. Inr []" 180 "[]"] demo_range_jobs demo_served(1) j
      demo_evm_serves [OF j]
    by (simp add: HEADERS_PER_MAP_def) blast
qed

end
