(* ===== verification/Fill_Range.thy ===== *)
theory Fill_Range
  imports Light_Client
begin

text \<open>
  The tools of the guardian: \<open>bin/genesis.rs\<close> computes the parameters a contract starts from, and
  \<open>bin/fill_block_range.rs\<close> the arguments of \<open>updateBlockRangeData\<close>, which moves the contract
  ahead without proofs. On a chain, the contract accepts the filled ranges, and its storage holds
  finalized data afterwards.
\<close>

section \<open>Definitions\<close>

record GenesisParameters =
  GENESIS_HEIGHT :: u32
  GENESIS_HEADER :: bytes
  GENESIS_AUTHORITY_SET_ID :: u64
  GENESIS_AUTHORITY_SET_HASH :: bytes

definition genesis :: "crates \<Rightarrow> avail_node \<Rightarrow> u32 option \<Rightarrow> GenesisParameters result" where
  "genesis C N block =
     and_then (case block of Some block \<Rightarrow> get_header N block | None \<Rightarrow> get_head N) (\<lambda>header.
     let header_hash = avail_header_hash C header in
     and_then (get_authority_set_id N (h_number header)) (\<lambda>authority_set_id.
     and_then (block_authority_set_hash C N (h_number header)) (\<lambda>authority_set_hash.
     Inr \<lparr>GENESIS_HEIGHT = h_number header, GENESIS_HEADER = header_hash,
          GENESIS_AUTHORITY_SET_ID = authority_set_id, GENESIS_AUTHORITY_SET_HASH = authority_set_hash\<rparr>)))"

record BlockRangeData =
  start_blocks :: "u32 list"
  end_blocks :: "u32 list"
  header_hashes :: "bytes list"
  data_root_commitments :: "bytes list"
  state_root_commitments :: "bytes list"
  end_authority_set_id :: u64
  end_authority_set_hash :: bytes

text \<open>The values of \<open>(start..end).step_by(step)\<close>.\<close>

function step_by :: "nat \<Rightarrow> nat \<Rightarrow> nat \<Rightarrow> nat list" where
  "step_by step start stop = (if start < stop \<and> 0 < step then start # step_by step (start + step) stop else [])"
  by pat_completeness auto

termination
  by (relation "measure (\<lambda>(step, start, stop). stop - start)") auto

declare step_by.simps [simp del]

text \<open>The body of the loop: what one round pushes on the five vectors.\<close>

definition block_range ::
  "crates \<Rightarrow> avail_node \<Rightarrow> u32 \<Rightarrow> u32 \<Rightarrow> u32 \<Rightarrow> (u32 \<times> u32 \<times> bytes \<times> bytes \<times> bytes) result"
where
  "block_range C N tree_size stop_block i =
     and_then (checked_add i tree_size) (\<lambda>sum.
     let block_range_end = min sum stop_block in
     and_then (get_header N block_range_end) (\<lambda>header.
     and_then (get_merkle_root_commitments C N tree_size i block_range_end)
       (\<lambda>(state_root_commitment, data_root_commitment).
     and_then (ensure (length data_root_commitment = 32) unwrap_err) (\<lambda>_.
     and_then (ensure (length state_root_commitment = 32) unwrap_err) (\<lambda>_.
     Inr (i, block_range_end, avail_header_hash C header, data_root_commitment, state_root_commitment))))))"

definition get_block_range_data ::
  "crates \<Rightarrow> avail_node \<Rightarrow> u32 \<Rightarrow> u32 \<Rightarrow> u32 \<Rightarrow> BlockRangeData result"
where
  "get_block_range_data C N tree_size first_block stop_block =
     and_then (ensure (tree_size \<noteq> 0) ''assertion failed: step != 0'') (\<lambda>_.
     and_then (traverse (\<lambda>i. block_range C N tree_size stop_block (of_nat i))
         (step_by (unat tree_size) (unat first_block) (unat stop_block))) (\<lambda>entries.
     and_then (get_authority_set_id N stop_block) (\<lambda>end_authority_set_id.
     and_then (block_authority_set_hash C N stop_block) (\<lambda>end_authority_set_hash.
     Inr \<lparr>start_blocks = map (\<lambda>(s, _, _, _, _). s) entries,
          end_blocks = map (\<lambda>(_, e, _, _, _). e) entries,
          header_hashes = map (\<lambda>(_, _, h, _, _). h) entries,
          data_root_commitments = map (\<lambda>(_, _, _, d, _). d) entries,
          state_root_commitments = map (\<lambda>(_, _, _, _, r). r) entries,
          end_authority_set_id = end_authority_set_id,
          end_authority_set_hash = end_authority_set_hash\<rparr>))))"

text \<open>The transaction that the tool posts.\<close>

definition post_block_range_data :: "evm \<Rightarrow> BlockRangeData \<Rightarrow> vectorx \<Rightarrow> transaction" where
  "post_block_range_data E data st =
     updateBlockRangeData E (start_blocks data) (end_blocks data) (header_hashes data)
       (data_root_commitments data) (state_root_commitments data) (end_authority_set_id data)
       (end_authority_set_hash data) st"

section \<open>The arrays\<close>

lemma zip_entries:
  "zip (map (\<lambda>(s, _, _, _, _). s) xs) (zip (map (\<lambda>(_, e, _, _, _). e) xs) (zip (map (\<lambda>(_, _, h, _, _). h) xs)
     (zip (map (\<lambda>(_, _, _, d, _). d) xs) (map (\<lambda>(_, _, _, _, r). r) xs)))) = xs"
  by (induction xs) auto

text \<open>The ranges from \<open>a\<close> to \<open>b\<close>, each as long as a tree has leaves.\<close>

definition range_entry ::
  "plonky2x \<Rightarrow> nat \<Rightarrow> (nat \<Rightarrow> bytes) \<Rightarrow> (nat \<Rightarrow> avail_header) \<Rightarrow> nat \<Rightarrow> nat \<Rightarrow> u32 \<times> u32 \<times> bytes \<times> bytes \<times> bytes"
where
  "range_entry B k bh hdr a e =
     (of_nat a, of_nat e, bh e,
      padded_root B (3 + k) (map (\<lambda>n. h_data_root (hdr n)) [a + 1..<e + 1]),
      padded_root B (3 + k) (map (\<lambda>n. h_state_root (hdr n)) [a + 1..<e + 1]))"

abbreviation range_entries ::
  "plonky2x \<Rightarrow> nat \<Rightarrow> (nat \<Rightarrow> bytes) \<Rightarrow> (nat \<Rightarrow> avail_header) \<Rightarrow> nat \<Rightarrow> nat \<Rightarrow>
   (u32 \<times> u32 \<times> bytes \<times> bytes \<times> bytes) list"
where
  "range_entries B k bh hdr a b \<equiv>
     map (\<lambda>i. range_entry B k bh hdr i (min (i + 2 ^ (3 + k)) b)) (step_by (2 ^ (3 + k)) a b)"

text \<open>What one round of the contract's loop writes.\<close>

definition store_range :: "evm \<Rightarrow> nat \<Rightarrow> nat \<Rightarrow> bytes \<Rightarrow> bytes \<Rightarrow> bytes \<Rightarrow> vectorx \<Rightarrow> vectorx" where
  "store_range E a e header data state st =
     st\<lparr>dataRootCommitments := (dataRootCommitments st)(range_key E (of_nat a) (of_nat e) := data),
       stateRootCommitments := (stateRootCommitments st)(range_key E (of_nat a) (of_nat e) := state),
       rangeStartBlocks := (rangeStartBlocks st)(range_key E (of_nat a) (of_nat e) := of_nat a),
       blockHeightToHeaderHash := (blockHeightToHeaderHash st)(of_nat e := header)\<rparr>"

text \<open>The storage has the data of the blocks after \<open>a\<close> up to \<open>e\<close>, and the header hash of \<open>e\<close>.\<close>

definition range_filled ::
  "evm \<Rightarrow> plonky2x \<Rightarrow> nat \<Rightarrow> (nat \<Rightarrow> bytes) \<Rightarrow> (nat \<Rightarrow> avail_header) \<Rightarrow> vectorx \<Rightarrow> nat \<Rightarrow> nat \<Rightarrow> bool"
where
  "range_filled E B k bh hdr st a e \<longleftrightarrow>
     dataRootCommitments st (range_key E (of_nat a) (of_nat e)) =
       padded_root B (3 + k) (map (\<lambda>n. h_data_root (hdr n)) [a + 1..<e + 1]) \<and>
     stateRootCommitments st (range_key E (of_nat a) (of_nat e)) =
       padded_root B (3 + k) (map (\<lambda>n. h_state_root (hdr n)) [a + 1..<e + 1]) \<and>
     rangeStartBlocks st (range_key E (of_nat a) (of_nat e)) = of_nat a \<and>
     blockHeightToHeaderHash st (of_nat e) = bh e"

lemma step_by_props:
  assumes "a < b" and "0 < s"
  shows "step_by s a b = a # step_by s (a + s) b" and "i \<in> set (step_by s a' b) \<Longrightarrow> a' \<le> i \<and> i < b"
  using assms
proof -
  show "step_by s a b = a # step_by s (a + s) b"
    using assms by (subst step_by.simps) simp
  show "i \<in> set (step_by s a' b) \<Longrightarrow> a' \<le> i \<and> i < b"
  proof (induction s a' b rule: step_by.induct)
    case (1 s a b)
    then show ?case
      by (subst (asm) step_by.simps) (auto split: if_splits)
  qed
qed

lemma step_by_last:
  "a < b \<Longrightarrow> 0 < s \<Longrightarrow> step_by s a b \<noteq> [] \<and> last (step_by s a b) + s \<ge> b"
proof (induction s a b rule: step_by.induct)
  case (1 s a b)
  show ?case
  proof (cases "a + s < b")
    case True
    then show ?thesis
      using 1 step_by_props(1) [of a b s] by simp
  next
    case False
    then show ?thesis
      using 1 step_by_props(1) [of a b s] by (simp add: step_by.simps [of s "a + s"])
  qed
qed

context chain_prover
begin

lemma block_range_ok:
  assumes "i < b" "b \<le> head" "b + 2 ^ (3 + k) < 2 ^ 32"
  shows "block_range C N (of_nat (2 ^ (3 + k))) (of_nat b) (of_nat i) =
    Inr (range_entry B k bh hdr i (min (i + 2 ^ (3 + k)) b))"
proof -
  let ?s = "2 ^ (3 + k) :: nat" and ?e = "min (i + 2 ^ (3 + k)) b"
  have small: "unat (of_nat n :: u32) = n" if "n \<le> b + ?s" for n
    using that assms(3) by (intro unat_of_nat_small) simp
  have sum: "checked_add (of_nat i :: u32) (of_nat ?s) = Inr (of_nat (i + ?s))"
    using assms small [of i] small [of ?s] by (simp add: checked_add_def del: of_nat_power)
  have e: "min (of_nat (i + ?s)) (of_nat b) = (of_nat ?e :: u32)"
    using assms(1) small [of "i + ?s"] small [of b] by (auto simp: min_def word_le_nat_alt simp del: of_nat_add of_nat_power)
  have "?s < 2 ^ 32"
    using assms(3) by simp
  then have k: "3 + k < 32"
    by (simp only: power_strict_increasing_iff)
  have range: "i \<le> ?e" "?e \<le> head" "?e - i \<le> ?s"
    using assms by auto
  note roots = get_merkle_root_commitments_ok [OF k range, of C]
  have "3 + k = Suc (2 + k)"
    by simp
  then have len: "length (merkle_tree (sha256 C) (3 + k) leaves) = 32" for leaves
    by (simp only: merkle_tree.simps same_sha256 length_curta_sha256)
  show ?thesis
    unfolding block_range_def sum and_then_Inr Let_def e get_header_ok [OF range(2)] roots prod.case ensure_def
      len simp_thms if_True
    by (simp add: range_entry_def avail_header_hash [OF range(2)] padded_root_def same_sha256 del: upt_Suc)
qed

text \<open>One range of genuine data keeps the storage genuine.\<close>

lemma store_range_canonical:
  assumes "canonical K B head bh hdr keys k st" and "injective_keys K" "keccak256 E = K"
    and "a \<le> e" "e \<le> head"
  shows "canonical K B head bh hdr keys k (store_range E a e (bh e)
      (padded_root B (3 + k) (map (\<lambda>n. h_data_root (hdr n)) [a + 1..<e + 1]))
      (padded_root B (3 + k) (map (\<lambda>n. h_state_root (hdr n)) [a + 1..<e + 1])) st)"
proof -
  have "unat (of_nat a :: u32) = a" "unat (of_nat e :: u32) = e"
    using assms(4,5) head_bound by (auto intro!: unat_of_nat_small)
  then show ?thesis
    using assms(1,5) range_hash_eq [OF assms(2)] assms(3)
    unfolding canonical_def store_range_def range_key_def by (simp del: upt_Suc)
qed

lemma update_ranges_step:
  fixes k :: nat
  assumes "a < b"
  defines "e \<equiv> min (a + 2 ^ (3 + k)) b"
  defines "data \<equiv> padded_root B (3 + k) (map (\<lambda>n. h_data_root (hdr n)) [a + 1..<e + 1])"
    and "state \<equiv> padded_root B (3 + k) (map (\<lambda>n. h_state_root (hdr n)) [a + 1..<e + 1])"
  shows "update_ranges E (range_entries B k bh hdr a b) st ev =
    update_ranges E (range_entries B k bh hdr (a + 2 ^ (3 + k)) b) (store_range E a e (bh e) data state st)
      (ev @ [HeadUpdate (of_nat e) (bh e),
        HeaderRangeCommitmentStored (of_nat a) (of_nat e) data state (headerRangeCommitmentTreeSize st)])"
proof -
  let ?s = "2 ^ (3 + k) :: nat"
  have entries: "range_entries B k bh hdr a b = range_entry B k bh hdr a e # range_entries B k bh hdr (a + ?s) b"
    using step_by_props(1) [OF assms(1), of ?s] by (simp add: e_def del: upt_Suc)
  have joined: "(case range_entries B k bh hdr (a + ?s) b of [] \<Rightarrow> False | (next_start, _) # _ \<Rightarrow> of_nat e \<noteq> next_start) = False"
  proof (cases "a + ?s < b")
    case True
    then show ?thesis
      using step_by_props(1) [OF True, of ?s] by (simp add: range_entry_def e_def del: upt_Suc)
  qed (subst step_by.simps, simp)
  show ?thesis
    unfolding entries range_entry_def [of B k bh hdr a e] update_ranges.simps(2) joined if_False
    by (simp add: Let_def store_range_def data_def state_def del: upt_Suc)
qed

lemma update_ranges_canonical:
  assumes K: "injective_keys K" "keccak256 E = K" and b: "b \<le> head"
  shows "canonical K B head bh hdr keys k st \<Longrightarrow>
    \<exists>st' ev'. update_ranges E (range_entries B k bh hdr a b) st ev = Some (st', ev') \<and>
      canonical K B head bh hdr keys k st' \<and>
      (a < b \<longrightarrow> blockHeightToHeaderHash st' (of_nat b) = bh b) \<and>
      authoritySetIdToHash st' = authoritySetIdToHash st"
proof (induction "b - a" arbitrary: a st ev rule: less_induct)
  case less
  let ?s = "2 ^ (3 + k) :: nat"
  show ?case
  proof (cases "a < b")
    case False
    then show ?thesis
      using less.prems by (subst step_by.simps) simp
  next
    case True
    define e where "e = min (a + ?s) b"
    let ?st = "store_range E a e (bh e) (padded_root B (3 + k) (map (\<lambda>n. h_data_root (hdr n)) [a + 1..<e + 1]))
      (padded_root B (3 + k) (map (\<lambda>n. h_state_root (hdr n)) [a + 1..<e + 1])) st"
    note step = update_ranges_step [OF True, where E = E and k = k and st = st and ev = ev, folded e_def]
    have st: "canonical K B head bh hdr keys k ?st"
      using store_range_canonical [OF less.prems K, of a e] b True by (auto simp: e_def)
    have shorter: "b - (a + ?s) < b - a"
      using True by (intro diff_less_mono2) auto
    obtain st' ev' where rest:
        "update_ranges E (range_entries B k bh hdr a b) st ev = Some (st', ev')"
        "canonical K B head bh hdr keys k st'" "a + ?s < b \<longrightarrow> blockHeightToHeaderHash st' (of_nat b) = bh b"
        "authoritySetIdToHash st' = authoritySetIdToHash ?st"
      unfolding step using less.hyps [OF shorter st] by blast
    have "blockHeightToHeaderHash st' (of_nat b) = bh b"
    proof (cases "a + ?s < b")
      case False
      then have "range_entries B k bh hdr (a + ?s) b = []" "e = b"
        by (subst step_by.simps, simp, simp add: e_def)
      then show ?thesis
        using rest(1) unfolding step by (auto simp: store_range_def)
    qed (use rest(3) in simp)
    then show ?thesis
      using rest by (intro exI [of _ st'] exI [of _ ev'] conjI) (simp_all add: store_range_def)
  qed
qed

text \<open>Every range of the arrays is in the storage at the end: later rounds write other keys.\<close>

lemma store_range_filled:
  "range_filled E B k bh hdr (store_range E a e (bh e)
     (padded_root B (3 + k) (map (\<lambda>n. h_data_root (hdr n)) [a + 1..<e + 1]))
     (padded_root B (3 + k) (map (\<lambda>n. h_state_root (hdr n)) [a + 1..<e + 1])) st) a e"
  by (simp add: range_filled_def store_range_def del: upt_Suc)

lemma store_range_keeps_filled:
  assumes "injective_keys (keccak256 E)" and "range_filled E B k bh hdr st i e"
    and "i < a" "e < e'" "a \<le> head" "e' \<le> head"
  shows "range_filled E B k bh hdr (store_range E a e' header data state st) i e"
proof -
  have "(of_nat i :: u32) \<noteq> of_nat a" "(of_nat e :: u32) \<noteq> of_nat e'"
    using of_nat_block_eq [of i a] of_nat_block_eq [of e e'] assms(3-6) by auto
  then show ?thesis
    using assms(2) range_hash_eq [OF assms(1)]
    by (simp add: range_filled_def store_range_def range_key_def del: upt_Suc)
qed

lemma update_ranges_filled:
  assumes K: "injective_keys (keccak256 E)" and b: "b \<le> head"
  shows "update_ranges E (range_entries B k bh hdr a b) st ev = Some (st', ev') \<Longrightarrow>
    (\<forall>i \<in> set (step_by (2 ^ (3 + k)) a b). range_filled E B k bh hdr st' i (min (i + 2 ^ (3 + k)) b)) \<and>
    (\<forall>i e. i < a \<and> e \<le> a \<and> range_filled E B k bh hdr st i e \<longrightarrow> range_filled E B k bh hdr st' i e)"
proof (induction "b - a" arbitrary: a st ev rule: less_induct)
  case less
  let ?s = "2 ^ (3 + k) :: nat"
  show ?case
  proof (cases "a < b")
    case False
    then have "step_by ?s a b = []"
      by (subst step_by.simps) simp
    then show ?thesis
      using less.prems by simp
  next
    case True
    define e where "e = min (a + ?s) b"
    let ?st = "store_range E a e (bh e) (padded_root B (3 + k) (map (\<lambda>n. h_data_root (hdr n)) [a + 1..<e + 1]))
      (padded_root B (3 + k) (map (\<lambda>n. h_state_root (hdr n)) [a + 1..<e + 1])) st"
    have bounds: "a < e" "e \<le> a + ?s" "a \<le> head" "e \<le> head" "a < a + ?s"
      using True b by (auto simp: e_def)
    have shorter: "b - (a + ?s) < b - a"
      using True by (intro diff_less_mono2) auto
    note rest = less.hyps [OF shorter less.prems [unfolded update_ranges_step [OF True, folded e_def]]]
    have here: "range_filled E B k bh hdr st' a e"
      using rest store_range_filled [of E k a e st] bounds(2,5) unfolding e_def [symmetric] by blast
    have kept: "range_filled E B k bh hdr st' i e'" if "i < a" "e' \<le> a" "range_filled E B k bh hdr st i e'" for i e'
    proof -
      have "e' < e" "i < a + ?s" "e' \<le> a + ?s"
        using that(1,2) bounds by auto
      with rest store_range_keeps_filled [OF K that(3,1) _ bounds(3,4)] show ?thesis
        unfolding e_def [symmetric] by blast
    qed
    show ?thesis
      using rest here kept step_by_props(1) [OF True, of ?s] by (auto simp: e_def)
  qed
qed

lemma get_block_range_data_ok:
  assumes "a < b" "b \<le> head" "b + 2 ^ (3 + k) < 2 ^ 32" "auths b \<noteq> []"
  shows "get_block_range_data C N (of_nat (2 ^ (3 + k))) (of_nat a) (of_nat b) = (let xs = range_entries B k bh hdr a b in
    Inr \<lparr>start_blocks = map (\<lambda>(s, _, _, _, _). s) xs, end_blocks = map (\<lambda>(_, e, _, _, _). e) xs,
      header_hashes = map (\<lambda>(_, _, h, _, _). h) xs, data_root_commitments = map (\<lambda>(_, _, _, d, _). d) xs,
      state_root_commitments = map (\<lambda>(_, _, _, _, r). r) xs, end_authority_set_id = of_nat (sid b),
      end_authority_set_hash = chain_hash (curta_sha256 B) (auths b)\<rparr>)"
proof -
  have small: "unat (of_nat n :: u32) = n" if "n \<le> b + 2 ^ (3 + k)" for n
    using that assms(3) by (intro unat_of_nat_small) simp
  have nums: "unat (of_nat (2 ^ (3 + k)) :: u32) = 2 ^ (3 + k)" "unat (of_nat a :: u32) = a" "unat (of_nat b :: u32) = b"
    using assms(1) by (intro small; simp)+
  have entries: "traverse (\<lambda>i. block_range C N (of_nat (2 ^ (3 + k))) (of_nat b) (of_nat i)) (step_by (2 ^ (3 + k)) a b) =
      Inr (range_entries B k bh hdr a b)"
  proof (rule traverse_Inr)
    fix i assume "i \<in> set (step_by (2 ^ (3 + k)) a b)"
    then have "i < b"
      using step_by_props(2) [OF assms(1), of "2 ^ (3 + k)" i a] by simp
    then show "block_range C N (of_nat (2 ^ (3 + k))) (of_nat b) (of_nat i) =
        Inr (range_entry B k bh hdr i (min (i + 2 ^ (3 + k)) b))"
      using assms(2,3) by (rule block_range_ok)
  qed
  have "of_nat (2 ^ (3 + k)) \<noteq> (0 :: u32)"
    using nums(1) by (metis power_not_zero unat_0 zero_neq_numeral)
  then show ?thesis
    unfolding get_block_range_data_def nums entries get_authority_set_id_ok [OF assms(2)]
      block_authority_set_hash_ok [OF assms(2,4)]
    by (simp add: ensure_def Let_def del: of_nat_power)
qed

lemma post_block_range_data_ok:
  assumes K: "injective_keys (keccak256 E)" and st: "canonical (keccak256 E) B head bh hdr keys k st"
      "latestBlock st = of_nat a" and guardian: "onlyGuardian E"
    and b: "a < b" "b \<le> head" "b + 2 ^ (3 + k) < 2 ^ 32" "auths b \<noteq> []" "keys (of_nat (sid b)) = auths b"
  shows "\<exists>data st' ev. get_block_range_data C N (of_nat (2 ^ (3 + k))) (of_nat a) (of_nat b) = Inr data \<and>
    post_block_range_data E data st = Inr (st', [], ev) \<and>
    latestBlock st' = of_nat b \<and> blockHeightToHeaderHash st' (of_nat b) = bh b \<and>
    latestAuthoritySetId st' = of_nat (sid b) \<and>
    authoritySetIdToHash st' (of_nat (sid b)) = chain_hash (curta_sha256 B) (auths b) \<and>
    (\<forall>i \<in> set (step_by (2 ^ (3 + k)) a b). range_filled E B k bh hdr st' i (min (i + 2 ^ (3 + k)) b)) \<and>
    canonical (keccak256 E) B head bh hdr keys k st'"
proof -
  let ?s = "2 ^ (3 + k) :: nat" and ?xs = "range_entries B k bh hdr a b"
  obtain st1 ev where upd: "update_ranges E ?xs st [] = Some (st1, ev)"
      "canonical (keccak256 E) B head bh hdr keys k st1" "blockHeightToHeaderHash st1 (of_nat b) = bh b"
    using update_ranges_canonical [OF K refl b(2) st(1), of a "[]"] b(1) by blast
  have filled: "range_filled E B k bh hdr st1 i (min (i + ?s) b)" if "i \<in> set (step_by ?s a b)" for i
    using update_ranges_filled [OF K b(2) upd(1)] that by blast
  have ne: "step_by ?s a b \<noteq> []" "b \<le> last (step_by ?s a b) + ?s"
    using step_by_last [OF b(1), of ?s] by simp_all
  have first: "map (\<lambda>(s, _, _, _, _). s) ?xs ! 0 = latestBlock st"
    using step_by_props(1) [OF b(1), of ?s] st(2) by (simp add: range_entry_def del: upt_Suc)
  have "last (map (\<lambda>(_, e, _, _, _). e) ?xs) = of_nat (min (last (step_by ?s a b) + ?s) b)"
    using ne(1) by (simp add: last_map range_entry_def del: upt_Suc)
  then have last: "map (\<lambda>(_, e, _, _, _). e) ?xs ! (length (map (\<lambda>(_, e, _, _, _). e) ?xs) - 1) = of_nat b"
    using ne by (subst last_conv_nth [symmetric]) (simp_all add: min_absorb2 del: upt_Suc)
  let ?st = "st1\<lparr>latestBlock := of_nat b, authoritySetIdToHash := (authoritySetIdToHash st1)(of_nat (sid b) :=
      chain_hash (curta_sha256 B) (auths b)), latestAuthoritySetId := of_nat (sid b)\<rparr>"
  have "canonical (keccak256 E) B head bh hdr keys k ?st"
    using upd(2) b(5) unfolding canonical_def by simp
  moreover have "post_block_range_data E \<lparr>start_blocks = map (\<lambda>(s, _, _, _, _). s) ?xs,
      end_blocks = map (\<lambda>(_, e, _, _, _). e) ?xs,
      header_hashes = map (\<lambda>(_, _, h, _, _). h) ?xs, data_root_commitments = map (\<lambda>(_, _, _, d, _). d) ?xs,
      state_root_commitments = map (\<lambda>(_, _, _, _, r). r) ?xs, end_authority_set_id = of_nat (sid b),
      end_authority_set_hash = chain_hash (curta_sha256 B) (auths b)\<rparr> st = Inr (?st, [], ev)"
    unfolding post_block_range_data_def updateBlockRangeData_def BlockRangeData.simps zip_entries upd(1) first last
    using guardian ne(1) by (simp del: upt_Suc)
  moreover have "range_filled E B k bh hdr ?st i (min (i + ?s) b)" if "i \<in> set (step_by ?s a b)" for i
    using filled [OF that] by (simp add: range_filled_def del: upt_Suc)
  ultimately show ?thesis
    unfolding get_block_range_data_ok [OF b(1-4)] Let_def using upd(3)
    by (intro exI conjI ballI; (rule refl | assumption)?) simp_all
qed

lemma genesis_ok:
  assumes "n \<le> head" "auths n \<noteq> []"
  shows "genesis C N (Some (of_nat n)) = Inr \<lparr>GENESIS_HEIGHT = of_nat n, GENESIS_HEADER = bh n,
    GENESIS_AUTHORITY_SET_ID = of_nat (sid n), GENESIS_AUTHORITY_SET_HASH = chain_hash (curta_sha256 B) (auths n)\<rparr>"
  using assms by (simp add: genesis_def get_header_ok avail_header_hash block_number get_authority_set_id_ok
      block_authority_set_hash_ok Let_def)

text \<open>A contract initialised with these parameters holds finalized data.\<close>

lemma genesis_canonical:
  assumes "n \<le> head" "keys (of_nat (sid n)) = auths n"
  shows "canonical K B head bh hdr keys k
    (contract_at (of_nat n) (bh n) (of_nat (sid n)) (chain_hash (curta_sha256 B) (auths n)))"
proof -
  have "unat (of_nat n :: u32) = n"
    using assms(1) head_bound by (intro unat_of_nat_small) simp
  then show ?thesis
    using assms by (auto simp: canonical_def contract_at_def)
qed

end

section \<open>Properties\<close>

text \<open>
  C39: filling a block range agrees with the contract. From a contract initialised with the genesis
  parameters of block \<open>a\<close>, the arrays the tool computes up to a finalized block \<open>b\<close> pass all checks
  of the guardian's transaction. Afterwards the head is \<open>b\<close>; for every range that was posted (they
  cover the blocks from \<open>a\<close> to \<open>b\<close>, and only the last may be shorter than a commitment tree) the
  storage holds the start block, the data and state commitments of the range and the hash of its
  last block; it holds the hash of the authority set of \<open>b\<close> under its id; and whatever it holds is
  finalized data.
\<close>

theorem fill_block_range_accepted:
  assumes "chain_prover N head bh hdr sid auths C B blake2b_256 ed25519_verify mapreduce"
    and "injective_keys (keccak256 E)" and "onlyGuardian E"
    and "\<forall>n \<le> head. auths n \<noteq> [] \<and> keys (of_nat (sid n)) = auths n"
    and "a < b" and "b \<le> head" and "b + 2 ^ (3 + k) < 2 ^ 32"
  shows "\<exists>g data st' ev. genesis C N (Some (of_nat a)) = Inr g \<and>
    get_block_range_data C N (of_nat (2 ^ (3 + k))) (of_nat a) (of_nat b) = Inr data \<and>
    post_block_range_data E data (contract_at (GENESIS_HEIGHT g) (GENESIS_HEADER g) (GENESIS_AUTHORITY_SET_ID g)
      (GENESIS_AUTHORITY_SET_HASH g)) = Inr (st', [], ev) \<and>
    latestBlock st' = of_nat b \<and> blockHeightToHeaderHash st' (of_nat b) = bh b \<and>
    latestAuthoritySetId st' = of_nat (sid b) \<and>
    authoritySetIdToHash st' (of_nat (sid b)) = chain_hash (curta_sha256 B) (auths b) \<and>
    (\<forall>i \<in> set (step_by (2 ^ (3 + k)) a b). range_filled E B k bh hdr st' i (min (i + 2 ^ (3 + k)) b)) \<and>
    canonical (keccak256 E) B head bh hdr keys k st'"
proof -
  have a: "a \<le> head" "auths a \<noteq> []" "keys (of_nat (sid a)) = auths a"
    and b: "auths b \<noteq> []" "keys (of_nat (sid b)) = auths b"
    using assms(4-6) by auto
  let ?st = "contract_at (of_nat a) (bh a) (of_nat (sid a)) (chain_hash (curta_sha256 B) (auths a))"
  have head: "latestBlock ?st = of_nat a"
    by (simp add: contract_at_def)
  have "canonical (keccak256 E) B head bh hdr keys k ?st"
    by (rule chain_prover.genesis_canonical [OF assms(1), where keys = keys]) fact+
  from chain_prover.post_block_range_data_ok [OF assms(1,2) this head assms(3,5-7) b]
  show ?thesis
    unfolding chain_prover.genesis_ok [OF assms(1) a(1,2)] by (elim exE conjE) auto
qed

theorem fill_block_range_accepted_witness:
  "\<exists>g data st' ev. genesis chain_crates demo_node (Some (of_nat 3)) = Inr g \<and>
    get_block_range_data chain_crates demo_node (of_nat (2 ^ (3 + 0))) (of_nat 3) (of_nat 18) = Inr data \<and>
    post_block_range_data demo_evm data (contract_at (GENESIS_HEIGHT g) (GENESIS_HEADER g)
      (GENESIS_AUTHORITY_SET_ID g) (GENESIS_AUTHORITY_SET_HASH g)) = Inr (st', [], ev) \<and> latestBlock st' = of_nat 18 \<and>
    range_filled demo_evm chain_gadgets 0 demo_block_hash demo_avail_header st' 3 11 \<and>
    range_filled demo_evm chain_gadgets 0 demo_block_hash demo_avail_header st' 11 18"
proof -
  have "injective_keys (keccak256 demo_evm)" "onlyGuardian demo_evm"
    using injective_keys_id by (simp_all add: demo_evm_def answering_evm_def)
  moreover have "step_by 8 3 18 = [3, 11]"
    by (simp add: step_by.simps)
  ultimately show ?thesis
    using fill_block_range_accepted [OF demop.chain_prover_axioms, of demo_evm "\<lambda>_. [replicate 32 7]" 3 18 0]
    by simp blast
qed

end
