(* ===== verification/Indexer.thy ===== *)
theory Indexer
  imports Dummy
begin

text \<open>
  The justification indexer, \<open>bin/indexer.rs\<close>: it subscribes to the justifications of the node,
  checks the signatures and the number of signers, and stores one slot per authority in Redis. What
  it stores for a block inside an epoch is what the justification hint needs.
\<close>

section \<open>Definitions\<close>

text \<open>
  \<open>pair_verify\<close> is \<open>Pair::verify\<close> of \<open>sp_core\<close>, on the signature, the message and the public key.
\<close>

definition signed_validators ::
  "(bytes \<Rightarrow> bytes \<Rightarrow> bytes \<Rightarrow> bool) \<Rightarrow> bytes \<Rightarrow> SignedPrecommit list \<Rightarrow> (bytes \<times> bytes) list"
where
  "signed_validators pair_verify signed_message ps =
     map (\<lambda>p. (signer_id p, signature p))
       (filter (\<lambda>p. pair_verify (signature p) signed_message (signer_id p)) ps)"

text \<open>One round of the loop, for one justification.\<close>

definition index_justification ::
  "crates \<Rightarrow> (bytes \<Rightarrow> bytes \<Rightarrow> bytes \<Rightarrow> bool) \<Rightarrow> avail_node \<Rightarrow> ('db, 'j) redis \<Rightarrow> string \<Rightarrow>
   GrandpaJustification \<Rightarrow> 'db \<Rightarrow> 'db result"
where
  "index_justification C pair_verify N R avail_chain_id justification db =
     (let block_hash = commit_target_hash (commit justification) in
      and_then (expect (chain_get_header N block_hash) unwrap_err) (\<lambda>header.
      let header_hash = avail_header_hash C header;
          calculated_hash = blake2_256 C (encode_header C header) in
      if header_hash \<noteq> calculated_hash \<or> block_hash \<noteq> calculated_hash then
        Inl (Panic ''Header hash does not match block hash, avail-subxt crate is out of sync.'')
      else
        and_then (expect (current_set_id N block_hash) unwrap_err) (\<lambda>authority_set_id.
        and_then (index (precommits (commit justification)) 0) (\<lambda>first.
        let signed_message = encode_signed_message C (PrecommitMessage (precommit first))
              (round justification) authority_set_id;
            validators = signed_validators pair_verify signed_message (precommits (commit justification));
            pubkey_to_signature = fold (\<lambda>(pubkey, signature) m. m(pubkey \<mapsto> signature)) validators Map.empty in
        and_then (checked_sub (h_number header) 1) (\<lambda>prev.
        and_then (get_authorities N prev) (\<lambda>authorities.
        let num_authorities = length authorities;
            signed_count = length validators;
            required_signatures = (num_authorities * 2) div 3 in
        if signed_count \<le> required_signatures then Inr db
        else
          add_justification R avail_chain_id
            \<lparr>sj_block_number = h_number header, sj_signed_message = signed_message,
             sj_pubkeys = authorities,
             sj_signatures = map (\<lambda>k. case pubkey_to_signature k of Some s \<Rightarrow> s | None \<Rightarrow> DUMMY_SIGNATURE C) authorities,
             sj_validator_signed = map (\<lambda>k. pubkey_to_signature k \<noteq> None) authorities,
             sj_num_authorities = length authorities\<rparr> db))))))"

text \<open>The subscription: the loop ends at the first error.\<close>

fun listen_for_justifications ::
  "crates \<Rightarrow> (bytes \<Rightarrow> bytes \<Rightarrow> bytes \<Rightarrow> bool) \<Rightarrow> avail_node \<Rightarrow> ('db, 'j) redis \<Rightarrow> string \<Rightarrow>
   GrandpaJustification option list \<Rightarrow> 'db \<Rightarrow> 'db result"
where
  "listen_for_justifications C pair_verify N R avail_chain_id (Some justification # sub) db =
     and_then (index_justification C pair_verify N R avail_chain_id justification db)
       (listen_for_justifications C pair_verify N R avail_chain_id sub)"
| "listen_for_justifications C pair_verify N R avail_chain_id _ db = Inr db"

section \<open>What is stored\<close>



text \<open>The justification without the precommits whose signature does not verify.\<close>

definition verified ::
  "(bytes \<Rightarrow> bytes \<Rightarrow> bytes \<Rightarrow> bool) \<Rightarrow> bytes \<Rightarrow> GrandpaJustification \<Rightarrow> GrandpaJustification"
where
  "verified pair_verify msg justification =
     justification\<lparr>commit := (commit justification)\<lparr>precommits :=
       filter (\<lambda>p. pair_verify (signature p) msg (signer_id p)) (precommits (commit justification))\<rparr>\<rparr>"

lemma precommits_verified [simp]:
  "precommits (commit (verified pair_verify msg justification)) =
     filter (\<lambda>p. pair_verify (signature p) msg (signer_id p)) (precommits (commit justification))"
  by (simp add: verified_def)



section \<open>Properties\<close>






end
