(* ===== verification/Queries.thy ===== *)
theory Queries
  imports Dummy
begin

text \<open>
  The remaining queries of \<open>RpcDataFetcher\<close> in \<open>circuits/input/mod.rs\<close>: the search for a data
  root in an encoded header, and the list of the justified blocks of a range, which joins the
  indexed blocks with the epoch ends found by walking from epoch to epoch.
\<close>

section \<open>Definitions\<close>

definition check_data_commitment :: "crates \<Rightarrow> avail_node \<Rightarrow> u32 \<Rightarrow> int result" where
  "check_data_commitment C N block =
     and_then (connected N) (\<lambda>_.
     and_then (get_header N block) (\<lambda>header.
     let data_root = h_data_root header;
         encoded_header_bytes = encode_header C header in
     and_then (ensure (HASH_SIZE \<le> length encoded_header_bytes) ''attempt to subtract with overflow'') (\<lambda>_.
     Inr (case find (\<lambda>i. subarray i (i + HASH_SIZE) encoded_header_bytes = data_root)
            [0..<length encoded_header_bytes - HASH_SIZE + 1] of
            Some i \<Rightarrow> sint (of_nat i :: 32 word)
          | None \<Rightarrow> -1))))"

text \<open>The loop over the epochs; the id of the epoch grows with every round.\<close>

function epoch_end_loop :: "avail_node \<Rightarrow> u32 \<Rightarrow> u32 \<Rightarrow> u64 \<Rightarrow> u32 list \<Rightarrow> u32 list result" where
  "epoch_end_loop N stop_block curr_block curr_era epoch_end_blocks =
     (if curr_block < stop_block then
        and_then (last_justified_block N curr_era) (\<lambda>epoch_end_block.
        if epoch_end_block = 0 then Inr epoch_end_blocks
        else if epoch_end_block \<le> stop_block then
          and_then (checked_add curr_era 1) (\<lambda>curr_era.
          epoch_end_loop N stop_block epoch_end_block curr_era (epoch_end_blocks @ [epoch_end_block]))
        else Inr epoch_end_blocks)
      else Inr epoch_end_blocks)"
  by pat_completeness auto

termination
proof (relation "measure (\<lambda>(_, _, _, era, _). 2 ^ 64 - unat era)", goal_cases)
  case 1
  then show ?case by simp
next
  case (2 N stop_block curr_block curr_era acc x era)
  then show ?case
    using checked_add_Inr(1) [of curr_era 1 era] unat_u64_less [of era] by simp
qed

declare epoch_end_loop.simps [simp del]

definition find_justifications_in_range ::
  "avail_node \<Rightarrow> ('db, 'j) redis \<Rightarrow> string \<Rightarrow> 'db \<Rightarrow> u32 \<Rightarrow> u32 \<Rightarrow> u32 list result"
where
  "find_justifications_in_range N R avail_chain_id db first_block stop_block =
     and_then (connected N) (\<lambda>_.
     and_then (get_blocks_in_range R avail_chain_id first_block stop_block db) (\<lambda>redis_blocks.
     and_then (checked_sub first_block 1) (\<lambda>prev.
     and_then (get_authority_set_id N prev) (\<lambda>start_era.
     and_then (epoch_end_loop N stop_block first_block start_era []) (\<lambda>epoch_end_blocks.
     Inr (sort (redis_blocks @ epoch_end_blocks)))))))"

section \<open>Epoch ends\<close>

text \<open>The epoch ends behind block \<open>a\<close> up to block \<open>b\<close>.\<close>

definition epoch_ends :: "(nat \<Rightarrow> nat) \<Rightarrow> nat \<Rightarrow> nat \<Rightarrow> nat set" where
  "epoch_ends sid a b = {f. a < f \<and> f \<le> b \<and> sid f = sid (f - 1) + 1}"

context avail_chain
begin

lemma epoch_ends_none: "sid head \<le> sid a \<Longrightarrow> b \<le> head \<Longrightarrow> epoch_ends sid a b = {}"
proof (intro equals0I)
  fix f
  assume a: "sid head \<le> sid a" "b \<le> head" and "f \<in> epoch_ends sid a b"
  then have f: "a \<le> f - 1" "f - 1 \<le> head" "f \<le> head" "sid f = sid (f - 1) + 1"
    by (auto simp: epoch_ends_def)
  show False
    using set_id_mono [OF f(1,2)] set_id_mono [OF f(3) order_refl] f(4) a(1) by linarith
qed

lemma epoch_ends_next:
  assumes f: "epoch_end sid head (sid a) f" and b: "b \<le> head" and a: "a \<le> head"
  shows "a < f" and "epoch_ends sid a b = (if f \<le> b then insert f (epoch_ends sid f b) else {})"
proof -
  have fs: "0 < f" "f \<le> head" "sid f = sid a + 1" "sid (f - 1) = sid a"
    using f by (auto simp: epoch_end_def)
  show "a < f"
    using set_id_mono [of f a] fs(3) a by (rule_tac ccontr) simp
  have first: "f \<le> g" if g: "g \<in> epoch_ends sid a b" for g
  proof (rule ccontr)
    assume "\<not> f \<le> g"
    then have "a \<le> g - 1" "g - 1 \<le> head" "g \<le> f - 1" "f - 1 \<le> head" "sid g = sid (g - 1) + 1"
      using g fs by (auto simp: epoch_ends_def)
    then show False
      using set_id_mono [of a "g - 1"] set_id_mono [of g "f - 1"] fs(4) by linarith
  qed
  have step: "sid f = sid (f - 1) + 1"
    using fs by simp
  show "epoch_ends sid a b = (if f \<le> b then insert f (epoch_ends sid f b) else {})"
  proof (intro set_eqI)
    fix g
    have "g \<in> epoch_ends sid a b \<longleftrightarrow> f \<le> g \<and> g \<le> b \<and> sid g = sid (g - 1) + 1"
      using first [of g] \<open>a < f\<close> by (auto simp: epoch_ends_def)
    also have "\<dots> \<longleftrightarrow> g \<in> (if f \<le> b then insert f (epoch_ends sid f b) else {})"
      using step by (auto simp: epoch_ends_def le_less)
    finally show "g \<in> epoch_ends sid a b \<longleftrightarrow> g \<in> (if f \<le> b then insert f (epoch_ends sid f b) else {})" .
  qed
qed

lemma block_order:
  assumes "m \<le> head" and "n \<le> head"
  shows "(of_nat m :: u32) \<le> of_nat n \<longleftrightarrow> m \<le> n" and "(of_nat m :: u32) < of_nat n \<longleftrightarrow> m < n"
proof -
  have "unat (of_nat i :: u32) = i" if "i \<le> head" for i
    using that head_bound by (intro unat_of_nat_small) simp
  then show "(of_nat m :: u32) \<le> of_nat n \<longleftrightarrow> m \<le> n" "(of_nat m :: u32) < of_nat n \<longleftrightarrow> m < n"
    using assms by (simp_all add: word_le_nat_alt word_less_nat_alt)
qed

lemma epoch_end_loop_found:
  assumes "epoch_end sid head t f" and "last_justified_block N (of_nat t) = Inr (of_nat f)"
    and "sid a = t" and "a \<le> head" and "c < b" and "c \<le> head" and "b \<le> head"
  shows "epoch_end_loop N (of_nat b) (of_nat c) (of_nat t) acc =
    (if f \<le> b then epoch_end_loop N (of_nat b) (of_nat f) (of_nat (t + 1)) (acc @ [of_nat f]) else Inr acc)"
proof -
  have f: "0 < f" "f \<le> head"
    using assms(1) by (auto simp: epoch_end_def)
  have "of_nat f \<noteq> (0 :: u32)"
    using of_nat_block_eq [of f 0] f by simp
  moreover have "checked_add (of_nat t :: u64) 1 = Inr (of_nat (t + 1))"
    using next_set_id [OF assms(4)] assms(3) by simp
  ultimately show ?thesis
    using assms(2,5) block_order(2) [OF assms(6,7)] block_order(1) [OF f(2) assms(7)]
    by (subst epoch_end_loop.simps) (simp del: of_nat_add of_nat_Suc)
qed

lemma epoch_end_loop_ok:
  assumes a: "sid a = t" "a \<le> head" and c: "c = a \<or> c = a + 1" "c \<le> head" and b: "b \<le> head"
  shows "\<exists>bs. epoch_end_loop N (of_nat b) (of_nat c) (of_nat t) acc = Inr (acc @ map of_nat bs) \<and>
    set bs = (if c < b then epoch_ends sid a b else {})"
  using a c
proof (induction "sid head - t" arbitrary: a c t acc rule: less_induct)
  case less
  have t: "sid 0 \<le> t" "t + 1 < 2 ^ 64"
    using set_id_mono [of 0 a] set_id_bound [of a] less.prems by auto
  note order = block_order(2) [OF less.prems(4) b]
  show ?case
  proof (cases "c < b")
    case False
    then show ?thesis
      using order by (intro exI [of _ "[]"]) (simp add: epoch_end_loop.simps)
  next
    case True
    from t show ?thesis
    proof (cases rule: last_justified_cases)
      case none
      then have "epoch_ends sid a b = {}"
        using less.prems(1) b by (intro epoch_ends_none) simp_all
      then show ?thesis
        using none(2) order True by (intro exI [of _ "[]"]) (simp add: epoch_end_loop.simps)
    next
      case (found f)
      have fs: "f \<le> head" "sid f = t + 1" "sid head - (t + 1) < sid head - t"
        using found(1) set_id_mono [of f head] by (auto simp: epoch_end_def)
      note step = epoch_end_loop_found [OF found less.prems(1,2) True less.prems(4) b, of acc]
      note nxt = epoch_ends_next [OF found(1) [folded less.prems(1)] b less.prems(2)]
      obtain bs where bs: "f \<le> b \<Longrightarrow> epoch_end_loop N (of_nat b) (of_nat f) (of_nat (t + 1)) (acc @ [of_nat f]) =
            Inr ((acc @ [of_nat f]) @ map of_nat bs)"
          "set bs = (if f < b then epoch_ends sid f b else {})"
        using less.hyps [OF fs(3,2,1) _ fs(1), of "acc @ [of_nat f]"] by blast
      have "epoch_ends sid a b = (if f \<le> b then set (f # bs) else {})"
        using bs(2) nxt(2) by (auto simp: epoch_ends_def)
      then show ?thesis
        using True step bs(1) by (intro exI [of _ "if f \<le> b then f # bs else []"]) (auto simp del: of_nat_add of_nat_Suc)
    qed
  qed
qed

end

section \<open>Properties\<close>

text \<open>
  C38: on a chain and a well-formed index, the list of justified blocks of a range is sorted and
  holds exactly the indexed blocks within the bounds and, when the range has more than one block,
  the epoch ends within the bounds, both ends included. A range of a single block that is an epoch
  end is the exception: the walk over the epochs does not start, and the block is missing.
\<close>

theorem justified_blocks_exact:
  assumes "avail_chain N head bh hdr sid auths" and "redis_server R zset" and "block_index_ok zset chain db"
    and "0 < a" and "a \<le> b" and "b \<le> head"
    and "get_blocks_in_range R chain (of_nat a) (of_nat b) db = Inr indexed"
  shows "\<exists>ns. find_justifications_in_range N R chain db (of_nat a) (of_nat b) = Inr ns \<and> sorted ns \<and>
    set ns = {n \<in> indexed_blocks zset chain db. of_nat a \<le> n \<and> n \<le> of_nat b} \<union>
      (if a < b then of_nat ` epoch_ends sid (a - 1) b else {})"
proof -
  have prev: "a - 1 \<le> head"
    using assms(5,6) by simp
  obtain bs where "epoch_end_loop N (of_nat b) (of_nat a) (of_nat (sid (a - 1))) [] = Inr (map of_nat bs)"
      "set bs = (if a < b then epoch_ends sid (a - 1) b else {})"
    using avail_chain.epoch_end_loop_ok [OF assms(1) refl prev, of a b "[]"] assms(4-6) by auto
  then show ?thesis
    using avail_chain.connected_ok [OF assms(1)] avail_chain.prev_block [OF assms(1), of a]
      avail_chain.get_authority_set_id_ok [OF assms(1) prev] assms(4-7)
      redis_server.get_blocks_in_range_set(1) [OF assms(2,7,3)]
    by (auto simp: find_justifications_in_range_def)
qed

theorem justified_blocks_exact_witness:
  "\<exists>ns. find_justifications_in_range demo_node mem_redis ''avail''
     (empty_db\<lparr>mem_zsets := (\<lambda>_. [])(justification_blocks_key ''avail'' := [(show_nat 7, 7)])\<rparr>) (of_nat 4) (of_nat 11) =
       Inr ns \<and> sorted ns \<and> 7 \<in> set ns \<and> 5 \<in> set ns \<and> 10 \<in> set ns \<and> 15 \<notin> set ns"
proof -
  let ?db = "empty_db\<lparr>mem_zsets := (\<lambda>_. [])(justification_blocks_key ''avail'' := [(show_nat 7, 7)])\<rparr>"
  have index: "block_index_ok mem_zset ''avail'' ?db"
    by (simp add: block_index_ok_def mem_zset_def)
  have found: "get_blocks_in_range mem_redis ''avail'' (of_nat 4) (of_nat 11) ?db = Inr [7]"
    by (simp add: get_blocks_in_range_def connection_def get_connection_def parse_unsigned_show_nat
        MAX_RECONNECT_ATTEMPTS_def mem_redis_def upt_rec)
  obtain ns where ns: "find_justifications_in_range demo_node mem_redis ''avail'' ?db (of_nat 4) (of_nat 11) = Inr ns"
      "sorted ns" "set ns = {n \<in> indexed_blocks mem_zset ''avail'' ?db. of_nat 4 \<le> n \<and> n \<le> of_nat 11} \<union>
        of_nat ` epoch_ends (\<lambda>n. n div 5) (4 - 1) 11"
    using justified_blocks_exact [OF demon.avail_chain_axioms memr.redis_server_axioms index _ _ _ found] by auto
  have "5 \<in> epoch_ends (\<lambda>n. n div 5) (4 - 1) 11" "10 \<in> epoch_ends (\<lambda>n. n div 5) (4 - 1) 11"
    by (simp_all add: epoch_ends_def)
  then have "of_nat 5 \<in> (of_nat ` epoch_ends (\<lambda>n. n div 5) (4 - 1) 11 :: u32 set)"
      "of_nat 10 \<in> (of_nat ` epoch_ends (\<lambda>n. n div 5) (4 - 1) 11 :: u32 set)"
    by blast+
  moreover have bound: "n \<le> 11" if n: "n \<in> (of_nat ` epoch_ends (\<lambda>n. n div 5) (4 - 1) 11 :: u32 set)" for n
  proof -
    obtain m where m: "n = of_nat m" "m \<le> 11"
      using n by (auto simp: epoch_ends_def)
    then show ?thesis
      using unat_of_nat_small [of m, where 'a = 32] by (simp add: word_le_nat_alt)
  qed
  moreover have "15 \<notin> (of_nat ` epoch_ends (\<lambda>n. n div 5) (4 - 1) 11 :: u32 set)"
    using bound [of 15] by auto
  ultimately show ?thesis
    using ns by (intro exI [of _ ns]) (auto simp: indexed_blocks_def mem_zset_def)
qed

end
