(* ===== verification/Events.thy ===== *)
theory Events
  imports Contract
begin

text \<open>
  The event indexer, \<open>bin/events.rs\<close>: for every deployment of the contract it reads the logs of
  the blocks after its cursor in batches and stores the data commitments in Redis. The Ethereum
  node, the ABI decoder, the JSON parser and the address parser are packages and arguments here.
\<close>

section \<open>Definitions\<close>

record Deployment =
  source_chain_name :: string
  contract_chain_id :: u64
  contract_address :: bytes
  cursor_start_block :: u64

text \<open>The accessors of a JSON value: indexing gives null for a missing field.\<close>

record 'v json =
  json_index :: "'v \<Rightarrow> string \<Rightarrow> 'v"
  as_array :: "'v \<Rightarrow> 'v list option"
  as_str :: "'v \<Rightarrow> string option"
  as_u64 :: "'v \<Rightarrow> u64 option"

text \<open>\<open>to_uppercase\<close> on the ASCII names of chains.\<close>

definition to_uppercase :: "string \<Rightarrow> string" where
  "to_uppercase s = map (\<lambda>c. let n = of_char c :: nat in if 97 \<le> n \<and> n \<le> 122 then char_of (n - 32) else c) s"

definition unwrap_none :: string where
  "unwrap_none = ''called `Option::unwrap()` on a `None` value''"

definition parse_deployment :: "'v json \<Rightarrow> (string \<Rightarrow> bytes option) \<Rightarrow> 'v \<Rightarrow> Deployment result" where
  "parse_deployment J parse_address d =
     and_then (expect (as_str J (json_index J d ''sourceChainName'')) unwrap_none) (\<lambda>name.
     and_then (expect (as_u64 J (json_index J d ''contractChainId'')) unwrap_none) (\<lambda>chain_id.
     and_then (expect (as_str J (json_index J d ''contractAddress'')) unwrap_none) (\<lambda>s.
     and_then (expect (parse_address s) unwrap_err) (\<lambda>address.
     and_then (expect (as_u64 J (json_index J d ''cursorStartBlock'')) unwrap_none) (\<lambda>start.
     Inr \<lparr>source_chain_name = to_uppercase name, contract_chain_id = chain_id,
          contract_address = address, cursor_start_block = start\<rparr>)))))"

text \<open>\<open>file\<close> is the parsed content of \<open>deployments.json\<close>, if it exists and parses.\<close>

definition get_deployments ::
  "'v json \<Rightarrow> (string \<Rightarrow> bytes option) \<Rightarrow> 'v option \<Rightarrow> Deployment list result"
where
  "get_deployments J parse_address file =
     and_then (expect file unwrap_err) (\<lambda>deployments_json.
     and_then (expect (as_array J (json_index J deployments_json ''deployments'')) unwrap_none)
       (\<lambda>deployments_array.
     traverse (parse_deployment J parse_address) deployments_array))"

definition get_ethereum_rpc :: "(string \<Rightarrow> string option) \<Rightarrow> u64 \<Rightarrow> string option" where
  "get_ethereum_rpc env chain_id = env (''RPC_'' @ show_nat (unat chain_id))"

text \<open>
  The node: the data of the logs of an address in an inclusive range of blocks whose first topic
  belongs to an event signature. A chain id is a 256-bit number.
\<close>

record provider =
  get_chainid :: "nat option"
  get_block_number :: "u64 option"
  get_logs :: "bytes \<Rightarrow> u64 \<Rightarrow> u64 \<Rightarrow> string \<Rightarrow> bytes list option"

definition HEADER_RANGE_EVENT :: string where
  "HEADER_RANGE_EVENT = ''HeaderRangeCommitmentStored(uint32,uint32,bytes32,bytes32)''"

type_synonym log_decoder = "bytes \<Rightarrow> (u32 \<times> u32 \<times> bytes \<times> bytes) option"

fun store_logs ::
  "log_decoder \<Rightarrow> ('db, 'j) redis \<Rightarrow> nat \<Rightarrow> bytes \<Rightarrow> bytes list \<Rightarrow> 'db \<Rightarrow> 'db result"
where
  "store_logs abi_decode R chain_id address [] db = Inr db"
| "store_logs abi_decode R chain_id address (log # logs) db =
     and_then (expect (abi_decode log) unwrap_err)
       (\<lambda>(trusted_block, last_block, expected_data_commitment, _).
     and_then (ensure (length expected_data_commitment = 32) unwrap_err) (\<lambda>_.
     and_then (ensure (chain_id < 2 ^ 64) ''Integer overflow when casting to u64'') (\<lambda>_.
     and_then (add_data_commitment_range R (of_nat chain_id) address
         \<lparr>range_start = trusted_block, range_end = last_block,
          data_commitment = expected_data_commitment\<rparr> db)
       (store_logs abi_decode R chain_id address logs))))"

function batch_loop ::
  "log_decoder \<Rightarrow> provider \<Rightarrow> ('db, 'j) redis \<Rightarrow> nat \<Rightarrow> bytes \<Rightarrow> u64 \<Rightarrow> u64 \<Rightarrow> 'db \<Rightarrow> 'db result"
where
  "batch_loop abi_decode P R chain_id address last_block curr_start_block db =
     (if curr_start_block < last_block then
        and_then (checked_add curr_start_block 50000) (\<lambda>batch_end_block.
        let batch_end_block = (if last_block < batch_end_block then last_block else batch_end_block) in
        and_then (expect (get_logs P address curr_start_block batch_end_block HEADER_RANGE_EVENT)
            unwrap_err) (\<lambda>logs.
        and_then (store_logs abi_decode R chain_id address logs db)
          (batch_loop abi_decode P R chain_id address last_block batch_end_block)))
      else Inr db)"
  by pat_completeness auto
termination
proof (relation "measure (\<lambda>(_, _, _, _, _, last_block, b, _). unat last_block - unat b)", goal_cases)
  case 1
  then show ?case by simp
next
  case (2 abi_decode P R chain_id address last_block b db x xa)
  then show ?case
    using checked_add_Inr(1) [of b 50000 x] by (auto simp: word_less_nat_alt)
qed

declare batch_loop.simps [simp del]

definition store_events ::
  "log_decoder \<Rightarrow> (string \<Rightarrow> provider option) \<Rightarrow> ('db, 'j) redis \<Rightarrow> string \<Rightarrow> bytes \<Rightarrow> u64 \<Rightarrow> u64 \<Rightarrow> 'db \<Rightarrow>
   'db result"
where
  "store_events abi_decode connect R ethereum_rpc_url address first_block last_block db =
     and_then (expect (connect ethereum_rpc_url) ''could not connect to client'') (\<lambda>provider.
     and_then (expect (get_chainid provider) unwrap_err) (\<lambda>chain_id.
     batch_loop abi_decode provider R chain_id address last_block first_block db))"

text \<open>One deployment of one pass of \<open>main\<close>, then a pass over all deployments.\<close>

definition index_deployment ::
  "(string \<Rightarrow> string option) \<Rightarrow> log_decoder \<Rightarrow> (string \<Rightarrow> provider option) \<Rightarrow> ('db, 'j) redis \<Rightarrow>
   Deployment \<Rightarrow> 'db \<Rightarrow> 'db result"
where
  "index_deployment env abi_decode connect R deployment db =
     and_then (expect (get_ethereum_rpc env (contract_chain_id deployment))
         (''Ethereum RPC URL not found for chain ID: '' @ show_nat (unat (contract_chain_id deployment))))
       (\<lambda>rpc_url.
     and_then (expect (connect rpc_url) ''could not connect to client'') (\<lambda>provider.
     and_then (expect (get_block_number provider) unwrap_err) (\<lambda>current_block.
     and_then (get_contract_cursor R (contract_chain_id deployment) (contract_address deployment) db)
       (\<lambda>cursor.
     let cursor = (case cursor of Some cursor \<Rightarrow> cursor | None \<Rightarrow> cursor_start_block deployment) in
     if cursor < current_block then
       and_then (store_events abi_decode connect R rpc_url (contract_address deployment) cursor
           current_block db)
         (set_contract_cursor R (contract_chain_id deployment) (contract_address deployment) current_block)
     else Inr db))))"

fun index_deployments ::
  "(string \<Rightarrow> string option) \<Rightarrow> log_decoder \<Rightarrow> (string \<Rightarrow> provider option) \<Rightarrow> ('db, 'j) redis \<Rightarrow>
   Deployment list \<Rightarrow> 'db \<Rightarrow> 'db result"
where
  "index_deployments env abi_decode connect R [] db = Inr db"
| "index_deployments env abi_decode connect R (d # ds) db =
     and_then (index_deployment env abi_decode connect R d db)
       (index_deployments env abi_decode connect R ds)"

text \<open>
  The endless loop of \<open>main\<close>, for the networks its passes see. Every pass opens the Redis client
  anew.
\<close>

fun events_main ::
  "(string \<Rightarrow> bool) \<Rightarrow> (string \<Rightarrow> string option) \<Rightarrow> log_decoder \<Rightarrow> ('db, 'j) redis \<Rightarrow>
   Deployment list \<Rightarrow> (string \<Rightarrow> provider option) list \<Rightarrow> 'db \<Rightarrow> 'db result"
where
  "events_main redis_open env abi_decode R deployments [] db = Inr db"
| "events_main redis_open env abi_decode R deployments (connect # networks) db =
     and_then (RedisClient_new redis_open env) (\<lambda>_.
     and_then (index_deployments env abi_decode connect R deployments db)
       (events_main redis_open env abi_decode R deployments networks))"

section \<open>What ends up in Redis\<close>

text \<open>
  The logs of a chain, by block: the address, the first topic and the data. The ranges they
  announce in the blocks from \<open>m\<close> to \<open>n\<close>, and the member each has in the sorted set.
\<close>

type_synonym chain_logs = "nat \<Rightarrow> (bytes \<times> bytes \<times> bytes) set"

definition decoded_ranges :: "log_decoder \<Rightarrow> bytes set \<Rightarrow> DataCommitmentRange set" where
  "decoded_ranges abi_decode D =
     {r. \<exists>d \<in> D. \<exists>state. abi_decode d = Some (range_start r, range_end r, data_commitment r, state)}"

text \<open>
  The event of the deployments whose logs have four arguments. It is written out here and not taken
  from the filter of the indexer; the filter is for this event.
\<close>

definition four_argument_event :: string where
  "four_argument_event = ''HeaderRangeCommitmentStored(uint32,uint32,bytes32,bytes32)''"

lemma filtered_event: "HEADER_RANGE_EVENT = four_argument_event"
  by (simp add: HEADER_RANGE_EVENT_def four_argument_event_def)

definition logged_ranges ::
  "log_decoder \<Rightarrow> (string \<Rightarrow> bytes) \<Rightarrow> chain_logs \<Rightarrow> bytes \<Rightarrow> nat \<Rightarrow> nat \<Rightarrow> DataCommitmentRange set"
where
  "logged_ranges abi_decode topic logs address m n =
     decoded_ranges abi_decode {d. \<exists>k. m \<le> k \<and> k \<le> n \<and> (address, topic four_argument_event, d) \<in> logs k}"

definition member :: "DataCommitmentRange \<Rightarrow> string" where
  "member r = hex_encode (encode_range r)"

text \<open>A sorted set before and after the ranges \<open>rs\<close> have been added.\<close>

definition adds_ranges ::
  "DataCommitmentRange set \<Rightarrow> (string \<Rightarrow> nat option) \<Rightarrow> (string \<Rightarrow> nat option) \<Rightarrow> bool"
where
  "adds_ranges rs z z' \<longleftrightarrow>
     (\<forall>r \<in> rs. z' (member r) = Some (unat (range_end r))) \<and> (\<forall>m. m \<notin> member ` rs \<longrightarrow> z' m = z m)"

lemma member_range_end: "member r = member r' \<Longrightarrow> range_end r = range_end r'"
  by (simp add: member_def encode_range_inject)

lemma adds_no_ranges [simp]: "adds_ranges {} z z' \<longleftrightarrow> z' = z"
  by (auto simp: adds_ranges_def)

lemma adds_one_range: "adds_ranges {r} z (z(member r \<mapsto> unat (range_end r)))"
  by (simp add: adds_ranges_def)

lemma adds_ranges_trans:
  assumes "adds_ranges rs z z'" and "adds_ranges rs' z' z''"
  shows "adds_ranges (rs \<union> rs') z z''"
  unfolding adds_ranges_def
proof (intro conjI ballI allI impI)
  fix r assume r: "r \<in> rs \<union> rs'"
  show "z'' (member r) = Some (unat (range_end r))"
  proof (cases "member r \<in> member ` rs'")
    case True
    then obtain r' where "r' \<in> rs'" "member r = member r'"
      by blast
    then show ?thesis
      using assms(2) member_range_end [of r r'] by (simp add: adds_ranges_def)
  next
    case False
    then show ?thesis
      using assms r by (auto simp: adds_ranges_def)
  qed
qed (use assms in \<open>simp add: adds_ranges_def image_Un\<close>)

lemma adds_ranges_keeps:
  assumes "adds_ranges rs z z'" and "z (member r) = Some (unat (range_end r))"
  shows "z' (member r) = Some (unat (range_end r))"
proof -
  have "adds_ranges {r} z z"
    using assms(2) by (simp add: adds_ranges_def)
  from adds_ranges_trans [OF this assms(1)] show ?thesis
    by (simp add: adds_ranges_def)
qed

lemma decoded_ranges_Un: "decoded_ranges f (A \<union> B) = decoded_ranges f A \<union> decoded_ranges f B"
  by (auto simp: decoded_ranges_def)

lemma decoded_ranges_mono: "A \<subseteq> B \<Longrightarrow> decoded_ranges f A \<subseteq> decoded_ranges f B"
  by (auto simp: decoded_ranges_def)

lemma logged_ranges_Un:
  assumes "m \<le> k" and "k \<le> n"
  shows "logged_ranges abi_decode topic logs address m k \<union> logged_ranges abi_decode topic logs address k n =
    logged_ranges abi_decode topic logs address m n"
proof -
  have "{d. \<exists>i. m \<le> i \<and> i \<le> k \<and> (address, topic four_argument_event, d) \<in> logs i} \<union>
      {d. \<exists>i. k \<le> i \<and> i \<le> n \<and> (address, topic four_argument_event, d) \<in> logs i} =
      {d. \<exists>i. m \<le> i \<and> i \<le> n \<and> (address, topic four_argument_event, d) \<in> logs i}"
    using assms by (auto 0 3 intro: le_trans) (metis nat_le_linear)
  then show ?thesis
    unfolding logged_ranges_def decoded_ranges_Un [symmetric] by (rule arg_cong)
qed

lemma logged_ranges_mono:
  "n \<le> n' \<Longrightarrow> logged_ranges abi_decode topic logs address m n \<subseteq> logged_ranges abi_decode topic logs address m n'"
  unfolding logged_ranges_def by (intro decoded_ranges_mono) (blast intro: le_trans)

lemma ranges_complete:
  assumes "m \<le> k" and "k \<le> n"
    and "adds_ranges (logged_ranges abi_decode topic logs address k n) z z'"
    and "\<forall>r \<in> logged_ranges abi_decode topic logs address m k - logged_ranges abi_decode topic logs address k n.
      z (member r) = Some (unat (range_end r))"
  shows "\<forall>r \<in> logged_ranges abi_decode topic logs address m n. z' (member r) = Some (unat (range_end r))"
proof
  fix r assume r: "r \<in> logged_ranges abi_decode topic logs address m n"
  show "z' (member r) = Some (unat (range_end r))"
  proof (cases "r \<in> logged_ranges abi_decode topic logs address k n")
    case True
    then show ?thesis using assms(3) by (simp add: adds_ranges_def)
  next
    case False
    then have "r \<in> logged_ranges abi_decode topic logs address m k"
      using r logged_ranges_Un [OF assms(1,2), of abi_decode topic logs address] by blast
    then show ?thesis
      using False assms(4) adds_ranges_keeps [OF assms(3)] by blast
  qed
qed

text \<open>
  A node for the logs of a chain: its answers are exact, and it answers at least the queries over
  50000 blocks that the indexer makes.
\<close>

locale log_provider =
  fixes P :: provider and topic :: "string \<Rightarrow> bytes" and logs :: chain_logs
  assumes get_logs_exact:
      "get_logs P a m n sig = Some ds \<Longrightarrow>
         set ds = {d. \<exists>k. unat m \<le> k \<and> k \<le> unat n \<and> (a, topic sig, d) \<in> logs k}"
    and get_logs_answers: "unat n - unat m \<le> 50000 \<Longrightarrow> get_logs P a m n sig \<noteq> None"

context log_provider
begin

lemma batch_loop_idle:
  assumes "\<And>k d. (address, topic HEADER_RANGE_EVENT, d) \<notin> logs k" and "unat last_block + 50000 < 2 ^ 64"
  shows "batch_loop abi_decode P R chain_id address last_block b db = Inr db"
proof (induction "unat last_block - unat b" arbitrary: b rule: less_induct)
  case less
  show ?case
  proof (cases "b < last_block")
    case False
    then show ?thesis by (simp add: batch_loop.simps)
  next
    case True
    then have lt: "unat b < unat last_block"
      by (simp add: word_less_nat_alt)
    have add: "checked_add b 50000 = Inr (b + 50000)"
      using assms(2) lt by (intro checked_add_ok) simp
    define e where "e = (if last_block < b + 50000 then last_block else b + 50000)"
    have e: "unat e - unat b \<le> 50000" "unat last_block - unat e < unat last_block - unat b"
      using checked_add_Inr(1) [OF add] lt by (auto simp: e_def word_less_nat_alt)
    obtain ds where ds: "get_logs P address b e HEADER_RANGE_EVENT = Some ds"
      using get_logs_answers [OF e(1)] by blast
    moreover have "ds = []"
      using get_logs_exact [OF ds] assms(1) by auto
    ultimately show ?thesis
      using True add less [OF e(2)] by (subst batch_loop.simps) (simp add: Let_def e_def)
  qed
qed

end

locale event_indexer = answering_redis R zset + log_provider P topic logs
  for R :: "('db, 'j) redis" and zset P topic logs +
  fixes abi_decode :: log_decoder and address :: bytes and chain_id :: u64
  assumes decodes: "(address, topic four_argument_event, d) \<in> logs k \<Longrightarrow>
      \<exists>a b data state. abi_decode d = Some (a, b, data, state) \<and> length data = 32"
    and chainid: "get_chainid P = Some (unat chain_id)"
begin

lemma unat_chain_id: "unat chain_id < 2 ^ 64"
  using unsigned_less [of chain_id] by auto

lemma store_logs_ok:
  assumes "\<forall>d \<in> set ds. \<exists>a b data state. abi_decode d = Some (a, b, data, state) \<and> length data = 32"
  shows "\<exists>db'. store_logs abi_decode R (unat chain_id) address ds db = Inr db' \<and>
    redis_get R db' = redis_get R db \<and>
    adds_ranges (decoded_ranges abi_decode (set ds))
      (zset db (ranges_key chain_id address)) (zset db' (ranges_key chain_id address))"
  using assms
proof (induction ds arbitrary: db)
  case Nil
  then show ?case by (simp add: decoded_ranges_def)
next
  case (Cons d ds)
  obtain a b data state where d: "abi_decode d = Some (a, b, data, state)" "length data = 32"
    using Cons.prems by auto
  define r where "r = \<lparr>range_start = a, range_end = b, data_commitment = data\<rparr>"
  obtain db1 where db1: "add_data_commitment_range R chain_id address r db = Inr db1"
      "zset db1 = (zset db)(ranges_key chain_id address :=
        (zset db (ranges_key chain_id address))(member r \<mapsto> unat (range_end r)))"
      "redis_get R db1 = redis_get R db"
    using add_data_commitment_range_ok [of r chain_id address db] d(2) by (auto simp: r_def member_def)
  obtain db' where db': "store_logs abi_decode R (unat chain_id) address ds db1 = Inr db'"
      "redis_get R db' = redis_get R db1"
      "adds_ranges (decoded_ranges abi_decode (set ds))
        (zset db1 (ranges_key chain_id address)) (zset db' (ranges_key chain_id address))"
    using Cons.IH [of db1] Cons.prems by auto
  have "adds_ranges {r} (zset db (ranges_key chain_id address)) (zset db1 (ranges_key chain_id address))"
    using adds_one_range by (simp add: db1(2))
  note adds_ranges_trans [OF this db'(3)]
  moreover have "{r} \<union> decoded_ranges abi_decode (set ds) =
      decoded_ranges abi_decode (set (d # ds))"
    by (auto simp: d r_def decoded_ranges_def)
  moreover have "store_logs abi_decode R (unat chain_id) address (d # ds) db = Inr db'"
    using db1(1) db'(1) d unat_chain_id by (simp add: r_def)
  ultimately show ?case
    using db'(2) db1(3) by auto
qed

text \<open>One batch: at most 50000 blocks further on, the ranges logged on the way stored.\<close>

lemma batch_ok:
  assumes bound: "unat last_block + 50000 < 2 ^ 64" and b: "b < last_block"
  obtains e db1 where "unat b < unat e" and "unat e \<le> unat last_block"
    and "batch_loop abi_decode P R (unat chain_id) address last_block b db =
      batch_loop abi_decode P R (unat chain_id) address last_block e db1"
    and "redis_get R db1 = redis_get R db"
    and "adds_ranges (logged_ranges abi_decode topic logs address (unat b) (unat e))
      (zset db (ranges_key chain_id address)) (zset db1 (ranges_key chain_id address))"
proof -
  have add: "checked_add b 50000 = Inr (b + 50000)"
    using bound b by (intro checked_add_ok) (simp add: word_less_nat_alt)
  define e where "e = (if last_block < b + 50000 then last_block else b + 50000)"
  have e: "unat b < unat e" "unat e \<le> unat last_block" "unat e - unat b \<le> 50000"
    using checked_add_Inr(1) [OF add] b by (auto simp: e_def word_less_nat_alt)
  obtain ds where ds: "get_logs P address b e HEADER_RANGE_EVENT = Some ds"
    using get_logs_answers [OF e(3)] by blast
  note exact = get_logs_exact [OF ds, unfolded filtered_event]
  obtain db1 where db1: "store_logs abi_decode R (unat chain_id) address ds db = Inr db1"
      "redis_get R db1 = redis_get R db"
      "adds_ranges (decoded_ranges abi_decode (set ds))
        (zset db (ranges_key chain_id address)) (zset db1 (ranges_key chain_id address))"
    using store_logs_ok [of ds db] decodes exact by blast
  have "batch_loop abi_decode P R (unat chain_id) address last_block b db =
      batch_loop abi_decode P R (unat chain_id) address last_block e db1"
    using b add ds db1(1) e_def by (subst batch_loop.simps) (simp add: Let_def)
  then show thesis
    using that e(1,2) db1(2,3) [unfolded exact logged_ranges_def [symmetric]] by blast
qed

lemma batch_loop_ok:
  assumes "unat last_block + 50000 < 2 ^ 64"
  shows "\<exists>db'. batch_loop abi_decode P R (unat chain_id) address last_block b db = Inr db' \<and>
    redis_get R db' = redis_get R db \<and>
    adds_ranges (if b < last_block then logged_ranges abi_decode topic logs address (unat b) (unat last_block) else {})
      (zset db (ranges_key chain_id address)) (zset db' (ranges_key chain_id address))"
proof (induction "unat last_block - unat b" arbitrary: b db rule: less_induct)
  case less
  show ?case
  proof (cases "b < last_block")
    case False
    then show ?thesis by (simp add: batch_loop.simps)
  next
    case True
    obtain e db1 where e: "unat b < unat e" "unat e \<le> unat last_block"
        and step: "batch_loop abi_decode P R (unat chain_id) address last_block b db =
          batch_loop abi_decode P R (unat chain_id) address last_block e db1" "redis_get R db1 = redis_get R db"
        and first: "adds_ranges (logged_ranges abi_decode topic logs address (unat b) (unat e))
          (zset db (ranges_key chain_id address)) (zset db1 (ranges_key chain_id address))"
      using batch_ok [OF assms True] .
    have "unat last_block - unat e < unat last_block - unat b"
      using e by linarith
    from less [OF this, of db1] obtain db' where db':
        "batch_loop abi_decode P R (unat chain_id) address last_block e db1 = Inr db'"
        "redis_get R db' = redis_get R db1"
        "adds_ranges (if e < last_block then logged_ranges abi_decode topic logs address (unat e) (unat last_block) else {})
          (zset db1 (ranges_key chain_id address)) (zset db' (ranges_key chain_id address))"
      by blast
    have "logged_ranges abi_decode topic logs address (unat b) (unat e) \<union>
        (if e < last_block then logged_ranges abi_decode topic logs address (unat e) (unat last_block) else {}) =
        logged_ranges abi_decode topic logs address (unat b) (unat last_block)"
      using e logged_ranges_Un [of "unat b" "unat e" "unat last_block"]
      by (auto simp: word_less_nat_alt)
    with adds_ranges_trans [OF first db'(3)] True step db'(1,2) show ?thesis
      by auto
  qed
qed

end

text \<open>
  Everything announced from the start block of the deployment up to its cursor is stored.
\<close>

definition indexed_to_cursor ::
  "('db, 'j) redis \<Rightarrow> ('db \<Rightarrow> string \<Rightarrow> string \<Rightarrow> nat option) \<Rightarrow> log_decoder \<Rightarrow> (string \<Rightarrow> bytes) \<Rightarrow> chain_logs \<Rightarrow>
   Deployment \<Rightarrow> 'db \<Rightarrow> bool"
where
  "indexed_to_cursor R zset abi_decode topic logs d db \<longleftrightarrow>
     (\<forall>cursor. redis_get R db (cursor_key (contract_chain_id d) (contract_address d)) = Some cursor \<longrightarrow>
        cursor_start_block d \<le> cursor \<and>
        (\<forall>r \<in> logged_ranges abi_decode topic logs (contract_address d) (unat (cursor_start_block d)) (unat cursor).
           zset db (ranges_key (contract_chain_id d) (contract_address d)) (member r) = Some (unat (range_end r))))"

definition serves ::
  "('db, 'j) redis \<Rightarrow> ('db \<Rightarrow> string \<Rightarrow> string \<Rightarrow> nat option) \<Rightarrow> log_decoder \<Rightarrow> (string \<Rightarrow> bytes) \<Rightarrow> chain_logs \<Rightarrow>
   Deployment \<Rightarrow> string \<Rightarrow> (string \<Rightarrow> provider option) \<Rightarrow> u64 \<Rightarrow> bool"
where
  "serves R zset abi_decode topic logs d url connect current \<longleftrightarrow>
     (\<exists>P. connect url = Some P \<and> get_block_number P = Some current \<and> unat current + 50000 < 2 ^ 64 \<and>
        event_indexer R zset P topic logs abi_decode (contract_address d) (contract_chain_id d))"

text \<open>What has changed in the sorted set of the deployment are announced ranges.\<close>

definition only_announced ::
  "('db \<Rightarrow> string \<Rightarrow> string \<Rightarrow> nat option) \<Rightarrow> log_decoder \<Rightarrow> (string \<Rightarrow> bytes) \<Rightarrow> chain_logs \<Rightarrow>
   Deployment \<Rightarrow> 'db \<Rightarrow> 'db \<Rightarrow> bool"
where
  "only_announced zset abi_decode topic logs d db db' \<longleftrightarrow>
     (\<forall>m. zset db' (ranges_key (contract_chain_id d) (contract_address d)) m \<noteq>
         zset db (ranges_key (contract_chain_id d) (contract_address d)) m \<longrightarrow>
       m \<in> member ` decoded_ranges abi_decode
         {data. \<exists>k. (contract_address d, topic four_argument_event, data) \<in> logs k})"

lemma only_announced_refl: "only_announced zset abi_decode topic logs d db db"
  by (simp add: only_announced_def)

lemma only_announced_trans:
  assumes "only_announced zset abi_decode topic logs d db db1" "only_announced zset abi_decode topic logs d db1 db2"
  shows "only_announced zset abi_decode topic logs d db db2"
  unfolding only_announced_def
proof (intro allI impI)
  fix m
  assume "zset db2 (ranges_key (contract_chain_id d) (contract_address d)) m \<noteq>
    zset db (ranges_key (contract_chain_id d) (contract_address d)) m"
  then consider "zset db1 (ranges_key (contract_chain_id d) (contract_address d)) m \<noteq>
      zset db (ranges_key (contract_chain_id d) (contract_address d)) m"
    | "zset db2 (ranges_key (contract_chain_id d) (contract_address d)) m \<noteq>
      zset db1 (ranges_key (contract_chain_id d) (contract_address d)) m"
    by metis
  then show "m \<in> member ` decoded_ranges abi_decode
      {data. \<exists>k. (contract_address d, topic four_argument_event, data) \<in> logs k}"
    using assms [unfolded only_announced_def, rule_format] by cases
qed

lemma logged_ranges_only_announced:
  fixes zset :: "'db \<Rightarrow> string \<Rightarrow> string \<Rightarrow> nat option"
  defines "key \<equiv> \<lambda>d. ranges_key (contract_chain_id d) (contract_address d)"
  assumes "adds_ranges (logged_ranges abi_decode topic logs (contract_address d) m n) (zset db (key d)) (zset db' (key d))"
  shows "only_announced zset abi_decode topic logs d db db'"
  unfolding only_announced_def
proof (intro allI impI)
  fix x
  assume "zset db' (ranges_key (contract_chain_id d) (contract_address d)) x \<noteq>
    zset db (ranges_key (contract_chain_id d) (contract_address d)) x"
  then have "x \<in> member ` logged_ranges abi_decode topic logs (contract_address d) m n"
    using assms(2) unfolding adds_ranges_def key_def by blast
  moreover have "logged_ranges abi_decode topic logs (contract_address d) m n \<subseteq> decoded_ranges abi_decode
      {data. \<exists>k. (contract_address d, topic four_argument_event, data) \<in> logs k}"
    unfolding logged_ranges_def by (rule decoded_ranges_mono) blast
  ultimately show "x \<in> member ` decoded_ranges abi_decode
      {data. \<exists>k. (contract_address d, topic four_argument_event, data) \<in> logs k}"
    by (rule subsetD [OF image_mono, rotated])
qed

lemma stored_before:
  assumes "indexed_to_cursor R zset abi_decode topic logs d db"
    and "cursor \<equiv> (case redis_get R db (cursor_key (contract_chain_id d) (contract_address d)) of
      Some c \<Rightarrow> c | None \<Rightarrow> cursor_start_block d)"
    and "cursor < current"
  shows "cursor_start_block d \<le> cursor \<and>
    (\<forall>r \<in> logged_ranges abi_decode topic logs (contract_address d) (unat (cursor_start_block d)) (unat cursor) -
         logged_ranges abi_decode topic logs (contract_address d) (unat cursor) (unat current).
       zset db (ranges_key (contract_chain_id d) (contract_address d)) (member r) = Some (unat (range_end r)))"
proof (cases "redis_get R db (cursor_key (contract_chain_id d) (contract_address d))")
  case None
  then have "cursor = cursor_start_block d"
    by (simp add: assms(2))
  moreover have "logged_ranges abi_decode topic logs (contract_address d) (unat cursor) (unat cursor) \<subseteq>
      logged_ranges abi_decode topic logs (contract_address d) (unat cursor) (unat current)"
    using assms(3) by (intro logged_ranges_mono) (simp add: word_less_nat_alt)
  ultimately show ?thesis by auto
next
  case (Some c)
  then show ?thesis
    using assms(1) by (simp add: indexed_to_cursor_def assms(2))
qed

lemma index_deployment_step:
  assumes url: "get_ethereum_rpc env (contract_chain_id d) = Some url"
    and serves: "serves R zset abi_decode topic logs d url connect current"
    and inv: "indexed_to_cursor R zset abi_decode topic logs d db"
  defines "ck \<equiv> cursor_key (contract_chain_id d) (contract_address d)"
  defines "cursor \<equiv> (case redis_get R db ck of Some c \<Rightarrow> c | None \<Rightarrow> cursor_start_block d)"
  shows "\<exists>db'. index_deployment env abi_decode connect R d db = Inr db' \<and>
    indexed_to_cursor R zset abi_decode topic logs d db' \<and> only_announced zset abi_decode topic logs d db db' \<and>
    redis_get R db' ck = (if cursor < current then Some current else redis_get R db ck)"
proof -
  obtain P where P: "connect url = Some P" "get_block_number P = Some current" "unat current + 50000 < 2 ^ 64"
      and idx: "event_indexer R zset P topic logs abi_decode (contract_address d) (contract_chain_id d)"
    using serves by (auto simp: serves_def)
  note red = event_indexer.axioms(1) [OF idx]
  note conn = answering_redis.reachable [OF red]
  let ?rk = "ranges_key (contract_chain_id d) (contract_address d)"
  have start: "index_deployment env abi_decode connect R d db =
      (if cursor < current then
         and_then (store_events abi_decode connect R url (contract_address d) cursor current db)
           (set_contract_cursor R (contract_chain_id d) (contract_address d) current)
       else Inr db)"
    by (simp add: index_deployment_def url P get_contract_cursor_def conn cursor_def ck_def Let_def)
  show ?thesis
  proof (cases "cursor < current")
    case False
    then show ?thesis using start inv only_announced_refl by simp
  next
    case True
    obtain db1 where db1: "store_events abi_decode connect R url (contract_address d) cursor current db = Inr db1"
        "adds_ranges (logged_ranges abi_decode topic logs (contract_address d) (unat cursor) (unat current))
          (zset db ?rk) (zset db1 ?rk)"
      using event_indexer.batch_loop_ok [OF idx P(3), of cursor db] True
      by (auto simp: store_events_def P event_indexer.chainid [OF idx])
    obtain db' where db': "set_contract_cursor R (contract_chain_id d) (contract_address d) current db1 = Inr db'"
        "get_contract_cursor R (contract_chain_id d) (contract_address d) db' = Inr (Some current)"
        "zset db' ?rk = zset db1 ?rk"
      using answering_redis.set_contract_cursor_ok [OF red] by blast
    have ck: "redis_get R db' ck = Some current"
      using db'(2) by (simp add: get_contract_cursor_def conn ck_def)
    note old = stored_before [OF inv cursor_def [unfolded ck_def] True]
    have "\<forall>r \<in> logged_ranges abi_decode topic logs (contract_address d) (unat (cursor_start_block d)) (unat current).
        zset db1 ?rk (member r) = Some (unat (range_end r))"
      using old True by (intro ranges_complete [OF _ _ db1(2)]) (auto simp: word_le_nat_alt word_less_nat_alt)
    then have "indexed_to_cursor R zset abi_decode topic logs d db'"
      using ck old True by (auto simp: indexed_to_cursor_def ck_def db'(3))
    moreover have "only_announced zset abi_decode topic logs d db db'"
      using logged_ranges_only_announced [where zset = zset, OF db1(2)] by (simp add: only_announced_def db'(3))
    ultimately show ?thesis
      using start True db1(1) db'(1) ck by simp
  qed
qed

lemma events_main_indexes:
  assumes env: "get_ethereum_rpc env (contract_chain_id d) = Some url" "env ''REDIS_URL'' = Some redis_url"
      "redis_open redis_url"
    and "\<forall>connect \<in> set networks. \<exists>current. serves R zset abi_decode topic logs d url connect current"
    and "indexed_to_cursor R zset abi_decode topic logs d db"
  defines "ck \<equiv> cursor_key (contract_chain_id d) (contract_address d)"
  shows "\<exists>db'. events_main redis_open env abi_decode R [d] networks db = Inr db' \<and>
    indexed_to_cursor R zset abi_decode topic logs d db' \<and> only_announced zset abi_decode topic logs d db db' \<and>
    (\<forall>c. redis_get R db ck = Some c \<longrightarrow> (\<exists>c'. redis_get R db' ck = Some c' \<and> c \<le> c')) \<and>
    (\<forall>connect \<in> set networks. \<forall>current. serves R zset abi_decode topic logs d url connect current \<and>
       cursor_start_block d < current \<longrightarrow> (\<exists>c'. redis_get R db' ck = Some c' \<and> current \<le> c'))"
  using assms(4,5)
proof (induction networks arbitrary: db)
  case Nil
  then show ?case using only_announced_refl by simp
next
  case (Cons connect networks)
  obtain current where cur: "serves R zset abi_decode topic logs d url connect current"
    using Cons.prems(1) by auto
  have unique: "n = current" if "serves R zset abi_decode topic logs d url connect n" for n
    using that cur by (auto simp: serves_def)
  obtain db1 where db1: "index_deployment env abi_decode connect R d db = Inr db1"
      "indexed_to_cursor R zset abi_decode topic logs d db1"
      "only_announced zset abi_decode topic logs d db db1"
      "redis_get R db1 ck = (if (case redis_get R db ck of Some c \<Rightarrow> c | None \<Rightarrow> cursor_start_block d) < current
         then Some current else redis_get R db ck)"
    using index_deployment_step [OF env(1) cur Cons.prems(2)] by (auto simp: ck_def)
  obtain db' where db': "events_main redis_open env abi_decode R [d] networks db1 = Inr db'"
      "indexed_to_cursor R zset abi_decode topic logs d db'"
      "only_announced zset abi_decode topic logs d db1 db'"
      "\<forall>c. redis_get R db1 ck = Some c \<longrightarrow> (\<exists>c'. redis_get R db' ck = Some c' \<and> c \<le> c')"
      "\<forall>connect \<in> set networks. \<forall>current. serves R zset abi_decode topic logs d url connect current \<and>
         cursor_start_block d < current \<longrightarrow> (\<exists>c'. redis_get R db' ck = Some c' \<and> current \<le> c')"
    using Cons.IH [OF _ db1(2)] Cons.prems(1) by auto
  have mono: "\<exists>c1. redis_get R db1 ck = Some c1 \<and> c \<le> c1" if "redis_get R db ck = Some c" for c
    using that db1(4) by (auto split: if_splits)
  have reach: "\<exists>c1. redis_get R db1 ck = Some c1 \<and> current \<le> c1" if "cursor_start_block d < current"
    using that db1(4) by (auto split: if_splits option.splits)
  have "events_main redis_open env abi_decode R [d] (connect # networks) db = Inr db'"
    using db1(1) db'(1) env(2,3) by (simp add: RedisClient_new_def)
  moreover have "\<exists>c'. redis_get R db' ck = Some c' \<and> c \<le> c'" if "redis_get R db ck = Some c" for c
    using mono [OF that] db'(4) order_trans by blast
  moreover have "\<exists>c'. redis_get R db' ck = Some c' \<and> current \<le> c'" if "cursor_start_block d < current"
    using reach [OF that] db'(4) order_trans by blast
  ultimately show ?case
    using db'(2,5) only_announced_trans [OF db1(3) db'(3)] unique by auto
qed

text \<open>The signatures of the events of the contract; the first topic of a log is the hash of one.\<close>

fun event_signature :: "vx_event \<Rightarrow> string" where
  "event_signature (HeaderRangeRequested _ _ _ _ _) = ''HeaderRangeRequested(uint32,bytes32,uint64,bytes32,uint32)''"
| "event_signature (RotateRequested _ _) = ''RotateRequested(uint64,bytes32)''"
| "event_signature (HeadUpdate _ _) = ''HeadUpdate(uint32,bytes32)''"
| "event_signature (HeaderRangeCommitmentStored _ _ _ _ _) =
     ''HeaderRangeCommitmentStored(uint32,uint32,bytes32,bytes32,uint32)''"
| "event_signature (AuthoritySetStored _ _) = ''AuthoritySetStored(uint64,bytes32)''"

lemma event_signature_differs: "event_signature ev \<noteq> HEADER_RANGE_EVENT"
  by (cases ev) (simp_all add: HEADER_RANGE_EVENT_def)

section \<open>A node over a list of logs\<close>

definition provider_of ::
  "u64 \<Rightarrow> u64 \<Rightarrow> (string \<Rightarrow> bytes) \<Rightarrow> (nat \<times> bytes \<times> bytes \<times> bytes) list \<Rightarrow> provider"
where
  "provider_of chain_id current topic ls =
     \<lparr>get_chainid = Some (unat chain_id), get_block_number = Some current,
      get_logs = (\<lambda>a m n sig. Some (map (\<lambda>(_, _, _, d). d)
        (filter (\<lambda>(k, a', t, _). unat m \<le> k \<and> k \<le> unat n \<and> a' = a \<and> t = topic sig) ls)))\<rparr>"

definition logs_of :: "(nat \<times> bytes \<times> bytes \<times> bytes) list \<Rightarrow> chain_logs" where
  "logs_of ls k = {l. (k, l) \<in> set ls}"

interpretation provl: log_provider "provider_of chain_id current topic ls" topic "logs_of ls"
  for chain_id current topic ls
  by unfold_locales (auto simp: provider_of_def logs_of_def image_iff)

definition demo_topic :: "string \<Rightarrow> bytes" where
  "demo_topic = map (\<lambda>c. of_nat (of_char c))"

lemma demo_topic_inj: "inj demo_topic"
proof -
  have "(of_char c :: nat) < 256" for c
    by (metis char_of_char of_char_of mod_less_divisor zero_less_numeral)
  then have "unat (of_nat (of_char c) :: 8 word) = of_char c" for c
    by (intro unat_of_nat_small) simp
  then have "inj (\<lambda>c. of_nat (of_char c) :: 8 word)"
    by (intro injI) (metis of_char_eq_iff)
  then show ?thesis
    unfolding demo_topic_def by (rule inj_mapI)
qed

definition demo_decode :: log_decoder where
  "demo_decode d =
     (if length d = 128 then
        Some (of_nat (le_nat (rev (subarray 28 32 d))), of_nat (le_nat (rev (subarray 60 64 d))),
          subarray 64 96 d, subarray 96 128 d)
      else None)"

definition demo_log :: bytes where
  "demo_log = abi_encode_u32 3 @ abi_encode_u32 7 @ replicate 32 1 @ replicate 32 2"

definition demo_deployment :: Deployment where
  "demo_deployment = \<lparr>source_chain_name = ''HEX'', contract_chain_id = 1, contract_address = replicate 20 1,
     cursor_start_block = 2\<rparr>"

definition demo_logs :: "(nat \<times> bytes \<times> bytes \<times> bytes) list" where
  "demo_logs = [(5, replicate 20 1, demo_topic four_argument_event, demo_log)]"

lemma demo_log_decoded: "demo_decode demo_log = Some (3, 7, replicate 32 1, replicate 32 2)"
  by (simp add: demo_decode_def demo_log_def abi_encode_u32_def subarray_def le_nat_le_bytes del: le_bytes.simps)

interpretation demoev: event_indexer mem_redis mem_zset "provider_of 1 current demo_topic demo_logs"
  demo_topic "logs_of demo_logs" demo_decode "replicate 20 1" 1 for current
proof
  show "\<exists>a b data state. demo_decode d = Some (a, b, data, state) \<and> length data = 32"
    if "(replicate 20 1, demo_topic four_argument_event, d) \<in> logs_of demo_logs k" for d k
    using that demo_log_decoded by (auto simp: logs_of_def demo_logs_def)
qed (simp add: provider_of_def)

section \<open>Properties\<close>

text \<open>
  C18: for a deployment that announces its ranges by the event
  \<open>HeaderRangeCommitmentStored(uint32,uint32,bytes32,bytes32)\<close> with four arguments the event indexer
  loses nothing and makes nothing up. In every sequence of passes, against nodes that only have to
  answer queries over at most 50000 blocks, no pass fails, the cursor never runs ahead of what is
  stored, in the end every range announced from the start block of the deployment up to the current
  block of any of the passes is in Redis under its end block, and only announced ranges have been
  added. The contract in this repository announces its ranges by an event with five arguments:
  nothing of it is indexed (C19).
\<close>

theorem events_indexed:
  assumes "get_ethereum_rpc env (contract_chain_id d) = Some url" and "env ''REDIS_URL'' = Some redis_url"
    and "redis_open redis_url"
    and "\<forall>connect \<in> set networks. \<exists>current. serves R zset abi_decode topic logs d url connect current"
    and "indexed_to_cursor R zset abi_decode topic logs d db"
  shows "\<exists>db'. events_main redis_open env abi_decode R [d] networks db = Inr db' \<and>
    indexed_to_cursor R zset abi_decode topic logs d db' \<and> only_announced zset abi_decode topic logs d db db' \<and>
    (\<forall>connect \<in> set networks. \<forall>current. serves R zset abi_decode topic logs d url connect current \<and>
       cursor_start_block d < current \<longrightarrow>
       (\<forall>r \<in> logged_ranges abi_decode topic logs (contract_address d) (unat (cursor_start_block d)) (unat current).
          zset db' (ranges_key (contract_chain_id d) (contract_address d)) (member r) = Some (unat (range_end r))))"
proof -
  obtain db' where db': "events_main redis_open env abi_decode R [d] networks db = Inr db'"
      "indexed_to_cursor R zset abi_decode topic logs d db'" "only_announced zset abi_decode topic logs d db db'"
      "\<forall>connect \<in> set networks. \<forall>current. serves R zset abi_decode topic logs d url connect current \<and>
         cursor_start_block d < current \<longrightarrow>
         (\<exists>c. redis_get R db' (cursor_key (contract_chain_id d) (contract_address d)) = Some c \<and> current \<le> c)"
    using events_main_indexes [where redis_open = redis_open, OF assms] by blast
  have "zset db' (ranges_key (contract_chain_id d) (contract_address d)) (member r) = Some (unat (range_end r))"
    if "redis_get R db' (cursor_key (contract_chain_id d) (contract_address d)) = Some c" "current \<le> c"
      "r \<in> logged_ranges abi_decode topic logs (contract_address d) (unat (cursor_start_block d)) (unat current)"
    for r c and current :: u64
    using that db'(2) subsetD [OF logged_ranges_mono [of "unat current" "unat c"]]
    by (auto simp: indexed_to_cursor_def word_le_nat_alt)
  then show ?thesis
    using db' by blast
qed

theorem events_indexed_witness:
  "\<exists>db'. events_main (\<lambda>_. True) (\<lambda>_. Some ''url'') demo_decode mem_redis [demo_deployment]
      [\<lambda>_. Some (provider_of 1 4 demo_topic demo_logs), \<lambda>_. Some (provider_of 1 9 demo_topic demo_logs)] empty_db = Inr db' \<and>
    mem_zset db' (ranges_key 1 (replicate 20 1))
      (member \<lparr>range_start = 3, range_end = 7, data_commitment = replicate 32 1\<rparr>) = Some 7"
proof -
  let ?nets = "[\<lambda>_. Some (provider_of 1 4 demo_topic demo_logs), \<lambda>_. Some (provider_of 1 9 demo_topic demo_logs)]"
  have serves: "serves mem_redis mem_zset demo_decode demo_topic (logs_of demo_logs) demo_deployment ''url''
      (\<lambda>_. Some (provider_of 1 current demo_topic demo_logs)) current" if "current \<le> 9" for current
    using that demoev.event_indexer_axioms
    by (auto simp: serves_def demo_deployment_def word_le_nat_alt) (simp_all add: provider_of_def)
  have "\<lparr>range_start = 3, range_end = 7, data_commitment = replicate 32 1\<rparr>
      \<in> logged_ranges demo_decode demo_topic (logs_of demo_logs) (replicate 20 1) 2 9"
    using demo_log_decoded by (auto simp: logged_ranges_def decoded_ranges_def logs_of_def demo_logs_def)
  then show ?thesis
    using events_indexed [of "\<lambda>_. Some ''url''" demo_deployment "''url''" "''url''" "\<lambda>_. True" ?nets mem_redis mem_zset
        demo_decode demo_topic "logs_of demo_logs" empty_db] serves [of 4] serves [of 9]
    by (fastforce simp: get_ethereum_rpc_def indexed_to_cursor_def empty_db_def mem_redis_def demo_deployment_def)
qed

text \<open>
  C19: the event indexer misses the events of the contract in this repository. It filters for a
  signature with four arguments, the contract emits five, and no other event that \<open>VectorX.sol\<close>
  emits matches: when the signatures involved have different hashes and the logs of the address are
  of these events (the ones its upgrade library adds are left out), a pass stores nothing and
  still moves the cursor past the blocks it has read.
\<close>

theorem contract_events_not_indexed:
  assumes "log_provider P topic logs" and "inj_on topic (insert HEADER_RANGE_EVENT (range event_signature))"
    and "\<forall>k t data. (contract_address d, t, data) \<in> logs k \<longrightarrow> t \<in> topic ` range event_signature"
    and "get_ethereum_rpc env (contract_chain_id d) = Some url" and "connect url = Some P"
    and "get_chainid P = Some chain_id" and "get_block_number P = Some current"
    and "unat current + 50000 < 2 ^ 64"
    and "get_contract_cursor R (contract_chain_id d) (contract_address d) db = Inr (Some cursor)"
    and "cursor < current"
  shows "index_deployment env abi_decode connect R d db =
    set_contract_cursor R (contract_chain_id d) (contract_address d) current db"
proof -
  have "(contract_address d, topic HEADER_RANGE_EVENT, data) \<notin> logs k" for k data
  proof
    assume "(contract_address d, topic HEADER_RANGE_EVENT, data) \<in> logs k"
    then obtain ev where "topic HEADER_RANGE_EVENT = topic (event_signature ev)"
      using assms(3) by blast
    from inj_onD [OF assms(2) this] show False
      using event_signature_differs [of ev] by simp
  qed
  from log_provider.batch_loop_idle [OF assms(1) this assms(8), of abi_decode R chain_id cursor db] show ?thesis
    by (simp add: index_deployment_def store_events_def assms(4-7,9,10))
qed

lemma provider_of_block:
  "get_chainid (provider_of chain_id current topic ls) = Some (unat chain_id)"
  "get_block_number (provider_of chain_id current topic ls) = Some current"
  by (simp_all add: provider_of_def)

lemma demo_cursor: "redis_get mem_redis = mem_strings"
  by (simp add: mem_redis_def)

definition demo_event :: vx_event where
  "demo_event = HeaderRangeCommitmentStored 3 7 (replicate 32 1) (replicate 32 2) 256"

definition demo_contract_logs :: "(nat \<times> bytes \<times> bytes \<times> bytes) list" where
  "demo_contract_logs = [(5, replicate 20 1, demo_topic (event_signature demo_event), demo_log)]"

theorem contract_events_not_indexed_witness:
  "index_deployment (\<lambda>_. Some ''url'') demo_decode (\<lambda>_. Some (provider_of 1 9 demo_topic demo_contract_logs))
      mem_redis demo_deployment (empty_db\<lparr>mem_strings := (\<lambda>_. None)(cursor_key 1 (replicate 20 1) \<mapsto> 2)\<rparr>) =
    Inr (empty_db\<lparr>mem_strings := (\<lambda>_. None)(cursor_key 1 (replicate 20 1) \<mapsto> 9)\<rparr>)"
proof -
  let ?db = "empty_db\<lparr>mem_strings := (\<lambda>_. None)(cursor_key 1 (replicate 20 1) \<mapsto> 2)\<rparr>"
  have "\<forall>k t data. (contract_address demo_deployment, t, data) \<in> logs_of demo_contract_logs k \<longrightarrow>
      t \<in> demo_topic ` range event_signature"
    by (simp add: logs_of_def demo_contract_logs_def)
  from contract_events_not_indexed [OF provl.log_provider_axioms inj_on_subset [OF demo_topic_inj subset_UNIV] this,
      of "\<lambda>_. Some ''url''" "''url''" "\<lambda>_. Some (provider_of 1 9 demo_topic demo_contract_logs)" 1 9 1 9 mem_redis
        ?db 2 demo_decode]
  have "index_deployment (\<lambda>_. Some ''url'') demo_decode (\<lambda>_. Some (provider_of 1 9 demo_topic demo_contract_logs))
      mem_redis demo_deployment ?db = set_contract_cursor mem_redis 1 (replicate 20 1) 9 ?db"
    by (simp add: get_ethereum_rpc_def demo_deployment_def get_contract_cursor_def mem_connection
        demo_cursor provider_of_block)
  also have "\<dots> = Inr (empty_db\<lparr>mem_strings := (\<lambda>_. None)(cursor_key 1 (replicate 20 1) \<mapsto> 9)\<rparr>)"
    by (simp add: set_contract_cursor_def mem_connection) (simp add: mem_redis_def)
  finally show ?thesis .
qed

end
