(* ===== verification/Programs.thy ===== *)
theory Programs
  imports Fill_Range Indexer Queries Events
begin

text \<open>
  The entry points under \<open>bin/\<close>: the circuits and the dummy programs at their deployed sizes, and
  the \<open>main\<close> functions of the services, from the environment to the loops of the other theories.
\<close>

section \<open>Circuits and dummy programs\<close>

definition header_range_256 ::
  "plonky2x \<Rightarrow> subchain_mapreduce \<Rightarrow> (u32 list \<Rightarrow> EncodedHeader list) \<Rightarrow> JustificationStruct \<Rightarrow>
   HeaderRangeInput \<Rightarrow> HeaderRangeOutput option"
where
  "header_range_256 B mapreduce = header_range_circuit B mapreduce MAX_AUTHORITY_SET_SIZE 256"

definition header_range_512 ::
  "plonky2x \<Rightarrow> subchain_mapreduce \<Rightarrow> (u32 list \<Rightarrow> EncodedHeader list) \<Rightarrow> JustificationStruct \<Rightarrow>
   HeaderRangeInput \<Rightarrow> HeaderRangeOutput option"
where
  "header_range_512 B mapreduce = header_range_circuit B mapreduce MAX_AUTHORITY_SET_SIZE 512"

definition rotate_main :: "plonky2x \<Rightarrow> RotateStruct \<Rightarrow> JustificationStruct \<Rightarrow> u64 \<Rightarrow> bytes \<Rightarrow> bytes option" where
  "rotate_main B = rotate_circuit B MAX_AUTHORITY_SET_SIZE MAX_SUBARRAY_SIZE"

definition dummy_header_range_256 :: "crates \<Rightarrow> avail_node \<Rightarrow> bytes \<Rightarrow> bytes result" where
  "dummy_header_range_256 C N = DummyHeaderRange C N 256"

definition dummy_header_range_512 :: "crates \<Rightarrow> avail_node \<Rightarrow> bytes \<Rightarrow> bytes result" where
  "dummy_header_range_512 C N = DummyHeaderRange C N 512"

definition dummy_rotate_main :: "crates \<Rightarrow> avail_node \<Rightarrow> bytes \<Rightarrow> bytes result" where
  "dummy_rotate_main C N = DummyRotate C N"

section \<open>Services\<close>

text \<open>The packages around the services, and the environment they start in.\<close>

record host =
  avail_connect :: "string \<Rightarrow> bool"
  redis_open :: "string \<Rightarrow> bool"
  parse_address :: "string \<Rightarrow> bytes option"
  valid_url :: "string \<Rightarrow> bool"
  valid_private_key :: "string \<Rightarrow> bool"
  env_var :: "string \<Rightarrow> string option"

definition vectorx_main ::
  "host \<Rightarrow> crates \<Rightarrow> ('db, 'j) redis \<Rightarrow> prover_network \<Rightarrow> 'db world list \<Rightarrow> platform_request list result"
where
  "vectorx_main h C R submit worlds =
     and_then (RpcDataFetcher_new (avail_connect h) (redis_open h) (env_var h)) (\<lambda>data_fetcher.
     and_then (VectorXOperator_new (parse_address h) (valid_url h) (env_var h)) (\<lambda>operator.
     run operator C R (rf_avail_chain_id data_fetcher) submit worlds []))"

definition indexer_main ::
  "host \<Rightarrow> crates \<Rightarrow> (bytes \<Rightarrow> bytes \<Rightarrow> bytes \<Rightarrow> bool) \<Rightarrow> avail_node \<Rightarrow> ('db, 'j) redis \<Rightarrow>
   GrandpaJustification option list option \<Rightarrow> 'db \<Rightarrow> 'db result"
where
  "indexer_main h C pair_verify N R sub db =
     and_then (expect (env_var h ''AVAIL_URL'') unwrap_err) (\<lambda>url.
     and_then (expect (env_var h ''AVAIL_CHAIN_ID'') unwrap_err) (\<lambda>chain_id.
     and_then (ensure (avail_connect h url) unwrap_err) (\<lambda>_.
     and_then (RedisClient_new (redis_open h) (env_var h)) (\<lambda>_.
     and_then (expect sub unwrap_err) (\<lambda>sub.
     listen_for_justifications C pair_verify N R chain_id sub db)))))"

definition events_program ::
  "host \<Rightarrow> 'v json \<Rightarrow> 'v option \<Rightarrow> log_decoder \<Rightarrow> ('db, 'j) redis \<Rightarrow> (string \<Rightarrow> provider option) list \<Rightarrow> 'db \<Rightarrow>
   'db result"
where
  "events_program h J file abi_decode R networks db =
     and_then (get_deployments J (parse_address h) file) (\<lambda>deployments.
     events_main (redis_open h) (env_var h) abi_decode R deployments networks db)"

text \<open>
  \<open>fill_block_range\<close> reads the tree size and the latest block from the contract. Without \<open>post\<close> it
  only prints; a transaction that reverts is an error of \<open>send\<close>.
\<close>

definition fill_block_range_main ::
  "host \<Rightarrow> crates \<Rightarrow> avail_node \<Rightarrow> evm \<Rightarrow> bool \<Rightarrow> u32 \<Rightarrow> vectorx \<Rightarrow> vectorx result"
where
  "fill_block_range_main h C N E post stop_block st =
     and_then (expect (env_var h ''CONTRACT_ADDRESS'') ''CONTRACT_ADDRESS must be set'') (\<lambda>contract_address.
     and_then (expect (parse_address h contract_address) ''invalid address'') (\<lambda>_.
     and_then (expect (env_var h ''ETHEREUM_RPC_URL'') ''ETHEREUM_RPC_URL must be set'') (\<lambda>ethereum_rpc_url.
     let private_key = (case env_var h ''PRIVATE_KEY'' of Some k \<Rightarrow> k | None \<Rightarrow> ''0x00000000000000000000000000000000'') in
     and_then (expect (env_var h ''CHAIN_ID'') ''CHAIN_ID must be set'') (\<lambda>chain_id.
     and_then (ensure (valid_private_key h private_key) ''invalid private key'') (\<lambda>_.
     and_then (expect (parse_unsigned 64 chain_id) unwrap_err) (\<lambda>_.
     and_then (ensure (valid_url h ethereum_rpc_url) ''could not connect to client'') (\<lambda>_.
     and_then (RpcDataFetcher_new (avail_connect h) (redis_open h) (env_var h)) (\<lambda>_.
     and_then (get_block_range_data C N (headerRangeCommitmentTreeSize st) (latestBlock st) stop_block)
       (\<lambda>block_range_data.
     if post then
       case post_block_range_data E block_range_data st of
         Inl _ \<Rightarrow> Inl (Panic unwrap_err)
       | Inr (st, _, _) \<Rightarrow> Inr st
     else Inr st)))))))))"

section \<open>The deployed sizes\<close>

lemma deployed_trees:
  "next_power_of_two (256 div HEADERS_PER_MAP) = 2 ^ 5" "next_power_of_two (512 div HEADERS_PER_MAP) = 2 ^ 6"
proof -
  have power: "next_power_of_two (2 ^ k) = 2 ^ k" for k
    using next_power_of_two_least [of "2 ^ k" k] next_power_of_two_ge [of "2 ^ k"] by simp
  show "next_power_of_two (256 div HEADERS_PER_MAP) = 2 ^ 5" "next_power_of_two (512 div HEADERS_PER_MAP) = 2 ^ 6"
    using power [of 5] power [of 6] by (simp_all add: HEADERS_PER_MAP_def)
qed

text \<open>
  On a chain with headers that fit the circuit, each deployed circuit accepts every justified range
  of up to its tree size, and the dummy program of the same size returns the same bytes.
\<close>

lemma deployed_header_ranges:
  assumes "chain_prover N head bh hdr sid auths C B blake2b_256 ed25519_verify mapreduce"
    and "a < b" and "b \<le> head" and "a + 513 < 2 ^ 32"
    and "\<forall>n \<le> b. length (encode_header C (hdr n)) \<le> MAX_HEADER_SIZE"
    and "HintSimpleJustification C N R chain db MAX_AUTHORITY_SET_SIZE (of_nat b) set_id = Inr j"
    and "supermajority MAX_AUTHORITY_SET_SIZE j (bh b) (of_nat b) set_id (auths (b - 1))"
    and "evm = \<lparr>hr_trusted_block = of_nat a, hr_trusted_header_hash = bh a, hr_authority_set_id = set_id,
      hr_authority_set_hash = chain_hash (curta_sha256 B) (auths (b - 1)), hr_target_block = of_nat b\<rparr>"
    and "hint = fetched_headers C N B MAX_HEADER_SIZE \<lparr>global_start_block = of_nat a, global_end_block = of_nat b\<rparr>"
  shows "b \<le> a + 256 \<Longrightarrow> \<exists>out. header_range_256 B mapreduce hint j evm = Some out \<and>
      dummy_header_range_256 C N (packed_header_range_input evm) = Inr (packed_header_range_output out)"
    and "b \<le> a + 512 \<Longrightarrow> \<exists>out. header_range_512 B mapreduce hint j evm = Some out \<and>
      dummy_header_range_512 C N (packed_header_range_input evm) = Inr (packed_header_range_output out)"
  using dummy_header_range_agrees [OF assms(1) deployed_trees(1) _ _ assms(2,3) _ assms(5) _ assms(6-8)]
    dummy_header_range_agrees [OF assms(1) deployed_trees(2) _ _ assms(2,3) _ assms(5) _ assms(6-8)] assms(4,9)
  by (simp_all add: HEADERS_PER_MAP_def header_range_256_def header_range_512_def
      dummy_header_range_256_def dummy_header_range_512_def const_values)

end
