(* ===== verification/Unit_Tests.thy ===== *)
theory Unit_Tests
  imports Queries
begin

text \<open>
  The unit tests of the sources, over any node, any crates and any implementation of the gadgets:
  the tests of \<open>circuits/builder/decoder.rs\<close>, \<open>header.rs\<close>, \<open>rotate.rs\<close> and \<open>justification.rs\<close>, of
  \<open>circuits/rotate.rs\<close>, of \<open>circuits/header_range.rs\<close>, the dummy programs and \<open>circuits/input/mod.rs\<close>. A test returns \<open>Inr ()\<close> when it passes. The
  lemmas show that the tests with fixed vectors pass for every implementation of the interfaces,
  and that the tests against a live node pass on every chain that reaches the blocks they name,
  not only on the one they were written against.
\<close>

section \<open>Assertions and proofs\<close>

text \<open>
  \<open>circuit.prove\<close> followed by \<open>circuit.verify\<close>: the outputs, or a panic when the values do not
  satisfy the constraints. \<open>Vec::resize\<close> cuts or pads.
\<close>

definition prove :: "'a option \<Rightarrow> 'a result" where
  "prove circuit = expect circuit ''the witness does not satisfy the circuit''"

definition assert_eq :: "'a \<Rightarrow> 'a \<Rightarrow> unit result" where
  "assert_eq left right = ensure (left = right) ''assertion `left == right` failed''"

definition resize :: "nat \<Rightarrow> 'a \<Rightarrow> 'a list \<Rightarrow> 'a list" where
  "resize n x xs = take n xs @ replicate (n - length xs) x"

lemma prove_Some [simp]: "prove (Some x) = Inr x"
  by (simp add: prove_def)

lemma assert_eq_iff [simp]: "assert_eq a b = Inr u \<longleftrightarrow> a = b"
  by (simp add: assert_eq_def ensure_def)

lemma assert_eq_refl [simp]: "assert_eq a a = Inr ()"
  by simp

lemma resize_id: "length xs \<le> n \<Longrightarrow> resize n x xs = xs @ replicate (n - length xs) x"
  by (simp add: resize_def)

section \<open>Tests of the decoder\<close>

definition compact_test_cases :: "(u32 \<times> variable) list" where
  "compact_test_cases =
     [(0, 0), (1, 0), (63, 0), (64, 1), (16383, 1), (16384, 2), (1073741823, 2), (1073741824, 3),
      (4294967295, 3), (4294967295, 3)]"

fun run_compact_cases :: "crates \<Rightarrow> plonky2x \<Rightarrow> (u32 \<times> variable) list \<Rightarrow> unit result" where
  "run_compact_cases C B [] = Inr ()"
| "run_compact_cases C B ((n, mode) # test_cases) =
     (let encoded_block_num = resize MAX_COMPACT_UINT_BYTES 0 (encode_compact C n) in
      and_then (prove (decode_compact_int B encoded_block_num)) (\<lambda>(value, compress_mode).
      and_then (assert_eq value n) (\<lambda>_.
      and_then (assert_eq compress_mode mode) (\<lambda>_.
      run_compact_cases C B test_cases))))"

definition test_decode_compact_int :: "crates \<Rightarrow> plonky2x \<Rightarrow> unit result" where
  "test_decode_compact_int C B = run_compact_cases C B compact_test_cases"

text \<open>The variable of a header as the tests build it, without the check on its length.\<close>

definition test_header_value :: "crates \<Rightarrow> avail_header \<Rightarrow> EncodedHeader" where
  "test_header_value C x =
     (let header = encode_header C x; header_len = length header in
      \<lparr>header_bytes = resize MAX_HEADER_SIZE 0 header, header_size = of_nat header_len\<rparr>)"

definition test_decode_headers :: "crates \<Rightarrow> avail_node \<Rightarrow> plonky2x \<Rightarrow> unit result" where
  "test_decode_headers C N B =
     (let HEAD_BLOCK_NUM = 272515; NUM_BLOCKS = 1 in
      and_then (get_block_headers_range N HEAD_BLOCK_NUM (HEAD_BLOCK_NUM + of_nat NUM_BLOCKS)) (\<lambda>headers.
      and_then (index_range headers 0 NUM_BLOCKS) (\<lambda>headers.
      let encoded_headers = map (test_header_value C) headers;
          header_hashes = map (avail_header_hash C) headers;
          expected_header_nums = map (\<lambda>i. HEAD_BLOCK_NUM + of_nat i) [0..<NUM_BLOCKS];
          expected_parent_hashes = map h_parent_hash headers;
          expected_state_roots = map h_state_root headers;
          expected_data_roots = map h_data_root headers in
      prove (fold_option (\<lambda>i _. do {
        decoded_header \<leftarrow> decode_header B (encoded_headers ! i) (header_hashes ! i);
        _ \<leftarrow> assert_is_equal (hv_block_number decoded_header) (expected_header_nums ! i);
        _ \<leftarrow> assert_is_equal (hv_parent_hash decoded_header) (expected_parent_hashes ! i);
        _ \<leftarrow> assert_is_equal (hv_state_root decoded_header) (expected_state_roots ! i);
        assert_is_equal (hv_data_root decoded_header) (expected_data_roots ! i)
      }) [0..<NUM_BLOCKS] ()))))"

definition test_encoded_precommit :: bytes where
  "test_encoded_precommit =
     [1, 38, 27, 45, 113, 196, 242, 16, 36, 228, 137, 117, 93, 79, 157, 136, 222, 239, 71,
      241, 37, 152, 13, 194, 159, 190, 169, 38, 234, 124, 89, 223, 233, 161, 217, 4, 0, 75,
      58, 0, 0, 0, 0, 0, 0, 42, 1, 0, 0, 0, 0, 0, 0]"

definition test_decode_precommit :: "plonky2x \<Rightarrow> unit result" where
  "test_decode_precommit B =
     and_then (prove (decode_precommit B test_encoded_precommit)) (\<lambda>decoded_precommit.
     and_then (assert_eq (pc_block_number decoded_precommit) 317857) (\<lambda>_.
     assert_eq (pc_authority_set_id decoded_precommit) 298))"

section \<open>Tests of the header hash\<close>

text \<open>The body that \<open>test_hash_headers\<close> and \<open>test_hash_output_check\<close> share.\<close>

definition hash_headers_from :: "crates \<Rightarrow> avail_node \<Rightarrow> plonky2x \<Rightarrow> u32 \<Rightarrow> nat \<Rightarrow> unit result" where
  "hash_headers_from C N B HEAD_BLOCK_NUM NUM_HEADERS =
     and_then (get_block_headers_range N HEAD_BLOCK_NUM (HEAD_BLOCK_NUM + of_nat NUM_HEADERS)) (\<lambda>headers.
     and_then (index_range headers 0 NUM_HEADERS) (\<lambda>first_headers.
     let encoded_headers_values = map (test_header_value C) first_headers;
         calculated_hashes = map (\<lambda>i. hash_encoded_header B (encoded_headers_values ! i)) [0..<NUM_HEADERS];
         expected_block_hashes = map (avail_header_hash C) headers in
     and_then (index_range expected_block_hashes 0 NUM_HEADERS) (\<lambda>expected_hashes.
     and_then (traverse (\<lambda>(calculated_hash, expected_hash). assert_eq calculated_hash expected_hash)
       (zip calculated_hashes expected_hashes)) (\<lambda>_. Inr ()))))"

definition test_hash_headers :: "crates \<Rightarrow> avail_node \<Rightarrow> plonky2x \<Rightarrow> unit result" where
  "test_hash_headers C N B = hash_headers_from C N B 1000 1"

definition test_hash_output_check :: "crates \<Rightarrow> avail_node \<Rightarrow> plonky2x \<Rightarrow> unit result" where
  "test_hash_output_check C N B = hash_headers_from C N B 397857 1"

definition test_blake2b_correctness :: "crates \<Rightarrow> avail_node \<Rightarrow> plonky2x \<Rightarrow> unit result" where
  "test_blake2b_correctness C N B =
     and_then (get_header N 397859) (\<lambda>header.
     let header_bytes = encode_header C header; header_size = length header_bytes;
         expected_hash = blake2_256 C header_bytes; actual_hash = avail_header_hash C header in
     and_then (assert_eq expected_hash actual_hash) (\<lambda>_.
     and_then (assert_eq header_size 15360) (\<lambda>_.
     let calculated_hash = curta_blake2b_variable B header_bytes 15360 in
     assert_eq expected_hash calculated_hash)))"

section \<open>Tests of the rotation\<close>

text \<open>The body that the three tests of \<open>builder/rotate.rs\<close> share.\<close>

definition verify_prefix_at :: "crates \<Rightarrow> avail_node \<Rightarrow> plonky2x \<Rightarrow> nat \<Rightarrow> unit result" where
  "verify_prefix_at C N B NUM_AUTHORITIES =
     and_then (RotateHint C N MAX_HEADER_SIZE NUM_AUTHORITIES 1) (\<lambda>rotate_var.
     let target_header_dummy_hash = subarray 0 32 (header_bytes (target_header rotate_var)) in
     prove (do {
       prefix_subarray \<leftarrow> get_fixed_subarray B MAX_PREFIX_LENGTH (header_bytes (target_header rotate_var))
         (next_authority_set_start_position rotate_var) target_header_dummy_hash;
       verify_consensus_log prefix_subarray
     }))"

definition test_verify_prefix_epoch_end_header :: "crates \<Rightarrow> avail_node \<Rightarrow> plonky2x \<Rightarrow> unit result" where
  "test_verify_prefix_epoch_end_header C N B = verify_prefix_at C N B 100"

definition test_verify_epoch_end_header_small_authority_set ::
  "crates \<Rightarrow> avail_node \<Rightarrow> plonky2x \<Rightarrow> unit result"
where
  "test_verify_epoch_end_header_small_authority_set C N B = verify_prefix_at C N B 16"

definition test_verify_epoch_end_header_large_authority_set ::
  "crates \<Rightarrow> avail_node \<Rightarrow> plonky2x \<Rightarrow> unit result"
where
  "test_verify_epoch_end_header_large_authority_set C N B = verify_prefix_at C N B 100"

section \<open>Tests of the fetcher\<close>

definition test_get_block_headers_range :: "crates \<Rightarrow> avail_node \<Rightarrow> unit result" where
  "test_get_block_headers_range C N =
     and_then (get_block_headers_range N 100000 100256) (\<lambda>_.
     and_then (get_merkle_root_commitments C N 256 441000 441001) (\<lambda>(_, data_root_commitment).
     Inr ()))"

definition test_get_block_hash :: "avail_node \<Rightarrow> unit result" where
  "test_get_block_hash N = and_then (get_block_hash N 70440) (\<lambda>block_hash. Inr ())"

definition test_get_header_hash :: "crates \<Rightarrow> avail_node \<Rightarrow> unit result" where
  "test_get_header_hash C N =
     (let target_block = 529000 in
      and_then (get_header N target_block) (\<lambda>header.
      and_then (checked_sub target_block 1) (\<lambda>prev_block.
      and_then (get_authority_set_id N prev_block) (\<lambda>authority_set_id.
      and_then (block_authority_set_hash C N prev_block) (\<lambda>authority_set_hash.
      Inr ())))))"

definition test_get_new_authority_set :: "crates \<Rightarrow> avail_node \<Rightarrow> unit result" where
  "test_get_new_authority_set C N =
     (let target_authority_set_id = 2 in
      and_then (last_justified_block N target_authority_set_id) (\<lambda>epoch_end_block_number.
      and_then (ensure (epoch_end_block_number \<noteq> 0) ''assertion `left != right` failed'') (\<lambda>_.
      and_then (checked_sub epoch_end_block_number 1) (\<lambda>prev_block.
      and_then (get_authority_set_id N prev_block) (\<lambda>previous_authority_set_id.
      and_then (get_authority_set_id N epoch_end_block_number) (\<lambda>authority_set_id.
      and_then (checked_add previous_authority_set_id 1) (\<lambda>expected.
      and_then (assert_eq expected authority_set_id) (\<lambda>_.
      and_then (assert_eq previous_authority_set_id target_authority_set_id) (\<lambda>_.
      and_then (get_header_rotate C N MAX_HEADER_SIZE MAX_AUTHORITY_SET_SIZE epoch_end_block_number)
        (\<lambda>rotate_data. Inr ()))))))))))"

definition test_query_redis_block_range ::
  "avail_node \<Rightarrow> ('db, 'j) redis \<Rightarrow> string \<Rightarrow> 'db \<Rightarrow> unit result"
where
  "test_query_redis_block_range N R chain db =
     and_then (last_justified_block N 615) (\<lambda>prev_last_justified_block.
     and_then (last_justified_block N 616) (\<lambda>last_justified_block.
     and_then (find_justifications_in_range N R chain db prev_last_justified_block last_justified_block)
       (\<lambda>blocks. Inr ())))"

definition test_max_header_len :: "crates \<Rightarrow> avail_node \<Rightarrow> nat result" where
  "test_max_header_len C N =
     (let START_BLOCK_NUM = 452578; NUM_BLOCKS = 10 in
      and_then (get_block_headers_range N START_BLOCK_NUM (START_BLOCK_NUM + NUM_BLOCKS)) (\<lambda>headers.
      Inr (fold (\<lambda>header max_size.
        let encoded_header = encode_header C header in
        if max_size < length encoded_header then length encoded_header else max_size) headers 0)))"

text \<open>\<open>let _\<close> drops an \<open>Err\<close> of the query, not its panics.\<close>

definition drop_failure :: "'a result \<Rightarrow> unit result" where
  "drop_failure r = (case r of Inl (Panic msg) \<Rightarrow> Inl (Panic msg) | _ \<Rightarrow> Inr ())"

definition test_get_simple_justification_change_authority_set ::
  "crates \<Rightarrow> avail_node \<Rightarrow> ('db, 'j) redis \<Rightarrow> string \<Rightarrow> 'db \<Rightarrow> unit result"
where
  "test_get_simple_justification_change_authority_set C N R chain db =
     (let block = 645570; VALIDATOR_SET_SIZE_MAX = 100 in
      and_then (checked_sub block 1) (\<lambda>prev_block.
      and_then (get_authority_set_id N prev_block) (\<lambda>authority_set_id.
      and_then (block_authority_set_hash C N prev_block) (\<lambda>authority_set_hash.
      and_then (get_header N block) (\<lambda>header.
      drop_failure (get_justification_from_block C N R chain db VALIDATOR_SET_SIZE_MAX block))))))"

definition test_grandpa_prove_finality :: "crates \<Rightarrow> avail_node \<Rightarrow> u32 result" where
  "test_grandpa_prove_finality C N =
     (let block_number = 642000 in
      and_then (checked_sub block_number 1) (\<lambda>prev_block.
      and_then (get_authority_set_id N prev_block) (\<lambda>authority_set_id.
      and_then (last_justified_block N authority_set_id) (\<lambda>last_justified_block.
      and_then (get_header N last_justified_block) (\<lambda>header.
      and_then (block_authority_set_hash C N prev_block) (\<lambda>authority_set_hash.
      and_then (get_authority_set_id N last_justified_block) (\<lambda>new_authority_set_id.
      and_then (checked_add last_justified_block 1) (\<lambda>param.
      and_then (expect (grandpa_proveFinality N param) unwrap_err) (\<lambda>encoded_finality_proof.
      and_then (expect (decode_finality_proof C encoded_finality_proof) unwrap_err) (\<lambda>finality_proof.
      and_then (expect (decode_grandpa_justification C (fp_justification finality_proof)) unwrap_err)
        (\<lambda>justification.
      and_then (get_authority_set_id N prev_block) (\<lambda>authority_set_id.
      and_then (index (precommits (commit justification)) 0) (\<lambda>first_precommit.
      let signed_message = encode_signed_message C (PrecommitMessage (precommit first_precommit))
            (round justification) authority_set_id in
      and_then (host_decode_precommit signed_message) (\<lambda>(_, block_number, _, _).
      Inr block_number))))))))))))))"

text \<open>The loop of \<open>test_get_header_rotate\<close>; \<open>start_epoch\<close> is a \<open>u64\<close>, whose increment is checked.\<close>

function header_rotate_loop :: "crates \<Rightarrow> avail_node \<Rightarrow> u64 \<Rightarrow> unit result" where
  "header_rotate_loop C N start_epoch =
     and_then (last_justified_block N start_epoch) (\<lambda>epoch_end_block.
     if epoch_end_block = 0 then Inr ()
     else
       and_then (get_header_rotate C N MAX_HEADER_SIZE MAX_AUTHORITY_SET_SIZE epoch_end_block) (\<lambda>rotate_data.
       and_then (get_authorities N epoch_end_block) (\<lambda>authorities.
       and_then (index (rd_header_bytes rotate_data) (rd_start_position rotate_data)) (\<lambda>start_byte.
       and_then (checked_add start_epoch 1) (\<lambda>start_epoch.
       header_rotate_loop C N start_epoch)))))"
  by pat_completeness auto
termination
proof (relation "measure (\<lambda>(_, _, start_epoch). 2 ^ 64 - unat start_epoch)", goal_cases)
  case 1
  then show ?case by simp
next
  case (2 C N start_epoch e rd as b next_epoch)
  then show ?case
    using checked_add_Inr(1) [of start_epoch 1 next_epoch] unat_u64_less [of next_epoch] by simp
qed

declare header_rotate_loop.simps [simp del]

definition test_get_header_rotate :: "crates \<Rightarrow> avail_node \<Rightarrow> unit result" where
  "test_get_header_rotate C N = header_rotate_loop C N 1"

section \<open>Tests of the circuits\<close>

text \<open>The hashes of the chain that the tests use.\<close>

definition test_set_0_hash :: bytes where
  "test_set_0_hash =
     [0x54, 0xeb, 0x30, 0x49, 0xb7, 0x63, 0xa6, 0xa8, 0x4c, 0x39, 0x1d,
      0x53, 0xff, 0xb5, 0xe9, 0x35, 0x15, 0xa1, 0x71, 0xb2, 0xdb, 0xaa,
      0xa6, 0xa9, 0x00, 0xec, 0x09, 0xe3, 0xb6, 0xbb, 0x8d, 0xfb]"

definition test_set_48_hash :: bytes where
  "test_set_48_hash =
     [0xa6, 0x99, 0xe4, 0x92, 0x72, 0xd2, 0xd2, 0x3f, 0x12, 0xe1, 0x62,
      0x4f, 0xba, 0x2e, 0xd8, 0xd2, 0x8e, 0x1f, 0xc7, 0x77, 0xef, 0x25,
      0xa4, 0x0a, 0x7b, 0xca, 0xcb, 0xb8, 0xc0, 0xd8, 0xd2, 0x52]"

definition test_set_215_hash :: bytes where
  "test_set_215_hash =
     [0xa9, 0x7e, 0xbe, 0x6c, 0x36, 0xb2, 0xbc, 0xde, 0x9b, 0x81, 0x93,
      0xc0, 0xf0, 0x3b, 0x54, 0xfe, 0x6d, 0xf6, 0x7c, 0x72, 0x5b, 0xa7,
      0xb5, 0x3b, 0x91, 0x5a, 0xf1, 0x73, 0x51, 0x50, 0xfc, 0x75]"

definition test_header_4310 :: bytes where
  "test_header_4310 =
     [0x08, 0x7e, 0xe7, 0xc7, 0x39, 0xe3, 0x5c, 0x46, 0xb2, 0xac, 0x42,
      0x2c, 0xf6, 0x83, 0xec, 0xf6, 0xd4, 0xcb, 0x45, 0x71, 0x61, 0x0e,
      0xfe, 0x6a, 0x5d, 0xff, 0x6f, 0x5b, 0x3d, 0x58, 0x18, 0xc9]"

definition test_header_4321 :: bytes where
  "test_header_4321 =
     [0xc7, 0x08, 0x77, 0xfe, 0xd9, 0xae, 0x5a, 0x04, 0x0e, 0xdb, 0x11,
      0xe8, 0x80, 0x0b, 0x3d, 0xf5, 0x3e, 0xc4, 0xc9, 0xec, 0x67, 0xd0,
      0x7b, 0x56, 0x55, 0xa3, 0x00, 0xae, 0x11, 0x72, 0x7d, 0xc1]"

definition test_header_529000 :: bytes where
  "test_header_529000 =
     [0x86, 0xf9, 0x67, 0xbb, 0xe9, 0x5f, 0x23, 0x14, 0xe6, 0xe6, 0xb8,
      0x1d, 0x43, 0x49, 0x97, 0x67, 0x2b, 0x3d, 0x6f, 0xa3, 0xa1, 0xa3,
      0x2c, 0x8d, 0xe8, 0x0d, 0xad, 0xe1, 0x37, 0xbc, 0x74, 0xcf]"

definition test_header_397855 :: bytes where
  "test_header_397855 =
     [0x42, 0x93, 0x37, 0x43, 0x12, 0x74, 0x22, 0xab, 0x19, 0x44, 0x45,
      0xad, 0x5b, 0xf0, 0xd2, 0x7e, 0xa7, 0xcc, 0xd2, 0x0f, 0x98, 0xcd,
      0xc9, 0x02, 0xee, 0x7f, 0xc5, 0x5d, 0xf0, 0x0f, 0xca, 0x68]"

definition test_verify_simple_justification ::
  "crates \<Rightarrow> avail_node \<Rightarrow> plonky2x \<Rightarrow> ('db, 'j) redis \<Rightarrow> string \<Rightarrow> 'db \<Rightarrow> unit result"
where
  "test_verify_simple_justification C N B R chain db =
     (let NUM_AUTHORITIES = 8; target_block = 4321; authority_set_id = 0 in
      and_then (HintSimpleJustification C N R chain db NUM_AUTHORITIES target_block authority_set_id)
        (\<lambda>justification.
      prove (verify_simple_justification B NUM_AUTHORITIES target_block test_header_4321 authority_set_id
        test_set_0_hash justification)))"

text \<open>The rotate circuit with its two hints, the body of the three tests of \<open>circuits/rotate.rs\<close>.\<close>

definition prove_rotate ::
  "crates \<Rightarrow> avail_node \<Rightarrow> plonky2x \<Rightarrow> ('db, 'j) redis \<Rightarrow> string \<Rightarrow> 'db \<Rightarrow> nat \<Rightarrow> u64 \<Rightarrow> bytes \<Rightarrow> bytes result"
where
  "prove_rotate C N B R chain db NUM_AUTHORITIES authority_set_id authority_set_hash =
     (let MAX_SUBARRAY_SIZE = NUM_AUTHORITIES * VALIDATOR_LENGTH + DELAY_LENGTH in
      and_then (RotateHint C N MAX_HEADER_SIZE NUM_AUTHORITIES authority_set_id) (\<lambda>rot.
      and_then (HintSimpleJustification C N R chain db NUM_AUTHORITIES (epoch_end_block_number rot)
        authority_set_id) (\<lambda>justification.
      prove (rotate_circuit B NUM_AUTHORITIES MAX_SUBARRAY_SIZE rot justification authority_set_id
        authority_set_hash))))"

definition test_rotate_small_authority_set ::
  "crates \<Rightarrow> avail_node \<Rightarrow> plonky2x \<Rightarrow> ('db, 'j) redis \<Rightarrow> string \<Rightarrow> 'db \<Rightarrow> bytes result"
where
  "test_rotate_small_authority_set C N B R chain db = prove_rotate C N B R chain db 8 0 test_set_0_hash"

definition test_rotate_medium_authority_set ::
  "crates \<Rightarrow> avail_node \<Rightarrow> plonky2x \<Rightarrow> ('db, 'j) redis \<Rightarrow> string \<Rightarrow> 'db \<Rightarrow> bytes result"
where
  "test_rotate_medium_authority_set C N B R chain db = prove_rotate C N B R chain db 100 0 test_set_0_hash"

definition test_rotate_large_authority_set ::
  "crates \<Rightarrow> avail_node \<Rightarrow> plonky2x \<Rightarrow> ('db, 'j) redis \<Rightarrow> string \<Rightarrow> 'db \<Rightarrow> bytes result"
where
  "test_rotate_large_authority_set C N B R chain db = prove_rotate C N B R chain db 300 48 test_set_48_hash"

text \<open>The relative block numbers of the map jobs, and the hint of every job.\<close>

definition job_nums :: "nat \<Rightarrow> u32 list list" where
  "job_nums max_num_headers =
     map (\<lambda>j. map of_nat [j * HEADERS_PER_MAP + 1..<(j + 1) * HEADERS_PER_MAP + 1])
       [0..<next_power_of_two (max_num_headers div HEADERS_PER_MAP)]"

definition fetch_jobs :: "crates \<Rightarrow> avail_node \<Rightarrow> plonky2x \<Rightarrow> nat \<Rightarrow> u32 \<Rightarrow> u32 \<Rightarrow> EncodedHeader list list result" where
  "fetch_jobs C N B max_num_headers trusted_block target_block =
     traverse (\<lambda>nums. header_range_hint C N MAX_HEADER_SIZE HEADERS_PER_MAP (u32_add B trusted_block (nums ! 0))
       (u32_add B trusted_block (nums ! (HEADERS_PER_MAP - 1))) target_block) (job_nums max_num_headers)"

definition prove_header_range ::
  "crates \<Rightarrow> avail_node \<Rightarrow> plonky2x \<Rightarrow> subchain_mapreduce \<Rightarrow> ('db, 'j) redis \<Rightarrow> string \<Rightarrow> 'db \<Rightarrow> nat \<Rightarrow> nat \<Rightarrow>
   HeaderRangeInput \<Rightarrow> HeaderRangeOutput result"
where
  "prove_header_range C N B mapreduce R chain db NUM_AUTHORITIES NUM_HEADERS evm =
     and_then (fetch_jobs C N B NUM_HEADERS (hr_trusted_block evm) (hr_target_block evm)) (\<lambda>_.
     and_then (HintSimpleJustification C N R chain db NUM_AUTHORITIES (hr_target_block evm)
       (hr_authority_set_id evm)) (\<lambda>justification.
     prove (header_range_circuit B mapreduce NUM_AUTHORITIES NUM_HEADERS
       (fetched_headers C N B MAX_HEADER_SIZE
         \<lparr>global_start_block = hr_trusted_block evm, global_end_block = hr_target_block evm\<rparr>)
       justification evm)))"

definition test_header_range_small ::
  "crates \<Rightarrow> avail_node \<Rightarrow> plonky2x \<Rightarrow> subchain_mapreduce \<Rightarrow> ('db, 'j) redis \<Rightarrow> string \<Rightarrow> 'db \<Rightarrow> HeaderRangeOutput result"
where
  "test_header_range_small C N B mapreduce R chain db =
     prove_header_range C N B mapreduce R chain db 5 32
       \<lparr>hr_trusted_block = 4310, hr_trusted_header_hash = test_header_4310, hr_authority_set_id = 0,
        hr_authority_set_hash = test_set_0_hash, hr_target_block = 4321\<rparr>"

definition test_header_range ::
  "crates \<Rightarrow> avail_node \<Rightarrow> plonky2x \<Rightarrow> subchain_mapreduce \<Rightarrow> ('db, 'j) redis \<Rightarrow> string \<Rightarrow> 'db \<Rightarrow> HeaderRangeOutput result"
where
  "test_header_range C N B mapreduce R chain db =
     prove_header_range C N B mapreduce R chain db 76 100
       \<lparr>hr_trusted_block = 4310, hr_trusted_header_hash = test_header_4310, hr_authority_set_id = 0,
        hr_authority_set_hash = test_set_0_hash, hr_target_block = 4321\<rparr>"

definition test_header_range_large ::
  "crates \<Rightarrow> avail_node \<Rightarrow> plonky2x \<Rightarrow> subchain_mapreduce \<Rightarrow> ('db, 'j) redis \<Rightarrow> string \<Rightarrow> 'db \<Rightarrow> HeaderRangeOutput result"
where
  "test_header_range_large C N B mapreduce R chain db =
     prove_header_range C N B mapreduce R chain db MAX_AUTHORITY_SET_SIZE 256
       \<lparr>hr_trusted_block = 529000, hr_trusted_header_hash = test_header_529000, hr_authority_set_id = 215,
        hr_authority_set_hash = test_set_215_hash, hr_target_block = 529200\<rparr>"

text \<open>The circuit of \<open>test_verify_subchain\<close> only watches the hash of the target.\<close>

definition test_verify_subchain ::
  "crates \<Rightarrow> avail_node \<Rightarrow> plonky2x \<Rightarrow> subchain_mapreduce \<Rightarrow> SubchainVerificationStruct result"
where
  "test_verify_subchain C N B mapreduce =
     (let MAX_NUM_HEADERS = 16; trusted_block = 397855; target_block = 397862 in
      and_then (fetch_jobs C N B MAX_NUM_HEADERS trusted_block target_block) (\<lambda>_.
      prove (verify_subchain B mapreduce
        (fetched_headers C N B MAX_HEADER_SIZE \<lparr>global_start_block = trusted_block, global_end_block = target_block\<rparr>)
        MAX_NUM_HEADERS trusted_block test_header_397855 target_block)))"

section \<open>Tests of the dummy programs\<close>

definition test_dummy_rotate_input :: bytes where
  "test_dummy_rotate_input =
     [0x00, 0x00, 0x00, 0x00, 0x00, 0x00, 0x00, 0x75, 0xf2, 0xda, 0x06, 0xeb, 0x7e, 0xc3, 0x6f,
      0x68, 0x3d, 0x29, 0x08, 0x64, 0x8c, 0x43, 0x1a, 0x1b, 0x3f, 0x96, 0x8f, 0xa5, 0x21, 0x2b,
      0x72, 0xcc, 0x7e, 0x8e, 0xdd, 0xce, 0x8b, 0x80, 0x95, 0x8d, 0x00, 0x03, 0xc6, 0xf0]"

definition test_dummy_rotate_output :: bytes where
  "test_dummy_rotate_output =
     [0x21, 0x96, 0x98, 0x29, 0xdb, 0x96, 0xb6, 0xcc, 0x81, 0x71, 0x29, 0x0a, 0x23, 0x1a, 0x15,
      0x0f, 0xbf, 0x4b, 0x11, 0x91, 0x1e, 0xea, 0x1e, 0xdb, 0x7b, 0x1d, 0x78, 0x57, 0x16, 0x79,
      0x7a, 0x7f]"

definition test_dummy_header_range_input :: bytes where
  "test_dummy_header_range_input =
     [0x00, 0x03, 0xc1, 0x86, 0x95, 0xf3, 0x03, 0xb0, 0x1e, 0x48, 0x34, 0xda, 0x35, 0xe5, 0xfd,
      0xc3, 0x97, 0x1f, 0xe2, 0x97, 0xd1, 0xb4, 0x8f, 0xeb, 0x0c, 0x3f, 0x33, 0x04, 0x91, 0x63,
      0x91, 0x36, 0xa6, 0xad, 0xa5, 0x98, 0x00, 0x00, 0x00, 0x00, 0x00, 0x00, 0x00, 0x75, 0xf2,
      0xda, 0x06, 0xeb, 0x7e, 0xc3, 0x6f, 0x68, 0x3d, 0x29, 0x08, 0x64, 0x8c, 0x43, 0x1a, 0x1b,
      0x3f, 0x96, 0x8f, 0xa5, 0x21, 0x2b, 0x72, 0xcc, 0x7e, 0x8e, 0xdd, 0xce, 0x8b, 0x80, 0x95,
      0x8d, 0x00, 0x03, 0xc2, 0x3a]"

definition test_dummy_header_range_output :: bytes where
  "test_dummy_header_range_output =
     [0x3a, 0xaa, 0x82, 0x53, 0x5c, 0xe7, 0x15, 0xac, 0xb2, 0x51, 0x04, 0x7c, 0x28, 0x0d, 0x54,
      0x92, 0xd1, 0x33, 0x0c, 0x41, 0xfe, 0x24, 0xc9, 0x84, 0x1d, 0xb5, 0x08, 0xba, 0x96, 0x1d,
      0xce, 0x46, 0x4c, 0xb5, 0xc2, 0xa8, 0x2c, 0xc6, 0x4e, 0x40, 0x1a, 0xc0, 0x1b, 0xa8, 0x5c,
      0x47, 0x1f, 0xe1, 0xda, 0xb4, 0xfe, 0x4b, 0xaf, 0x7a, 0x96, 0xc3, 0x06, 0xd4, 0xe9, 0x4d,
      0xcb, 0x42, 0x8f, 0x47, 0xea, 0xd1, 0x56, 0xd5, 0x8c, 0x77, 0xad, 0xfa, 0x92, 0x88, 0x45,
      0xf0, 0x48, 0xb5, 0x0f, 0xd9, 0x2e, 0x87, 0x17, 0x76, 0xdf, 0xa7, 0x6e, 0xd2, 0xf9, 0x8c,
      0x6e, 0xf8, 0x23, 0xaa, 0x7a, 0x2d]"

definition test_dummy_rotate :: "crates \<Rightarrow> avail_node \<Rightarrow> unit result" where
  "test_dummy_rotate C N =
     and_then (DummyRotate C N test_dummy_rotate_input) (\<lambda>output.
     assert_eq output test_dummy_rotate_output)"

definition test_dummy_header_range :: "crates \<Rightarrow> avail_node \<Rightarrow> unit result" where
  "test_dummy_header_range C N =
     and_then (DummyHeaderRange C N 256 test_dummy_header_range_input) (\<lambda>output.
     assert_eq output test_dummy_header_range_output)"

section \<open>The tests with fixed vectors\<close>

lemma compact_mode_cases:
  "list_all (\<lambda>(n, mode). compact_mode n = mode) compact_test_cases"
  by (simp add: compact_test_cases_def compact_mode_def)

text \<open>The vector of the precommit test is the encoding of block 317857, round 14923, set 298.\<close>

lemma le_bytes_read: "length bs = k \<Longrightarrow> le_nat bs = n \<Longrightarrow> le_bytes k n = bs"
  using le_bytes_le_nat by blast

lemma test_numbers:
  "le_bytes 4 (unat (317857 :: u32)) = [161, 217, 4, 0]"
  "le_bytes 8 (unat (14923 :: u64)) = [75, 58, 0, 0, 0, 0, 0, 0]"
  "le_bytes 8 (unat (298 :: u64)) = [42, 1, 0, 0, 0, 0, 0, 0]"
  by (rule le_bytes_read; simp)+

lemma test_encoded_precommit_eq:
  "encode_precommit (subarray 1 33 test_encoded_precommit) 317857 14923 298 = test_encoded_precommit"
  unfolding encode_precommit_def test_numbers by (simp add: test_encoded_precommit_def subarray_def)

lemma length_test_hash: "length (subarray 1 33 test_encoded_precommit) = 32"
  by code_simp

text \<open>
  What the dummy programs read from the inputs of their tests. The input of the rotation has four
  bytes more than the program reads.
\<close>

lemma dummy_inputs:
  "length test_dummy_rotate_input = 44" "length test_dummy_header_range_input = 80"
  "from_be_bytes (subarray 0 8 test_dummy_rotate_input) = (117 :: u64)"
  "from_be_bytes (subarray 0 4 test_dummy_header_range_input) = (246150 :: u32)"
  "from_be_bytes (subarray 76 80 test_dummy_header_range_input) = (246330 :: u32)"
  by (simp_all add: test_dummy_rotate_input_def test_dummy_header_range_input_def subarray_def
      from_be_bytes_def be_nat_def)

text \<open>Block \<open>f\<close> announces the authorities of the next set, in a header the circuits can hold.\<close>

definition announces_next :: "crates \<Rightarrow> (nat \<Rightarrow> avail_header) \<Rightarrow> (nat \<Rightarrow> bytes list) \<Rightarrow> nat \<Rightarrow> bool" where
  "announces_next C hdr auths f \<longleftrightarrow>
     (\<exists>pre post. h_logs (hdr f) = pre @ Consensus [70, 82, 78, 75] (scheduled_change (auths f)) # post \<and>
        (\<forall>l \<in> set pre. \<forall>v. l \<noteq> Consensus [70, 82, 78, 75] v)) \<and>
     length (h_logs (hdr f)) < 64 \<and> length (encode_header C (hdr f)) \<le> MAX_HEADER_SIZE \<and>
     length (auths f) \<le> MAX_AUTHORITY_SET_SIZE"

text \<open>The host's decoder inverts the encoding of a precommit.\<close>

lemma from_le_bytes_le_bytes:
  "from_le_bytes (le_bytes 4 (unat (n :: u32))) = n" "from_le_bytes (le_bytes 8 (unat (m :: u64))) = m"
  using unat_u32_less [of n] unat_u64_less [of m]
  by (simp_all add: from_le_bytes_def le_nat_le_bytes del: le_bytes.simps)

lemma host_decode_encode_precommit:
  assumes "length block_hash = 32"
  shows "host_decode_precommit (encode_precommit block_hash n rnd set_id) = Inr (block_hash, n, rnd, set_id)"
proof -
  have "length (encode_precommit block_hash n rnd set_id) = 53"
    using assms by (simp add: encode_precommit_def del: le_bytes.simps)
  then show ?thesis
    using assms from_le_bytes_le_bytes
    by (simp add: host_decode_precommit_eq, simp add: encode_precommit_def subarray_def take_Cons' drop_Cons'
        del: le_bytes.simps)
qed

context chain_prover
begin

lemma run_compact_cases_ok:
  "list_all (\<lambda>(n, mode). compact_mode n = mode) cs \<Longrightarrow> run_compact_cases C B cs = Inr ()"
proof (induction cs)
  case Nil
  then show ?case by simp
next
  case (Cons c cs)
  obtain n mode where c: "c = (n, mode)" by (cases c)
  have "resize 5 0 (scale_compact n) = take 5 (scale_compact n @ replicate (5 - compact_length n) 0)"
    using compact_length_bounds [of n] by (simp add: resize_id length_scale_compact)
  then have "decode_compact_int B (resize 5 0 (scale_compact n)) = Some (n, compact_mode n)"
    using decode_scale_compact [of n "replicate (5 - compact_length n) 0"] by simp
  with Cons c show ?case
    by (simp add: encode_compact MAX_COMPACT_UINT_BYTES_def Let_def)
qed

lemma test_decode_compact_int_passes: "test_decode_compact_int C B = Inr ()"
  unfolding test_decode_compact_int_def by (rule run_compact_cases_ok [OF compact_mode_cases])

lemma test_decode_precommit_passes: "test_decode_precommit B = Inr ()"
  using decode_encode_precommit [OF length_test_hash, of 317857 14923 298]
  unfolding test_encoded_precommit_eq by (simp add: test_decode_precommit_def)

text \<open>
  The tests against a node: they pass on every chain that is long enough and whose headers fit
  the size of the circuits.
\<close>

lemma test_header_value_eq:
  "length (encode_header C h) \<le> MAX_HEADER_SIZE \<Longrightarrow> test_header_value C h = encoded_header C MAX_HEADER_SIZE h"
  by (simp add: test_header_value_def encoded_header_def resize_id Let_def)

lemma two_headers:
  assumes "n < head"
  shows "get_block_headers_range N (of_nat n) (of_nat n + 1) = Inr [hdr n, hdr (n + 1)]"
  using get_block_headers_range_ok [of "n + 1" n] assms by (simp add: add.commute)

lemma test_decode_headers_passes:
  assumes "272516 \<le> head" and "length (encode_header C (hdr 272515)) \<le> MAX_HEADER_SIZE"
  shows "test_decode_headers C N B = Inr ()"
proof -
  let ?h = "encoded_header C MAX_HEADER_SIZE (hdr 272515)"
  have "avail_header_hash C (hdr 272515) = hash_encoded_header B ?h"
    using assms by (simp add: avail_header_hash hash_encoded const_simps)
  moreover have "decode_header B ?h (hash_encoded_header B ?h) = Some \<lparr>hv_block_number = 272515,
      hv_parent_hash = h_parent_hash (hdr 272515), hv_state_root = h_state_root (hdr 272515),
      hv_data_root = h_data_root (hdr 272515)\<rparr>"
    using header_of_encoded [of 272515 MAX_HEADER_SIZE] assms by (simp add: header_of_def const_simps)
  ultimately show ?thesis
    using two_headers [of 272515] assms
    by (simp add: test_decode_headers_def test_header_value_eq index_range_def subarray_def)
qed

lemma hash_headers_from_passes:
  assumes "n < head" and "length (encode_header C (hdr n)) \<le> MAX_HEADER_SIZE"
  shows "hash_headers_from C N B (of_nat n) 1 = Inr ()"
  using two_headers [OF assms(1)] hash_encoded [of n MAX_HEADER_SIZE] avail_header_hash [of n] assms
  by (simp add: hash_headers_from_def test_header_value_eq index_range_def subarray_def const_simps)

lemma hash_tests_pass:
  assumes "397858 \<le> head" and "length (encode_header C (hdr 1000)) \<le> MAX_HEADER_SIZE"
    and "length (encode_header C (hdr 397857)) \<le> MAX_HEADER_SIZE"
  shows "test_hash_headers C N B = Inr ()" and "test_hash_output_check C N B = Inr ()"
  using hash_headers_from_passes [of 1000] hash_headers_from_passes [of 397857] assms
  by (simp_all add: test_hash_headers_def test_hash_output_check_def)

text \<open>
  The test of the hash on one block passes exactly when its header has the length the test
  expects: the circuit and the host agree on the hash in any case.
\<close>

lemma test_blake2b_correctness_iff:
  assumes "397859 \<le> head"
  shows "test_blake2b_correctness C N B = Inr () \<longleftrightarrow> length (encode_header C (hdr 397859)) = 15360"
proof -
  have "get_header N 397859 = Inr (hdr 397859)"
    using get_header_ok [of 397859] assms by simp
  moreover have "curta_blake2b_variable B bs 15360 = blake2_256 C bs" if "length bs = 15360" for bs
    using that curta_blake2b_variable [of 15360 bs] by (simp add: same_blake2b)
  ultimately show ?thesis
    by (auto simp: test_blake2b_correctness_def avail_header_hash_def and_then_eq_Inr Let_def)
qed

text \<open>
  The tests of the rotation pass when the set 1 has ended and the block that ended it announces
  the next authorities, at most as many as the test has slots.
\<close>

lemma verify_prefix_at_passes:
  assumes f: "epoch_end sid head 1 f"
    and logs: "h_logs (hdr f) = pre @ Consensus [70, 82, 78, 75] (scheduled_change (auths f)) # post"
      "\<forall>l \<in> set pre. \<forall>v. l \<noteq> Consensus [70, 82, 78, 75] v" "length (h_logs (hdr f)) < 64"
    and S: "length (encode_header C (hdr f)) + 40 \<le> MAX_HEADER_SIZE" and M: "length (auths f) \<le> M"
  shows "verify_prefix_at C N B M = Inr ()"
proof -
  have fs: "f \<le> head" "(1 :: nat) + 1 < 2 ^ 64"
    using f by (auto simp: epoch_end_def)
  have len: "length (encode_header C (hdr f)) \<le> MAX_HEADER_SIZE"
    using S by simp
  obtain data where data: "get_header_rotate C N MAX_HEADER_SIZE M (of_nat f) = Inr data"
      "rd_header_bytes data = header_bytes (encoded_header C MAX_HEADER_SIZE (hdr f))"
      "rd_num_authorities data = length (auths f)"
      "rd_start_position data = 96 + compact_length (of_nat f) + length (concat (map (encode_log C) pre))"
    using get_header_rotate_ok [OF f logs(1,2) len M] by metis
  obtain before x after where hb:
      "header_bytes (encoded_header C MAX_HEADER_SIZE (hdr f)) = before @ x # consensus_log (scheduled_change (auths f)) @ after"
      "length before = rd_start_position data" "40 \<le> length after"
    using encoded_scheduled_change [OF fs(1) logs(3,1) S] data(4) by metis
  have "last_justified_block N 1 = Inr (of_nat f)"
    using last_justified_block_eq(2) [OF fs(2) f] by simp
  then obtain rot where rot: "RotateHint C N MAX_HEADER_SIZE M 1 = Inr rot"
      "header_bytes (target_header rot) = rd_header_bytes data" "next_authority_set_start_position rot = rd_start_position data"
    using M data(1,3) by (simp add: RotateHint_def)
  have "verify_consensus_log (subarray (length before) (length before + 17)
      (before @ x # consensus_log (scheduled_change (auths f)) @ after)) = Some ()"
    using hb(3) by (simp add: verify_consensus_log_def consensus_log_def subarray_def take_Cons')
  then show ?thesis
    using hb by (simp add: verify_prefix_at_def rot data(2) get_fixed_subarray const_values(2))
qed

text \<open>The test of the new authority set asserts what makes a block an epoch end.\<close>

lemma test_get_new_authority_set_passes:
  assumes f: "epoch_end sid head 2 f"
    and logs: "h_logs (hdr f) = pre @ Consensus [70, 82, 78, 75] (scheduled_change (auths f)) # post"
      "\<forall>l \<in> set pre. \<forall>v. l \<noteq> Consensus [70, 82, 78, 75] v"
    and S: "length (encode_header C (hdr f)) \<le> MAX_HEADER_SIZE" and M: "length (auths f) \<le> MAX_AUTHORITY_SET_SIZE"
  shows "test_get_new_authority_set C N = Inr ()"
proof -
  have fs: "0 < f" "f \<le> head" "sid f = 3" "sid (f - 1) = 2" "(2 :: nat) + 1 < 2 ^ 64"
    using f by (auto simp: epoch_end_def)
  obtain data where "get_header_rotate C N MAX_HEADER_SIZE MAX_AUTHORITY_SET_SIZE (of_nat f) = Inr data"
    using get_header_rotate_ok [OF f logs S M] by metis
  moreover have "last_justified_block N 2 = Inr (of_nat f)"
    using last_justified_block_eq(2) [OF fs(5) f] by simp
  moreover have "(of_nat f :: u32) \<noteq> 0"
    using of_nat_block_eq [of f 0] fs by simp
  moreover have "checked_add (2 :: u64) 1 = Inr 3"
    by (simp add: checked_add_def)
  ultimately show ?thesis
    using prev_block [OF fs(1,2)] get_authority_set_id_ok [of f] get_authority_set_id_ok [of "f - 1"] fs
    by (simp add: test_get_new_authority_set_def ensure_def)
qed

text \<open>The tests without assertions return: no query of theirs panics.\<close>

lemma query_tests_pass:
  assumes "529000 \<le> head" and "auths 528999 \<noteq> []"
  shows "test_get_block_hash N = Inr ()" and "test_get_header_hash C N = Inr ()"
    and "test_get_block_headers_range C N = Inr ()"
proof -
  show "test_get_block_hash N = Inr ()"
    using get_block_hash_ok [of 70440] assms(1) by (simp add: test_get_block_hash_def)
  show "test_get_header_hash C N = Inr ()"
    using get_header_ok [of 529000] prev_block [of 529000] get_authority_set_id_ok [of 528999]
      block_authority_set_hash_ok [of 528999] assms
    by (simp add: test_get_header_hash_def)
  show "test_get_block_headers_range C N = Inr ()"
    using get_block_headers_range_ok [of 100256 100000] get_merkle_root_commitments_ok [of 8 441000 441001] assms(1)
    by (simp add: test_get_block_headers_range_def del: upt_Suc upt_rec_numeral)
qed

lemma test_query_redis_block_range_passes:
  assumes "epoch_end sid head 615 a" and "epoch_end sid head 616 b"
    and "get_blocks_in_range R chain (of_nat a) (of_nat b) db = Inr indexed"
  shows "test_query_redis_block_range N R chain db = Inr ()"
proof -
  have ab: "0 < a" "a < b" "b \<le> head" "a \<le> head" "a - 1 \<le> head"
    using assms(1,2) set_id_mono [of b "a - 1"] set_id_mono [of b a] by (auto simp: epoch_end_def not_less [symmetric])
  have ids: "sid (a - 1) = 615" "last_justified_block N 615 = Inr (of_nat a)" "last_justified_block N 616 = Inr (of_nat b)"
    using last_justified_block_eq(2) [of 615 a] last_justified_block_eq(2) [of 616 b] assms(1,2)
    by (auto simp: epoch_end_def)
  obtain bs where "epoch_end_loop N (of_nat b) (of_nat a) (of_nat (sid (a - 1))) [] = Inr (map of_nat bs)"
    using epoch_end_loop_ok [OF refl ab(5), of a b "[]"] ab by auto
  then show ?thesis
    using assms(3) ids prev_block [of a] get_authority_set_id_ok [of "a - 1"] ab
    by (simp add: test_query_redis_block_range_def find_justifications_in_range_def)
qed

text \<open>
  The loop over the epochs ends with the current set, and no epoch end on the way makes it panic,
  when every one announces the next authorities.
\<close>

lemma rotate_data_found:
  assumes f: "epoch_end sid head t f" and "announces_next C hdr auths f"
  shows "\<exists>data b. get_header_rotate C N MAX_HEADER_SIZE MAX_AUTHORITY_SET_SIZE (of_nat f) = Inr data \<and>
    index (rd_header_bytes data) (rd_start_position data) = Inr b"
proof -
  obtain pre post where logs: "h_logs (hdr f) = pre @ Consensus [70, 82, 78, 75] (scheduled_change (auths f)) # post"
      "\<forall>l \<in> set pre. \<forall>v. l \<noteq> Consensus [70, 82, 78, 75] v" "length (h_logs (hdr f)) < 64"
      and S: "length (encode_header C (hdr f)) \<le> MAX_HEADER_SIZE" and M: "length (auths f) \<le> MAX_AUTHORITY_SET_SIZE"
    using assms(2) unfolding announces_next_def by blast
  have fs: "f \<le> head"
    using f by (simp add: epoch_end_def)
  obtain data where data: "get_header_rotate C N MAX_HEADER_SIZE MAX_AUTHORITY_SET_SIZE (of_nat f) = Inr data"
      "rd_header_bytes data = header_bytes (encoded_header C MAX_HEADER_SIZE (hdr f))"
      "rd_start_position data = 96 + compact_length (of_nat f) + length (concat (map (encode_log C) pre))"
    using get_header_rotate_ok [OF f logs(1,2) S M] by metis
  obtain before x after where "rd_header_bytes data = before @ x # consensus_log (scheduled_change (auths f)) @ after"
      "length before = rd_start_position data"
    using encoded_scheduled_change [OF fs logs(3,1), of 0 MAX_HEADER_SIZE] S data(2,3) by (metis add_0_right)
  then have "index (rd_header_bytes data) (rd_start_position data) = Inr x"
    by (simp add: index_def nth_append)
  with data(1) show ?thesis
    by blast
qed

lemma header_rotate_loop_passes:
  assumes ends: "\<And>t f. epoch_end sid head t f \<Longrightarrow> announces_next C hdr auths f" and "sid 0 \<le> t" "t + 1 < 2 ^ 64"
  shows "header_rotate_loop C N (of_nat t) = Inr ()"
  using assms(2,3)
proof (induction "sid head - t" arbitrary: t rule: less_induct)
  case less
  from less.prems show ?case
  proof (cases rule: last_justified_cases)
    case none
    then show ?thesis
      by (subst header_rotate_loop.simps) simp
  next
    case (found f)
    have fs: "0 < f" "f \<le> head" "sid f = t + 1" "t + 1 \<le> sid head"
      using found(1) set_id_mono [of f head] by (auto simp: epoch_end_def)
    have t: "checked_add (of_nat t :: u64) 1 = Inr (of_nat (t + 1))"
      using found(1) next_set_id [of "f - 1"] by (auto simp: epoch_end_def)
    obtain data b where data: "get_header_rotate C N MAX_HEADER_SIZE MAX_AUTHORITY_SET_SIZE (of_nat f) = Inr data"
        "index (rd_header_bytes data) (rd_start_position data) = Inr b"
      using rotate_data_found [OF found(1) ends [OF found(1)]] by blast
    have "header_rotate_loop C N (of_nat (t + 1)) = Inr ()"
      using fs set_id_bound [of head] less.prems(1) by (intro less.hyps) auto
    then show ?thesis
      using found(2) of_nat_block_eq [of f 0] fs t data get_authorities_ok [OF fs(2)]
      by (subst header_rotate_loop.simps) simp
  qed
qed

lemma test_get_header_rotate_passes:
  assumes "\<And>t f. epoch_end sid head t f \<Longrightarrow> announces_next C hdr auths f" and "sid 0 \<le> 1"
  shows "test_get_header_rotate C N = Inr ()"
  using header_rotate_loop_passes [of 1] assms by (simp add: test_get_header_rotate_def)

lemma test_max_header_len_result:
  assumes "452588 \<le> head"
  shows "test_max_header_len C N =
    Inr (Max ((\<lambda>n. length (encode_header C (hdr n))) ` {452578..<452588 + 1}))"
proof -
  have max: "fold (\<lambda>h m. if m < length (encode_header C h) then length (encode_header C h) else m) hs m =
      fold max (map (\<lambda>h. length (encode_header C h)) hs) m" for hs m
    by (induction hs arbitrary: m) (auto simp: max_def)
  have "get_block_headers_range N 452578 452588 = Inr (map hdr [452578..<452588 + 1])"
    using get_block_headers_range_ok [of 452588 452578] assms by (simp del: upt_Suc upt_rec_numeral)
  then show ?thesis
    using Max.set_eq_fold [of 0 "map (\<lambda>h. length (encode_header C h)) (map hdr [452578..<452588 + 1])"]
    by (simp add: test_max_header_len_def Let_def max image_image del: upt_Suc upt_rec_numeral)
qed
text \<open>
  The test of the finality proof asks for the block after the last one of the set; it returns the
  number in the first precommit of the proof.
\<close>

lemma test_grandpa_prove_finality_result:
  assumes f: "epoch_end sid head (sid 641999) f" and "642000 \<le> head" and "auths 641999 \<noteq> []"
    and "grandpa_proveFinality N (of_nat (f + 1)) = Some enc" and "decode_finality_proof C enc = Some pr"
    and "decode_grandpa_justification C (fp_justification pr) = Some just"
    and "precommits (commit just) = p # ps" and "length (target_hash (precommit p)) = 32"
  shows "test_grandpa_prove_finality C N = Inr (target_number (precommit p))"
proof -
  have fs: "f \<le> head"
    using f by (simp add: epoch_end_def)
  have ids: "get_authority_set_id N 641999 = Inr (of_nat (sid 641999))"
      "block_authority_set_hash C N 641999 = Inr (chain_hash (curta_sha256 B) (auths 641999))"
    using get_authority_set_id_ok [of 641999] block_authority_set_hash_ok [of 641999] assms(2,3) by simp_all
  have "sid 641999 + 1 < 2 ^ 64"
    using set_id_bound [of 641999] assms(2) by simp
  note found = last_justified_block_eq(2) [OF this f]
  have param: "checked_add (of_nat f :: u32) 1 = Inr (of_nat (f + 1))"
    using fs head_bound unat_of_nat_small [of f, where 'a = 32] by (subst checked_add_ok) simp_all
  have "encode_signed_message C (PrecommitMessage (precommit p)) (round just) (of_nat (sid 641999)) =
      encode_precommit (target_hash (precommit p)) (target_number (precommit p)) (round just) (of_nat (sid 641999))"
    by (rule encode_signed_message)
  then show ?thesis
    using prev_block [of 642000] assms(2,4-8) ids found param get_header_ok [OF fs] get_authority_set_id_ok [OF fs]
    by (simp add: test_grandpa_prove_finality_def index_def host_decode_encode_precommit)
qed

text \<open>The circuits with their hints, and the tests that run them.\<close>

lemma prove_rotate_passes:
  assumes f: "epoch_end sid head t f"
    and logs: "h_logs (hdr f) = pre @ Consensus [70, 82, 78, 75] (scheduled_change (auths f)) # post"
      "\<forall>l \<in> set pre. \<forall>v. l \<noteq> Consensus [70, 82, 78, 75] v" "length (h_logs (hdr f)) < 64"
    and S: "length (encode_header C (hdr f)) + 40 * M \<le> MAX_HEADER_SIZE"
    and M: "length (auths f) \<le> M" "auths f \<noteq> []"
    and just: "proves_finality C N f just" "signed_precommits C (bh f) (of_nat f) (of_nat t) just"
    and A: "auths (f - 1) \<noteq> []" "length (auths (f - 1)) \<le> M" "M < 2 ^ 30"
      "2 * length (auths (f - 1)) < 3 * num_signers just (auths (f - 1))"
  shows "prove_rotate C N B R chain db M (of_nat t) (chain_hash (curta_sha256 B) (auths (f - 1))) =
    Inr (chain_hash (curta_sha256 B) (auths f))"
proof -
  let ?h = "chain_hash (curta_sha256 B) (auths (f - 1))"
  obtain j where j: "HintSimpleJustification C N R chain db M (of_nat f) (of_nat t) = Inr j"
      "verify_simple_justification B M (of_nat f) (bh f) (of_nat t) ?h j = Some ()"
    using epoch_end_accepted [OF f just refl A(2,3,1), of R chain db] A(4) by auto
  have "MAX_HEADER_SIZE < 2 ^ 32"
    by (simp add: const_values)
  then obtain rot where rot: "RotateHint C N MAX_HEADER_SIZE M (of_nat t) = Inr rot"
      "rotate_circuit B M (M * VALIDATOR_LENGTH + DELAY_LENGTH) rot j (of_nat t) ?h =
        Some (chain_hash (curta_sha256 B) (auths f))"
    using rotation_accepted [OF f logs S _ M j(2)] by blast
  have "t + 1 < 2 ^ 64"
    using f set_id_bound [of f] by (auto simp: epoch_end_def)
  then have "epoch_end_block_number rot = of_nat f"
    using rot(1) last_justified_block_eq(2) [OF _ f]
    by (auto simp: RotateHint_def and_then_eq_Inr split: if_splits)
  then show ?thesis
    using rot j(1) by (simp add: prove_rotate_def)
qed

lemma fetch_jobs_ok:
  assumes k: "next_power_of_two (M div 8) = 2 ^ k" and bound: "a + 1 + 8 * 2 ^ k < 2 ^ 32"
    and b: "b \<le> head" and S: "\<And>n. n \<le> b \<Longrightarrow> length (encode_header C (hdr n)) \<le> MAX_HEADER_SIZE"
  shows "\<exists>jobs. fetch_jobs C N B M (of_nat a) (of_nat b) = Inr jobs"
proof -
  let ?nums = "\<lambda>j. map of_nat [j * 8 + 1..<(j + 1) * 8 + 1] :: u32 list"
  let ?fetch = "\<lambda>nums. header_range_hint C N MAX_HEADER_SIZE 8 (u32_add B (of_nat a) (nums ! 0))
    (u32_add B (of_nat a) (nums ! 7)) (of_nat b)"
  have "?fetch (?nums j) = Inr (honest_headers MAX_HEADER_SIZE (\<lambda>n. encoded_header C MAX_HEADER_SIZE (hdr n)) a b
      (relative_nums (j * 8) 0))" if "j < 2 ^ k" for j
  proof -
    have j8: "j * 8 + 8 \<le> 8 * 2 ^ k"
      using that by linarith
    have small: "unat (of_nat n :: u32) = n" if "n \<le> a + j * 8 + 8" for n
      using that j8 bound by (intro unat_of_nat_small) simp
    have add: "u32_add B (of_nat a) (of_nat n) = of_nat (a + n)" if "n \<le> j * 8 + 8" for n
      using that j8 bound small [of n] small [of a] by (subst u32_add_exact) simp_all
    have "?nums j ! 0 = of_nat (j * 8 + 1)" "?nums j ! 7 = of_nat (j * 8 + 8)"
      by (simp_all add: nth_map add.commute del: upt_Suc of_nat_add of_nat_mult)
    then have "u32_add B (of_nat a) (?nums j ! 0) = of_nat (a + j * 8 + 1)"
        "u32_add B (of_nat a) (?nums j ! 7) = of_nat (a + j * 8 + 8)"
      using add [of "j * 8 + 1"] add [of "j * 8 + 8"] by (simp_all only: add.assoc)
    then show ?thesis
      using header_range_hint_ok [OF b S, of a "j * 8"] j8 bound by (simp only:)
  qed
  then have "\<exists>jobs. traverse ?fetch (map ?nums js) = Inr jobs" if "set js \<subseteq> {..<2 ^ k}" for js
    using that by (induction js) auto
  from this [of "[0..<2 ^ k]"] show ?thesis
    by (auto simp: fetch_jobs_def job_nums_def HEADERS_PER_MAP_def k atLeast0LessThan)
qed

lemma prove_header_range_passes:
  assumes k: "next_power_of_two (M' div 8) = 2 ^ k" "3 + k < 32" and bound: "a + 1 + 8 * 2 ^ k < 2 ^ 32"
    and range: "a < b" "b \<le> head" "b \<le> a + 8 * 2 ^ k"
    and S: "\<And>n. n \<le> b \<Longrightarrow> length (encode_header C (hdr n)) \<le> MAX_HEADER_SIZE"
    and hint: "HintSimpleJustification C N R chain db M (of_nat b) set_id = Inr j"
    and j: "supermajority M j (bh b) (of_nat b) set_id (auths (b - 1))"
  shows "\<exists>out. prove_header_range C N B mapreduce R chain db M M'
      \<lparr>hr_trusted_block = of_nat a, hr_trusted_header_hash = bh a, hr_authority_set_id = set_id,
       hr_authority_set_hash = chain_hash (curta_sha256 B) (auths (b - 1)), hr_target_block = of_nat b\<rparr> = Inr out \<and>
    hr_target_header_hash out = bh b"
proof -
  have S32: "MAX_HEADER_SIZE < 2 ^ 32"
    by (simp add: const_values)
  show ?thesis
    using fetch_jobs_ok [OF k(1) bound range(2) S] header_range_accepted [OF k bound range S S32 hint j] hint
    by (auto simp: prove_header_range_def)
qed

lemma powers: "next_power_of_two 2 = 2 ^ 1" "next_power_of_two 4 = 2 ^ 2" "next_power_of_two 12 = 2 ^ 4"
    "next_power_of_two 32 = 2 ^ 5"
  by (simp_all add: next_power_of_two_def upt_rec)

text \<open>
  The tests of the header range circuit pass on every chain whose data are the hashes the tests
  give, when the justification hint answers with more than two thirds of the set.
\<close>

lemma header_range_tests_pass:
  assumes "4321 \<le> head" "\<And>n. n \<le> 4321 \<Longrightarrow> length (encode_header C (hdr n)) \<le> MAX_HEADER_SIZE"
    and "bh 4310 = test_header_4310" "chain_hash (curta_sha256 B) (auths 4320) = test_set_0_hash"
    and hint: "\<And>M. M = 5 \<or> M = 76 \<Longrightarrow> HintSimpleJustification C N R chain db M 4321 0 = Inr (j M) \<and>
      supermajority M (j M) (bh 4321) 4321 0 (auths 4320)"
  shows "\<exists>out. test_header_range_small C N B mapreduce R chain db = Inr out \<and> hr_target_header_hash out = bh 4321"
    and "\<exists>out. test_header_range C N B mapreduce R chain db = Inr out \<and> hr_target_header_hash out = bh 4321"
  using prove_header_range_passes [of 32 2 4310 4321 R chain db 5 0 "j 5"]
    prove_header_range_passes [of 100 4 4310 4321 R chain db 76 0 "j 76"] assms hint [of 5] hint [of 76] powers(2,3)
  by (simp_all add: test_header_range_small_def test_header_range_def)

lemma test_header_range_large_passes:
  assumes "529200 \<le> head" "\<And>n. n \<le> 529200 \<Longrightarrow> length (encode_header C (hdr n)) \<le> MAX_HEADER_SIZE"
    and "bh 529000 = test_header_529000" "chain_hash (curta_sha256 B) (auths 529199) = test_set_215_hash"
    and "HintSimpleJustification C N R chain db MAX_AUTHORITY_SET_SIZE 529200 215 = Inr j"
    and "supermajority MAX_AUTHORITY_SET_SIZE j (bh 529200) 529200 215 (auths 529199)"
  shows "\<exists>out. test_header_range_large C N B mapreduce R chain db = Inr out \<and> hr_target_header_hash out = bh 529200"
  using prove_header_range_passes [of 256 5 529000 529200 R chain db MAX_AUTHORITY_SET_SIZE 215 j] assms powers(4)
  by (simp add: test_header_range_large_def)

lemma test_verify_subchain_passes:
  assumes "397862 \<le> head" "\<And>n. n \<le> 397862 \<Longrightarrow> length (encode_header C (hdr n)) \<le> MAX_HEADER_SIZE"
    and "bh 397855 = test_header_397855"
  shows "\<exists>out. test_verify_subchain C N B mapreduce = Inr out \<and> target_header_hash out = bh 397862"
proof -
  have "MAX_HEADER_SIZE < 2 ^ 32"
    by (simp add: const_values)
  then show ?thesis
    using fetch_jobs_ok [of 16 1 397855 397862] verify_subchain_fetched [of 16 1 397855 397862 MAX_HEADER_SIZE]
      assms powers(1)
    by (auto simp: test_verify_subchain_def)
qed

text \<open>The test of the justification, and those of the rotate circuit at the first epoch end.\<close>

lemma epoch_0_tests_pass:
  assumes f: "epoch_end sid head 0 4321" and bh: "bh 4321 = test_header_4321"
    and set: "chain_hash (curta_sha256 B) (auths 4320) = test_set_0_hash"
    and just: "proves_finality C N 4321 just" "signed_precommits C (bh 4321) 4321 0 just"
    and A: "auths 4320 \<noteq> []" "length (auths 4320) \<le> 8" "2 * length (auths 4320) < 3 * num_signers just (auths 4320)"
    and logs: "h_logs (hdr 4321) = pre @ Consensus [70, 82, 78, 75] (scheduled_change (auths 4321)) # post"
      "\<forall>l \<in> set pre. \<forall>v. l \<noteq> Consensus [70, 82, 78, 75] v" "length (h_logs (hdr 4321)) < 64"
    and S: "length (encode_header C (hdr 4321)) + 4000 \<le> MAX_HEADER_SIZE"
    and M: "length (auths 4321) \<le> 8" "auths 4321 \<noteq> []"
  shows "test_verify_simple_justification C N B R chain db = Inr ()"
    and "test_rotate_small_authority_set C N B R chain db = Inr (chain_hash (curta_sha256 B) (auths 4321))"
    and "test_rotate_medium_authority_set C N B R chain db = Inr (chain_hash (curta_sha256 B) (auths 4321))"
proof -
  show "test_verify_simple_justification C N B R chain db = Inr ()"
    using epoch_end_accepted [OF f just(1) _ refl, of 8 R chain db] just(2) A set bh
    by (auto simp: test_verify_simple_justification_def)
  show "test_rotate_small_authority_set C N B R chain db = Inr (chain_hash (curta_sha256 B) (auths 4321))"
    "test_rotate_medium_authority_set C N B R chain db = Inr (chain_hash (curta_sha256 B) (auths 4321))"
    using prove_rotate_passes [OF f logs _ _ M(2) just(1), of 8 R chain db]
      prove_rotate_passes [OF f logs _ _ M(2) just(1), of 100 R chain db] just(2) A set S M
    by (simp_all add: test_rotate_small_authority_set_def test_rotate_medium_authority_set_def)
qed

lemma test_rotate_large_passes:
  assumes f: "epoch_end sid head 48 f"
    and set: "chain_hash (curta_sha256 B) (auths (f - 1)) = test_set_48_hash"
    and just: "proves_finality C N f just" "signed_precommits C (bh f) (of_nat f) 48 just"
    and A: "auths (f - 1) \<noteq> []" "length (auths (f - 1)) \<le> 300"
      "2 * length (auths (f - 1)) < 3 * num_signers just (auths (f - 1))"
    and logs: "h_logs (hdr f) = pre @ Consensus [70, 82, 78, 75] (scheduled_change (auths f)) # post"
      "\<forall>l \<in> set pre. \<forall>v. l \<noteq> Consensus [70, 82, 78, 75] v" "length (h_logs (hdr f)) < 64"
    and S: "length (encode_header C (hdr f)) + 12000 \<le> MAX_HEADER_SIZE"
    and M: "length (auths f) \<le> 300" "auths f \<noteq> []"
  shows "test_rotate_large_authority_set C N B R chain db = Inr (chain_hash (curta_sha256 B) (auths f))"
  using prove_rotate_passes [OF f logs _ M just(1), of R chain db] just(2) A set S
  by (simp add: test_rotate_large_authority_set_def)

text \<open>The tests of the dummy programs pass exactly on the chains with the outputs they expect.\<close>

lemma test_dummy_rotate_iff:
  assumes f: "epoch_end sid head 117 f" and "auths f \<noteq> []"
  shows "test_dummy_rotate C N = Inr () \<longleftrightarrow> chain_hash (curta_sha256 B) (auths f) = test_dummy_rotate_output"
proof -
  have "f \<le> head" "last_justified_block N 117 = Inr (of_nat f)"
    using last_justified_block_eq(2) [of 117 f] f by (simp_all add: epoch_end_def)
  then show ?thesis
    using block_authority_set_hash_ok [OF _ assms(2)]
    by (simp add: test_dummy_rotate_def DummyRotate_def index_range_def dummy_inputs)
qed

lemma test_dummy_header_range_iff:
  assumes "246330 \<le> head"
  shows "test_dummy_header_range C N = Inr () \<longleftrightarrow>
    bh 246330 @
      merkle_tree (sha256 C) 8 (map (\<lambda>n. h_state_root (hdr n)) [246150 + 1..<246330 + 1] @ replicate (2 ^ 8 - (246330 - 246150)) zero32) @
      merkle_tree (sha256 C) 8 (map (\<lambda>n. h_data_root (hdr n)) [246150 + 1..<246330 + 1] @ replicate (2 ^ 8 - (246330 - 246150)) zero32) =
    test_dummy_header_range_output"
proof -
  have "get_header N 246330 = Inr (hdr 246330)" "avail_header_hash C (hdr 246330) = bh 246330"
    using get_header_ok [of 246330] avail_header_hash [of 246330] assms by simp_all
  then show ?thesis
    using get_merkle_root_commitments_ok [of 8 246150 246330 C] assms
    by (simp add: test_dummy_header_range_def DummyHeaderRange_def index_range_def dummy_inputs
        del: upt_Suc upt_rec_numeral)
qed

end

end
