(* ===== verification/Spec2Isabelle.thy ===== *)
theory Spec2Isabelle
  imports Programs Unit_Tests
begin

text \<open>
  \<^bold>\<open>VectorX, a zero-knowledge light client of Avail.\<close>

  The repository holds the circuits that prove facts about the Avail chain, the host code that
  feeds them, a contract that stores what is proved, and the services around them. The library
  models all of these parts and the way they interact.

  \<^bold>\<open>The program.\<close> The contract (\<open>contracts/src/VectorX.sol\<close>) stores a head, header hashes,
  authority set hashes and the commitments of block ranges. The operator (\<open>bin/vectorx.rs\<close>) reads
  the contract and an Avail node and requests a header range or a rotation. For a header range the
  circuit (\<open>circuits/header_range.rs\<close>) checks that hinted headers form a chain from the trusted
  block to the target (\<open>builder/subchain_verification.rs\<close>, a map-reduce over jobs of eight headers)
  and that more than two thirds of the authority set signed the target
  (\<open>builder/justification.rs\<close>). For a rotation (\<open>circuits/rotate.rs\<close>, \<open>builder/rotate.rs\<close>) it
  checks the scheduled change in an epoch end header. The hints come from the host
  (\<open>circuits/input/mod.rs\<close>), which queries a node and Redis; the justification indexer
  (\<open>bin/indexer.rs\<close>) fills Redis. The gateway verifies the proof and the contract commits its
  output. Dummy programs (\<open>circuits/dummy_header_range.rs\<close>, \<open>circuits/dummy_rotate.rs\<close>) replace the
  circuits on test deployments; \<open>bin/fill_block_range.rs\<close> and \<open>bin/genesis.rs\<close> are tools of the
  guardian, and \<open>bin/events.rs\<close> indexes the contract's events.

  \<^bold>\<open>The theories.\<close>

  \<^item> \<open>VX_Prelude\<close>: bytes, words, slices, the option and result types, checked arithmetic, and the
    collections \<open>byte_simps\<close> and \<open>result_simps\<close>.
  \<^item> \<open>Gadgets\<close>: the gadgets of the plonky2x package as the record \<open>plonky2x\<close>; the locale
    \<open>plonky2x_gadgets\<close> states what they compute.
  \<^item> \<open>Vars\<close>: \<open>circuits/consts.rs\<close> and the structs of \<open>circuits/vars.rs\<close>.
  \<^item> \<open>Decoder\<close>: \<open>builder/decoder.rs\<close> and \<open>builder/header.rs\<close>. The compact integer decoder inverts
    the SCALE encoding and its result is given for every input, the precommit decoder accepts exactly
    the precommit messages.
  \<^item> \<open>Justification\<close>: \<open>builder/justification.rs\<close>. The commitment is the chained hash; an accepted
    justification carries a supermajority unless padding slots are marked, and a marked padding slot
    counts as a vote.
  \<^item> \<open>Rotation\<close>: \<open>builder/rotate.rs\<close>. An accepted rotation reads the new keys at the given
    position (\<open>reads_change\<close>); a well-formed epoch end is accepted exactly if it is justified and the
    window behind the change fits the header array; the position may lie behind the hashed bytes.
  \<^item> \<open>Subchain\<close>: \<open>builder/subchain_verification.rs\<close>. The map and reduce stages over a perfect tree
    of jobs accept exactly the chains of headers, with the padded Merkle roots of the range.
  \<^item> \<open>Circuits\<close>: \<open>define\<close> of the two circuits; soundness of their public outputs, and what follows
    for the trusted set under \<open>trusted_set_assumptions\<close>.
  \<^item> \<open>Host_Crypto\<close>, \<open>Avail_Types\<close>, \<open>Redis_Store\<close>, \<open>Fetcher\<close>, \<open>Header_Data\<close>,
    \<open>Justification_Data\<close>, \<open>Rotate_Data\<close>, \<open>Queries\<close>: \<open>circuits/input/types.rs\<close> and
    \<open>circuits/input/mod.rs\<close>. The host's hashes, Merkle roots and decoders agree with the circuit's; the
    binary search finds the last block of an authority set; header ranges, commitments and range
    queries are exact; a stored justification reads back and leaves everything else as it was.
  \<^item> \<open>Prover\<close>: the three hints. With them the circuits accept every finalized range whose target
    has a served finality proof (\<open>finality_proof_served\<close>) or a stored justification
    (\<open>justification_stored\<close>), and every epoch end that announces the next set.
  \<^item> \<open>Dummy\<close>: the dummy programs return the bytes the circuits would publish.
  \<^item> \<open>Operator\<close>: \<open>bin/vectorx.rs\<close>. Which requests are made, for every outcome of the search, and
    when the search panics.
  \<^item> \<open>Contract\<close>: the storage and every transaction of the contract. The inductive relation
    \<open>public_step\<close> has the transactions anyone can send; nothing stored is ever taken back, and the two
    updates implement an abstract light client.
  \<^item> \<open>Light_Client\<close>: contract, circuits and chain together. Every reachable storage holds data of
    the finalized chain only, and operator, prover and contract together move the head.
  \<^item> \<open>Fill_Range\<close>, \<open>Indexer\<close>, \<open>Events\<close>: the tools and indexers. The contract accepts the
    filled ranges and then holds their data; the justification indexer stores exactly the valid votes
    of more than two thirds; the event indexer stores exactly the ranges logged by the event with
    four arguments.
  \<^item> \<open>Programs\<close>: the \<open>main\<close> functions under \<open>bin/\<close> and the deployed sizes 256 and 512.
  \<^item> \<open>Unit_Tests\<close>: the tests in the sources, run on the model. Those with fixed vectors pass for
    every implementation of the interfaces; those that need a live node pass on every chain that
    reaches the blocks they name and whose data they expect.

  \<^bold>\<open>Interfaces.\<close> Code outside the repository is an argument, and a locale states what the code
  relies on: \<open>plonky2x_gadgets\<close> and \<open>subchain_gadgets\<close> (the circuit gadgets and map-reduce),
  \<open>host_crates\<close> (hashes, signatures and the SCALE codec of the host), \<open>redis_server\<close>,
  \<open>redis_frame\<close> and \<open>answering_redis\<close> (the database), \<open>avail_chain\<close> (a node that serves one finalized chain),
  \<open>log_provider\<close> and \<open>event_indexer\<close> (an Ethereum node and its logs). \<open>chain_prover\<close> joins a chain with
  the host and circuit packages, \<open>operator_chain\<close> a chain with the contract's view methods, and
  \<open>light_client_chain\<close> adds GRANDPA's safety. Each is interpreted: the gadgets and packages on
  reference functions, the database in memory, the node, the operator, the prover and the light
  client on a chain of 21 blocks with an authority set per five blocks, whose keys sign the blocks
  of that chain only.

  \<^bold>\<open>Conventions.\<close> A circuit is a function into \<open>option\<close>: \<open>None\<close> is an unsatisfied constraint, and
  every hinted value is an argument, so that soundness holds for every choice of the prover. Host
  code returns \<open>fault + 'a\<close>: \<open>Panic\<close> ends the program, \<open>Failure\<close> is an \<open>Err\<close> value. Integers have
  the width of the source; circuit arithmetic wraps or is field arithmetic as the gadget does. Host
  arithmetic is checked, as in the profile of \<open>cargo run\<close> that the README gives for the services. The
  circuits and dummy programs are built for release, where an overflow wraps; a run of the model
  that ends without a fault has no overflow and is a run of either build. Loops are
  recursive functions with termination proofs (measures on the distance to the end); no definition
  uses fuel. The endless loops of the services run over the list of what their passes see, and a
  node is a snapshot for the duration of a pass.

  \<^bold>\<open>Assumptions that cannot be proved here.\<close> A verified proof means that some witness satisfies the
  circuit (\<open>attested\<close>); the hash inputs involved do not collide (\<open>collision_free\<close>, \<open>injective_keys\<close>
  and the hash conditions in \<open>trusted_set_assumptions\<close>); GRANDPA is safe. Because of the two defects
  stated in \<open>Justification\<close> and \<open>Rotation\<close>, the safety of the light client is stated for proofs whose
  padding slots are not marked and whose start position is the one of a scheduled change.

  \<^bold>\<open>Not modelled.\<close> Registration of hint generators, logging and printing, sleeping, and
  command line parsing have no effect on the results. Of the unit tests, the two serialization
  tests (they test plonky2x's registries), \<open>test_system_chain\<close> and \<open>test_get_authority_set_id\<close>
  (they only print what the node answers) are left out. The deployment scripts, the generated ABI
  bindings and the build files are not part of the running program. The code of plonky2x, subxt, ethers, alloy, redis, the Solidity upgrade library and the
  gateway is outside the repository.
\<close>

end
